(* ===== verification/Prelude.thy ===== *)
theory Prelude
  imports Main "HOL-Library.Word" "HOL-Library.Monad_Syntax" "HOL-Library.Code_Target_Numeral"
begin

text \<open>
  The vocabulary shared by every component of the development.

  The repository is Rust. A Rust function here is a HOL function whose result type says
  what can happen: \<open>'a option\<close> is a computation that may panic (\<open>None\<close> is the panic:
  an arithmetic overflow or underflow, an index out of range, an \<open>unwrap\<close> of
  \<open>None\<close>, an \<open>unreachable!\<close>), and inside it \<open>'e + 'a\<close> is Rust's
  \<open>Result<'a, 'e>\<close> with \<open>Inl\<close> for \<open>Err\<close>. A method with \<open>&mut self\<close> takes the
  state and returns the new one next to its result, also when the result is an error.

  \<open>u64\<close> and \<open>usize\<close> (64-bit targets) are natural numbers below \<open>2 ^ 64\<close>; their
  \<open>+\<close>, \<open>-\<close> and \<open>*\<close> are the checked operations below, which panic where Rust with
  overflow checks does. \<open>Duration\<close> is a number of nanoseconds. \<open>u8\<close> is an 8-bit word.
\<close>

unbundle bit_operations_syntax

section \<open>Types\<close>

type_synonym u8 = "8 word"
type_synonym bytes = "8 word list"
type_synonym u64 = nat
type_synonym usize = nat
type_synonym duration = nat \<comment> \<open>nanoseconds\<close>

section \<open>Automation\<close>

named_theorems rust_simps \<open>when a checked operation or a monadic step returns, and what\<close>
named_theorems map_simps \<open>lookups after updates of the map models\<close>

declare bind_eq_Some_conv [rust_simps]

section \<open>Checked arithmetic, indexing and assertions\<close>

definition uadd :: "nat \<Rightarrow> nat \<Rightarrow> nat option" where
  "uadd a b = (if a + b < 2 ^ 64 then Some (a + b) else None)"

definition usub :: "nat \<Rightarrow> nat \<Rightarrow> nat option" where
  "usub a b = (if b \<le> a then Some (a - b) else None)"

definition umul :: "nat \<Rightarrow> nat \<Rightarrow> nat option" where
  "umul a b = (if a * b < 2 ^ 64 then Some (a * b) else None)"

text \<open>\<open>Duration + Duration\<close> panics beyond \<open>u64::MAX\<close> seconds and 999999999 nanoseconds;
  \<open>Duration - Duration\<close> panics below zero.\<close>

definition dadd :: "duration \<Rightarrow> duration \<Rightarrow> duration option" where
  "dadd a b = (if a + b < 2 ^ 64 * 1000000000 then Some (a + b) else None)"

definition dsub :: "duration \<Rightarrow> duration \<Rightarrow> duration option" where
  "dsub a b = (if b \<le> a then Some (a - b) else None)"

definition as_secs :: "duration \<Rightarrow> nat" where
  "as_secs d = d div 1000000000"

definition as_millis :: "duration \<Rightarrow> nat" where
  "as_millis d = d div 1000000"

definition from_millis :: "nat \<Rightarrow> duration" where
  "from_millis n = n * 1000000"

definition from_secs :: "nat \<Rightarrow> duration" where
  "from_secs n = n * 1000000000"

definition rust_assert :: "bool \<Rightarrow> unit option" where
  "rust_assert b = (if b then Some () else None)"

definition vec_get :: "'a list \<Rightarrow> nat \<Rightarrow> 'a option" where
  "vec_get xs i = (if i < length xs then Some (xs ! i) else None)"

definition vec_set :: "'a list \<Rightarrow> nat \<Rightarrow> 'a \<Rightarrow> 'a list option" where
  "vec_set xs i v = (if i < length xs then Some (xs[i := v]) else None)"

text \<open>\<open>&xs[a..b]\<close>: panics unless \<open>a \<le> b \<le> xs.len()\<close>.\<close>

definition vec_slice :: "'a list \<Rightarrow> nat \<Rightarrow> nat \<Rightarrow> 'a list option" where
  "vec_slice xs a b = (if a \<le> b \<and> b \<le> length xs then Some (take (b - a) (drop a xs)) else None)"

text \<open>\<open>xs[a..b].copy_from_slice(ys)\<close>: panics unless the range is in bounds and has the
  length of \<open>ys\<close>.\<close>

definition vec_copy :: "'a list \<Rightarrow> nat \<Rightarrow> nat \<Rightarrow> 'a list \<Rightarrow> 'a list option" where
  "vec_copy xs a b ys =
     (if a \<le> b \<and> b \<le> length xs \<and> length ys = b - a
      then Some (take a xs @ ys @ drop b xs) else None)"

text \<open>\<open>Vec::resize\<close>.\<close>

definition vec_resize :: "'a list \<Rightarrow> nat \<Rightarrow> 'a \<Rightarrow> 'a list" where
  "vec_resize xs n x = take n xs @ replicate (n - length xs) x"

text \<open>\<open>usize::div_ceil\<close>.\<close>

definition div_ceil :: "nat \<Rightarrow> nat \<Rightarrow> nat" where
  "div_ceil a b = (a + b - 1) div b"

lemma uadd_Some [rust_simps]: "uadd a b = Some c \<longleftrightarrow> c = a + b \<and> a + b < 2 ^ 64"
  by (auto simp: uadd_def)

lemma usub_Some [rust_simps]: "usub a b = Some c \<longleftrightarrow> c = a - b \<and> b \<le> a"
  by (auto simp: usub_def)

lemma umul_Some [rust_simps]: "umul a b = Some c \<longleftrightarrow> c = a * b \<and> a * b < 2 ^ 64"
  by (auto simp: umul_def)

lemma dadd_Some [rust_simps]: "dadd a b = Some c \<longleftrightarrow> c = a + b \<and> a + b < 2 ^ 64 * 1000000000"
  by (auto simp: dadd_def)

lemma dsub_Some [rust_simps]: "dsub a b = Some c \<longleftrightarrow> c = a - b \<and> b \<le> a"
  by (auto simp: dsub_def)

lemma rust_assert_Some [rust_simps]: "rust_assert b = Some u \<longleftrightarrow> b"
  by (auto simp: rust_assert_def)

lemma vec_get_Some [rust_simps]: "vec_get xs i = Some x \<longleftrightarrow> i < length xs \<and> x = xs ! i"
  by (auto simp: vec_get_def)

lemma vec_set_Some [rust_simps]: "vec_set xs i v = Some ys \<longleftrightarrow> i < length xs \<and> ys = xs[i := v]"
  by (auto simp: vec_set_def)

lemma vec_slice_Some [rust_simps]:
  "vec_slice xs a b = Some ys \<longleftrightarrow> a \<le> b \<and> b \<le> length xs \<and> ys = take (b - a) (drop a xs)"
  by (auto simp: vec_slice_def)

lemma vec_copy_Some [rust_simps]:
  "vec_copy xs a b ys = Some zs \<longleftrightarrow>
     a \<le> b \<and> b \<le> length xs \<and> length ys = b - a \<and> zs = take a xs @ ys @ drop b xs"
  by (auto simp: vec_copy_def)

lemma length_vec_resize [simp]: "length (vec_resize xs n x) = n"
  by (simp add: vec_resize_def)

lemma vec_resize_shrink: "n \<le> length xs \<Longrightarrow> vec_resize xs n x = take n xs"
  by (simp add: vec_resize_def)

section \<open>The panic monad\<close>

text \<open>A loop over a list whose body may panic.\<close>

fun foldM :: "('s \<Rightarrow> 'a \<Rightarrow> 's option) \<Rightarrow> 's \<Rightarrow> 'a list \<Rightarrow> 's option" where
  "foldM f s [] = Some s"
| "foldM f s (x # xs) = do { s' \<leftarrow> f s x; foldM f s' xs }"

fun mapM :: "('a \<Rightarrow> 'b option) \<Rightarrow> 'a list \<Rightarrow> 'b list option" where
  "mapM f [] = Some []"
| "mapM f (x # xs) = do { y \<leftarrow> f x; ys \<leftarrow> mapM f xs; Some (y # ys) }"

lemma foldM_append: "foldM f s (xs @ ys) = do { s' \<leftarrow> foldM f s xs; foldM f s' ys }"
  by (induction xs arbitrary: s) (auto split: Option.bind_splits)

text \<open>An invariant that every iteration of a loop keeps holds at its end, and a loop whose
  every iteration returns under the invariant returns.\<close>

lemma foldM_inv:
  assumes "foldM f s xs = Some t" and "I s"
    and "\<And>s x s'. I s \<Longrightarrow> x \<in> set xs \<Longrightarrow> f s x = Some s' \<Longrightarrow> I s'"
  shows "I t"
  using assms
proof (induction xs arbitrary: s)
  case Nil
  then show ?case by simp
next
  case (Cons x xs)
  from Cons.prems(1) obtain s' where "f s x = Some s'" "foldM f s' xs = Some t"
    by (auto simp: bind_eq_Some_conv)
  with Cons show ?case by (metis list.set_intros)
qed

lemma foldM_total:
  assumes "I s"
    and "\<And>s x. I s \<Longrightarrow> x \<in> set xs \<Longrightarrow> \<exists>s'. f s x = Some s' \<and> I s'"
  shows "\<exists>t. foldM f s xs = Some t \<and> I t"
  using assms
proof (induction xs arbitrary: s)
  case Nil
  then show ?case by simp
next
  case (Cons x xs)
  from Cons.prems obtain s' where "f s x = Some s'" "I s'" by (meson list.set_intros(1))
  with Cons show ?case by simp
qed

lemma mapM_Some_iff:
  "mapM f xs = Some ys \<longleftrightarrow> length ys = length xs \<and> (\<forall>i < length xs. f (xs ! i) = Some (ys ! i))"
proof (induction xs arbitrary: ys)
  case Nil
  then show ?case by auto
next
  case (Cons x xs)
  show ?case
    by (cases ys) (auto simp: bind_eq_Some_conv Cons.IH nth_Cons split: nat.splits)
qed

lemma mapM_list_all2: "mapM f xs = Some ys \<longleftrightarrow> list_all2 (\<lambda>x y. f x = Some y) xs ys"
  by (auto simp: mapM_Some_iff list_all2_conv_all_nth)

text \<open>\<open>returns m P\<close>: the computation does not panic, and if its result is \<open>Ok\<close>, the value
  satisfies \<open>P\<close>.\<close>

definition returns :: "('e + 'a) option \<Rightarrow> ('a \<Rightarrow> bool) \<Rightarrow> bool" where
  "returns m P \<longleftrightarrow> (case m of None \<Rightarrow> False | Some (Inl e) \<Rightarrow> True | Some (Inr x) \<Rightarrow> P x)"

lemma returns_map: "returns m (\<lambda>x. P (f x)) \<Longrightarrow> returns (do { r \<leftarrow> m; Some (map_sum id f r) }) P"
  by (auto simp: returns_def split: option.splits sum.splits)

lemma returns_weaken: "returns m P \<Longrightarrow> (\<And>x. P x \<Longrightarrow> Q x) \<Longrightarrow> returns m Q"
  by (auto simp: returns_def split: option.splits sum.splits)

lemma returns_Inl [simp]: "returns (Some (Inl e)) P"
  by (simp add: returns_def)

lemma returns_Inr [simp]: "returns (Some (Inr x)) P \<longleftrightarrow> P x"
  by (simp add: returns_def)

section \<open>Lists\<close>

lemma sum_list_map_filter_split:
  "sum_list (map f (filter P xs)) + sum_list (map f (filter (\<lambda>x. \<not> P x) xs)) = sum_list (map f xs)"
  for f :: "'a \<Rightarrow> nat"
  by (induction xs) auto

lemma member_le_sum_list_map: "x \<in> set xs \<Longrightarrow> f x \<le> sum_list (map f xs)"
  for f :: "'a \<Rightarrow> nat"
  by (induction xs) auto

lemma div_ceil_mult_ge: "0 < b \<Longrightarrow> a \<le> div_ceil a b * b"
proof -
  assume b: "0 < b"
  have "a + b - 1 = (a + b - 1) div b * b + (a + b - 1) mod b"
    by simp
  moreover have "(a + b - 1) mod b < b" using b by simp
  ultimately show ?thesis unfolding div_ceil_def by linarith
qed

lemma div_ceil_mult_less: "0 < b \<Longrightarrow> 0 < a \<Longrightarrow> (div_ceil a b - 1) * b < a"
proof -
  assume b: "0 < b" and a: "0 < a"
  have "(a + b - 1) div b * b \<le> a + b - 1" by simp
  moreover have "(div_ceil a b - 1) * b = (a + b - 1) div b * b - b"
    by (simp add: div_ceil_def diff_mult_distrib)
  ultimately show ?thesis using a b by linarith
qed

lemma div_ceil_pos: "0 < b \<Longrightarrow> 0 < a \<Longrightarrow> 0 < div_ceil a b"
  using div_ceil_mult_ge[of b a] by (cases "div_ceil a b") auto

end
