(* ===== verification/Collections.thy ===== *)
theory Collections
  imports Prelude "HOL-Library.AList"
begin

text \<open>
  The maps of the Rust standard library that the program uses. A \<open>BTreeMap\<close> is an
  association list kept strictly sorted by its keys, so that iterating over it is going
  through the list; a \<open>HashMap\<close> is an association list with distinct keys, whose order
  stands for the unspecified iteration order. Both promise the same laws, the locale
  \<open>rust_map\<close>; the facts about lookups and about sums over all the values (what the
  channels' memory counters measure) are proved once from the laws.
\<close>

section \<open>BTreeMap\<close>

fun bt_insert :: "'k::linorder \<Rightarrow> 'v \<Rightarrow> ('k \<times> 'v) list \<Rightarrow> ('k \<times> 'v) list" where
  "bt_insert k v [] = [(k, v)]"
| "bt_insert k v ((a, b) # m) =
     (if k < a then (k, v) # (a, b) # m
      else if k = a then (k, v) # m
      else (a, b) # bt_insert k v m)"

definition bt_remove :: "'k::linorder \<Rightarrow> ('k \<times> 'v) list \<Rightarrow> ('k \<times> 'v) list" where
  "bt_remove k m = filter (\<lambda>e. fst e \<noteq> k) m"

definition bt_get :: "('k::linorder \<times> 'v) list \<Rightarrow> 'k \<Rightarrow> 'v option" where
  "bt_get m k = map_of m k"

definition bt_ok :: "('k::linorder \<times> 'v) list \<Rightarrow> bool" where
  "bt_ok m \<longleftrightarrow> sorted_wrt (<) (map fst m)"

text \<open>\<open>BTreeMap::range(a..b)\<close>: the entries with a key in the half-open range, in order.\<close>

definition bt_range :: "'k::linorder \<Rightarrow> 'k \<Rightarrow> ('k \<times> 'v) list \<Rightarrow> ('k \<times> 'v) list" where
  "bt_range a b m = filter (\<lambda>e. a \<le> fst e \<and> fst e < b) m"

section \<open>HashMap\<close>

definition hm_insert :: "'k \<Rightarrow> 'v \<Rightarrow> ('k \<times> 'v) list \<Rightarrow> ('k \<times> 'v) list" where
  "hm_insert k v m = AList.update k v m"

definition hm_remove :: "'k \<Rightarrow> ('k \<times> 'v) list \<Rightarrow> ('k \<times> 'v) list" where
  "hm_remove k m = AList.delete k m"

definition hm_get :: "('k \<times> 'v) list \<Rightarrow> 'k \<Rightarrow> 'v option" where
  "hm_get m k = map_of m k"

definition hm_ok :: "('k \<times> 'v) list \<Rightarrow> bool" where
  "hm_ok m \<longleftrightarrow> distinct (map fst m)"

text \<open>The total_of weight of a map's values: what a memory counter of a channel counts.\<close>

definition total_of :: "('v \<Rightarrow> nat) \<Rightarrow> ('k \<times> 'v) list \<Rightarrow> nat" where
  "total_of w m = sum_list (map (w \<circ> snd) m)"

section \<open>The interface of maps\<close>

locale rust_map =
  fixes ok :: "('k \<times> 'v) list \<Rightarrow> bool"
    and get :: "('k \<times> 'v) list \<Rightarrow> 'k \<Rightarrow> 'v option"
    and insert :: "'k \<Rightarrow> 'v \<Rightarrow> ('k \<times> 'v) list \<Rightarrow> ('k \<times> 'v) list"
    and remove :: "'k \<Rightarrow> ('k \<times> 'v) list \<Rightarrow> ('k \<times> 'v) list"
  assumes ok_Nil: "ok []"
    and ok_distinct: "ok m \<Longrightarrow> distinct (map fst m)"
    and ok_insert: "ok m \<Longrightarrow> ok (insert k v m)"
    and ok_remove: "ok m \<Longrightarrow> ok (remove k m)"
    and get_map_of: "get m = map_of m"
    and map_of_insert: "ok m \<Longrightarrow> map_of (insert k v m) = (map_of m)(k \<mapsto> v)"
    and map_of_remove: "ok m \<Longrightarrow> map_of (remove k m) = (map_of m)(k := None)"
begin

lemma get_insert: "ok m \<Longrightarrow> get (insert k v m) k' = (if k' = k then Some v else get m k')"
  by (simp add: get_map_of map_of_insert)

lemma get_remove: "ok m \<Longrightarrow> get (remove k m) k' = (if k' = k then None else get m k')"
  by (simp add: get_map_of map_of_remove)

lemma get_in_set: "ok m \<Longrightarrow> get m k = Some v \<longleftrightarrow> (k, v) \<in> set m"
  using ok_distinct by (simp add: get_map_of)

lemma get_None_iff: "get m k = None \<longleftrightarrow> k \<notin> fst ` set m"
  by (simp add: get_map_of map_of_eq_None_iff)

lemma set_insert:
  assumes "ok m"
  shows "set (insert k v m) = Set.insert (k, v) {e \<in> set m. fst e \<noteq> k}"
proof -
  have "(a, b) \<in> set (insert k v m) \<longleftrightarrow> (if a = k then b = v else (a, b) \<in> set m)" for a b
    using get_in_set[OF ok_insert[OF assms], of k v a b] get_in_set[OF assms, of a b]
      get_insert[OF assms, of k v a] by (auto split: if_splits)
  then show ?thesis by (auto split: if_splits)
qed

lemma set_remove:
  assumes "ok m"
  shows "set (remove k m) = {e \<in> set m. fst e \<noteq> k}"
proof -
  have "(a, b) \<in> set (remove k m) \<longleftrightarrow> a \<noteq> k \<and> (a, b) \<in> set m" for a b
    using get_in_set[OF ok_remove[OF assms], of k a b] get_in_set[OF assms, of a b]
      get_remove[OF assms, of k a] by (auto split: if_splits)
  then show ?thesis by auto
qed

lemma total_sum_dom: "ok m \<Longrightarrow> total_of w m = (\<Sum>e\<in>set m. w (snd e))"
  using ok_distinct[of m]
  by (simp add: total_of_def sum_list_distinct_conv_sum_set distinct_map comp_def)

lemma total_insert_new:
  assumes "ok m" and "get m k = None"
  shows "total_of w (insert k v m) = total_of w m + w v"
proof -
  have "{e \<in> set m. fst e \<noteq> k} = set m" and "(k, v) \<notin> set m"
    using assms(2) get_in_set[OF assms(1)] by (force simp: get_None_iff)+
  then show ?thesis
    by (simp add: total_sum_dom assms(1) ok_insert set_insert)
qed

lemma total_remove:
  assumes "ok m" and "get m k = Some v"
  shows "total_of w (remove k m) + w v = total_of w m"
proof -
  have "(a, b) \<in> set m \<longleftrightarrow> (a, b) = (k, v) \<or> (a, b) \<in> set (remove k m)" for a b
    using get_in_set[OF assms(1), of a b] assms(2)
    by (cases "a = k") (auto simp: set_remove[OF assms(1)])
  then have m: "set m = Set.insert (k, v) (set (remove k m))"
    by (intro set_eqI) (simp add: split_paired_all)
  have "(k, v) \<notin> set (remove k m)" by (simp add: set_remove[OF assms(1)])
  then show ?thesis
    unfolding total_sum_dom[OF assms(1)] total_sum_dom[OF ok_remove[OF assms(1)]] m by simp
qed

lemma total_insert_old:
  assumes "ok m" and "get m k = Some v"
  shows "total_of w (insert k v' m) + w v = total_of w m + w v'"
proof -
  have "set (insert k v' m) = Set.insert (k, v') (set (remove k m))"
    using assms(1) by (simp add: set_insert set_remove)
  moreover have "(k, v') \<notin> set (remove k m)" using assms(1) by (simp add: set_remove)
  ultimately have "total_of w (insert k v' m) = w v' + total_of w (remove k m)"
    by (simp add: total_sum_dom assms(1) ok_insert ok_remove)
  then show ?thesis using total_remove[OF assms, of w] by simp
qed

lemma weight_le_total:
  assumes "ok m" and "get m k = Some v"
  shows "w v \<le> total_of w m"
  using total_remove[OF assms, of w] by linarith

end

section \<open>The two maps keep the laws\<close>

lemma map_of_bt_insert: "map_of (bt_insert k v m) = (map_of m)(k \<mapsto> v)"
proof
  show "map_of (bt_insert k v m) x = ((map_of m)(k \<mapsto> v)) x" for x
    by (induction m) auto
qed

lemma set_bt_insert_keys: "fst ` set (bt_insert k v m) = insert k (fst ` set m)"
  by (simp flip: dom_map_of_conv_image_fst add: map_of_bt_insert)

lemma bt_insert_ok: "bt_ok m \<Longrightarrow> bt_ok (bt_insert k v m)"
  unfolding bt_ok_def
proof (induction k v m rule: bt_insert.induct)
  case (2 k v a b m)
  from 2(2) have m: "\<forall>y\<in>fst ` set m. a < y" "sorted_wrt (<) (map fst m)" by auto
  consider "k < a" | "k = a" | "a < k" by fastforce
  then show ?case
  proof cases
    case 1
    with m have "\<forall>y\<in>fst ` set m. k < y" by (meson order.strict_trans)
    with 1 m show ?thesis by simp
  next
    case 2
    with m show ?thesis by simp
  next
    case 3
    with m have "\<forall>y\<in>fst ` set (bt_insert k v m). a < y" by (simp add: set_bt_insert_keys)
    moreover have "sorted_wrt (<) (map fst (bt_insert k v m))" using 2(1) 3 m by simp
    moreover have "\<not> k < a" "k \<noteq> a" using 3 by auto
    ultimately show ?thesis by simp
  qed
qed simp

lemma map_of_bt_remove: "map_of (bt_remove k m) = (map_of m)(k := None)"
proof
  show "map_of (bt_remove k m) x = ((map_of m)(k := None)) x" for x
    unfolding bt_remove_def by (induction m) auto
qed

lemma sorted_wrt_map_filter: "sorted_wrt R (map f xs) \<Longrightarrow> sorted_wrt R (map f (filter P xs))"
  by (induction xs) auto

lemma bt_remove_ok: "bt_ok m \<Longrightarrow> bt_ok (bt_remove k m)"
  unfolding bt_ok_def bt_remove_def by (rule sorted_wrt_map_filter)

lemma bt_ok_distinct: "bt_ok m \<Longrightarrow> distinct (map fst m)"
  unfolding bt_ok_def by (simp add: strict_sorted_iff)

lemma bt_get_eq: "bt_get m = map_of m"
  by (rule ext) (simp add: bt_get_def)

lemma hm_get_eq: "hm_get m = map_of m"
  by (rule ext) (simp add: hm_get_def)

interpretation bt: rust_map bt_ok bt_get bt_insert bt_remove
  by unfold_locales
    (simp_all add: bt_insert_ok bt_remove_ok bt_ok_distinct bt_get_eq map_of_bt_insert
      map_of_bt_remove, simp add: bt_ok_def)

interpretation hm: rust_map hm_ok hm_get hm_insert hm_remove
  by unfold_locales
    (simp_all add: hm_ok_def hm_get_eq hm_insert_def hm_remove_def distinct_update
      distinct_delete update_conv' delete_conv')

lemmas [map_simps] = bt.get_insert bt.get_remove hm.get_insert hm.get_remove
lemmas map_oks [simp, intro] =
  bt.ok_Nil bt.ok_insert bt.ok_remove hm.ok_Nil hm.ok_insert hm.ok_remove

section \<open>Facts of the ordered map alone\<close>

lemma bt_ok_Cons: "bt_ok ((k, v) # m) \<longleftrightarrow> (\<forall>e\<in>set m. k < fst e) \<and> bt_ok m"
  by (auto simp: bt_ok_def)

lemma bt_ok_filter: "bt_ok m \<Longrightarrow> bt_ok (filter P m)"
  unfolding bt_ok_def by (rule sorted_wrt_map_filter)

lemma bt_get_Cons: "bt_get ((k, v) # m) k' = (if k' = k then Some v else bt_get m k')"
  by (simp add: bt_get_def)

lemma bt_get_Nil [simp]: "bt_get [] k = None"
  by (simp add: bt_get_def)

lemma hm_get_Nil [simp]: "hm_get [] k = None"
  by (simp add: hm_get_def)

lemma total_Nil [simp]: "total_of w [] = 0"
  by (simp add: total_of_def)

lemma total_Cons [simp]: "total_of w (e # m) = w (snd e) + total_of w m"
  by (simp add: total_of_def)

text \<open>A key larger than all the others goes to the end.\<close>

lemma bt_insert_last: "\<forall>e \<in> set m. fst e < k \<Longrightarrow> bt_insert k v m = m @ [(k, v)]"
  by (induction k v m rule: bt_insert.induct) auto

text \<open>The range query returns exactly the keys of the range.\<close>

lemma set_bt_range: "set (bt_range a b m) = {e \<in> set m. a \<le> fst e \<and> fst e < b}"
  by (auto simp: bt_range_def)

end
