(* ===== verification/Octets.thy ===== *)
theory Octets
  imports Collections
begin

text \<open>
  The crate \<open>octets\<close>, through which \<open>src/renet/src/packet.rs\<close> writes and reads bytes,
  is not part of the repository. Its operations are the fields of \<open>octets_api\<close>, an
  argument of the definitions that use them; what its documentation promises is the locale
  \<open>octets_contract\<close>. \<open>OctetsMut\<close> is the capacity left and the bytes written so far,
  \<open>Octets\<close> the bytes not yet read; \<open>None\<close> in an operation of the interface is
  \<open>BufferTooShortError\<close>. The contract is met by the encoding of RFC 9000, section 16
  (\<open>quic_octets\<close>), which the executable examples use.
\<close>

section \<open>The octets interface\<close>

record wbuf =
  wb_cap :: usize
  wb_out :: bytes

record octets_api =
  varint_len :: "u64 \<Rightarrow> usize"
  put_u8 :: "u8 \<Rightarrow> wbuf \<Rightarrow> wbuf option"
  put_u16 :: "nat \<Rightarrow> wbuf \<Rightarrow> wbuf option"
  put_varint :: "u64 \<Rightarrow> wbuf \<Rightarrow> wbuf option"
  put_bytes :: "bytes \<Rightarrow> wbuf \<Rightarrow> wbuf option"
  get_u8 :: "bytes \<Rightarrow> (u8 \<times> bytes) option"
  get_u16 :: "bytes \<Rightarrow> (nat \<times> bytes) option"
  get_varint :: "bytes \<Rightarrow> (u64 \<times> bytes) option"
  get_bytes_with_varint_length :: "bytes \<Rightarrow> (bytes \<times> bytes) option"

text \<open>\<open>OctetsMut::with_slice\<close> on a buffer of the given size.\<close>

definition wb_new :: "usize \<Rightarrow> wbuf" where
  "wb_new n = \<lparr>wb_cap = n, wb_out = []\<rparr>"

text \<open>Writing a block of bytes advances the buffer, or does not fit.\<close>

definition wb_write :: "bytes \<Rightarrow> wbuf \<Rightarrow> wbuf option" where
  "wb_write bs b =
     (if length bs \<le> wb_cap b
      then Some \<lparr>wb_cap = wb_cap b - length bs, wb_out = wb_out b @ bs\<rparr> else None)"

section \<open>What octets promises\<close>

text \<open>
  \<open>venc v\<close> is the QUIC variable-length encoding of \<open>v\<close> and \<open>u16enc v\<close> the network
  order of a 16-bit value; every operation writes its block or reports that it does not
  fit, and reading undoes writing. Nothing is said of values from \<open>2 ^ 62\<close> on, which have
  no encoding.
\<close>

locale octets_contract =
  fixes oa :: octets_api
    and venc :: "u64 \<Rightarrow> bytes"
    and u16enc :: "nat \<Rightarrow> bytes"
  assumes put_u8: "put_u8 oa x b = wb_write [x] b"
    and put_u16: "v < 2 ^ 16 \<Longrightarrow> put_u16 oa v b = wb_write (u16enc v) b"
    and put_varint: "v < 2 ^ 62 \<Longrightarrow> put_varint oa v b = wb_write (venc v) b"
    and put_bytes: "put_bytes oa bs b = wb_write bs b"
    and get_u8_Nil: "get_u8 oa [] = None"
    and get_u8_Cons: "get_u8 oa (x # r) = Some (x, r)"
    and get_u16: "v < 2 ^ 16 \<Longrightarrow> get_u16 oa (u16enc v @ r) = Some (v, r)"
    and get_varint: "v < 2 ^ 62 \<Longrightarrow> get_varint oa (venc v @ r) = Some (v, r)"
    and get_u16_range: "get_u16 oa bs = Some (v, r) \<Longrightarrow> v < 2 ^ 16"
    and get_varint_range: "get_varint oa bs = Some (v, r) \<Longrightarrow> v < 2 ^ 62"
    and get_bytes: "get_bytes_with_varint_length oa bs =
      (case get_varint oa bs of None \<Rightarrow> None
       | Some (n, r) \<Rightarrow> if n \<le> length r then Some (take n r, drop n r) else None)"
    and length_u16enc: "v < 2 ^ 16 \<Longrightarrow> length (u16enc v) = 2"
    and length_venc: "v < 2 ^ 62 \<Longrightarrow> length (venc v) = varint_len oa v"
    and varint_len_le: "v < 2 ^ 62 \<Longrightarrow> varint_len oa v \<le> 8"
    and varint_len_pos: "v < 2 ^ 62 \<Longrightarrow> 0 < varint_len oa v"
    and varint_len_small: "v < 2 ^ 14 \<Longrightarrow> varint_len oa v \<le> 2"

section \<open>RFC 9000\<close>

fun be_bytes :: "nat \<Rightarrow> nat \<Rightarrow> bytes" where
  "be_bytes 0 v = []"
| "be_bytes (Suc n) v = be_bytes n (v div 256) @ [word_of_nat (v mod 256)]"

fun be_val :: "nat \<Rightarrow> bytes \<Rightarrow> nat" where
  "be_val acc [] = acc"
| "be_val acc (x # xs) = be_val (acc * 256 + unat x) xs"

definition quic_len :: "u64 \<Rightarrow> usize" where
  "quic_len v = (if v < 2 ^ 6 then 1 else if v < 2 ^ 14 then 2 else if v < 2 ^ 30 then 4 else 8)"

text \<open>The two high bits of the first byte say the length: 0, 1, 2, 3 for 1, 2, 4, 8 bytes.\<close>

definition quic_enc :: "u64 \<Rightarrow> bytes" where
  "quic_enc v =
     (if v < 2 ^ 6 then be_bytes 1 v
      else if v < 2 ^ 14 then be_bytes 2 (v + 2 ^ 14)
      else if v < 2 ^ 30 then be_bytes 4 (v + 2 * 2 ^ 30)
      else be_bytes 8 (v + 3 * 2 ^ 62))"

definition quic_dec :: "bytes \<Rightarrow> (u64 \<times> bytes) option" where
  "quic_dec bs = (case bs of [] \<Rightarrow> None
     | x # _ \<Rightarrow> (let n = 2 ^ (unat x div 64) in
         if n \<le> length bs then Some (be_val 0 (take n bs) mod 2 ^ (8 * n - 2), drop n bs) else None))"

definition quic_octets :: octets_api where
  "quic_octets = \<lparr>
     varint_len = quic_len,
     put_u8 = (\<lambda>x. wb_write [x]),
     put_u16 = (\<lambda>v. wb_write (be_bytes 2 v)),
     put_varint = (\<lambda>v. if v < 2 ^ 62 then wb_write (quic_enc v) else (\<lambda>b. None)),
     put_bytes = wb_write,
     get_u8 = (\<lambda>b. case b of [] \<Rightarrow> None | x # r \<Rightarrow> Some (x, r)),
     get_u16 = (\<lambda>b. if 2 \<le> length b then Some (be_val 0 (take 2 b), drop 2 b) else None),
     get_varint = quic_dec,
     get_bytes_with_varint_length = (\<lambda>b. case quic_dec b of None \<Rightarrow> None
       | Some (n, r) \<Rightarrow> if n \<le> length r then Some (take n r, drop n r) else None)\<rparr>"

lemma length_be_bytes [simp]: "length (be_bytes n v) = n"
  by (induction n arbitrary: v) auto

lemma be_val_append: "be_val acc (xs @ ys) = be_val (be_val acc xs) ys"
  by (induction xs arbitrary: acc) auto

lemma unat_byte_mod: "unat (word_of_nat (v mod 256) :: u8) = v mod 256"
  by (simp add: unat_of_nat)

lemma be_val_be_bytes: "be_val 0 (be_bytes n v) = v mod 256 ^ n"
proof (induction n arbitrary: v)
  case (Suc n)
  have "v mod (256 * 256 ^ n) = 256 * (v div 256 mod 256 ^ n) + v mod 256"
    by (rule mod_mult2_eq)
  then show ?case by (simp add: be_val_append Suc unat_byte_mod mult.commute)
qed simp

lemma be_bytes_Cons:
  "be_bytes (Suc n) v = word_of_nat (v div 256 ^ n mod 256) # be_bytes n (v mod 256 ^ n)"
proof (induction n arbitrary: v)
  case 0
  show ?case by simp
next
  case (Suc n)
  have "v mod (256 * 256 ^ n) = 256 * (v div 256 mod 256 ^ n) + v mod 256"
    by (rule mod_mult2_eq)
  then have "v mod 256 ^ Suc n div 256 = v div 256 mod 256 ^ n"
    "v mod 256 ^ Suc n mod 256 = v mod 256"
    by simp_all
  moreover have "v div 256 ^ Suc n = v div 256 div 256 ^ n"
    by (simp add: div_mult2_eq)
  ultimately show ?case
    using Suc[of "v div 256"] by (simp only: be_bytes.simps append_Cons)
qed

lemma unat_byte_bound: "unat (x :: u8) < 256"
  using unsigned_less[of x] by simp

lemma be_val_bound: "be_val acc xs < (acc + 1) * 256 ^ length xs"
proof (induction xs arbitrary: acc)
  case (Cons x xs)
  have "acc * 256 + unat x + 1 \<le> (acc + 1) * 256"
    using unat_byte_bound[of x] by simp
  then have "(acc * 256 + unat x + 1) * 256 ^ length xs \<le> (acc + 1) * 256 * 256 ^ length xs"
    by (rule mult_le_mono1)
  with Cons[of "acc * 256 + unat x"] show ?case by (simp only: be_val.simps length_Cons power_Suc mult.assoc)
qed simp

lemma quic_dec_prefix:
  "bs = x # xs \<Longrightarrow> n = 2 ^ (unat x div 64) \<Longrightarrow> n \<le> length bs \<Longrightarrow>
   quic_dec bs = Some (be_val 0 (take n bs) mod 2 ^ (8 * n - 2), drop n bs)"
  by (simp add: quic_dec_def Let_def)

text \<open>Decoding an encoding with \<open>n\<close> bytes and the length prefix \<open>k\<close>.\<close>

lemma quic_dec_be_bytes:
  assumes n: "n = 2 ^ k" "k < 4" and v: "v < 2 ^ (8 * n - 2)"
  shows "quic_dec (be_bytes n (v + k * 2 ^ (8 * n - 2)) @ r) = Some (v, r)"
proof -
  obtain m where m: "n = Suc m" using n(1) by (metis not0_implies_Suc power_not_zero zero_neq_numeral)
  let ?w = "v + k * 2 ^ (8 * n - 2)"
  have q: "(2::nat) ^ (8 * n - 2) = 64 * 256 ^ m"
  proof -
    have "8 * n - 2 = 6 + 8 * m" by (simp add: m)
    then show ?thesis by (simp only: power_add power_mult) simp
  qed
  have top: "?w div (256 ^ m * 64) = k" using v unfolding q mult.commute[of "256 ^ m" 64] by simp
  have "?w div 256 ^ m div 64 = k" using top by (simp only: div_mult2_eq)
  then have "?w div 256 ^ m < 256" using n(2) by linarith
  then have x: "unat (word_of_nat (?w div 256 ^ m mod 256) :: u8) div 64 = k"
    using \<open>?w div 256 ^ m div 64 = k\<close> unfolding unat_byte_mod by simp
  have w: "?w < 256 ^ n"
    using \<open>?w div 256 ^ m < 256\<close> unfolding m by (simp add: div_less_iff_less_mult mult.commute)
  obtain xs where xs: "be_bytes n ?w @ r = word_of_nat (?w div 256 ^ m mod 256) # xs"
    unfolding m be_bytes_Cons by simp
  have "quic_dec (be_bytes n ?w @ r) =
      Some (be_val 0 (take n (be_bytes n ?w @ r)) mod 2 ^ (8 * n - 2), drop n (be_bytes n ?w @ r))"
  proof (rule quic_dec_prefix[OF xs])
    show "n = 2 ^ (unat (word_of_nat (?w div 256 ^ m mod 256) :: u8) div 64)"
      unfolding x by (rule n(1))
  qed simp
  then show ?thesis using w v by (simp add: be_val_be_bytes)
qed

lemma quic_dec_enc: "v < 2 ^ 62 \<Longrightarrow> quic_dec (quic_enc v @ r) = Some (v, r)"
  using quic_dec_be_bytes[of 1 0 v r] quic_dec_be_bytes[of 2 1 v r]
    quic_dec_be_bytes[of 4 2 v r] quic_dec_be_bytes[of 8 3 v r]
  by (auto simp: quic_enc_def)

lemma quic_dec_bound:
  assumes "quic_dec bs = Some (v, r)"
  shows "v < 2 ^ 62"
proof -
  obtain x xs where bs: "bs = x # xs" using assms by (cases bs) (auto simp: quic_dec_def)
  let ?n = "2 ^ (unat x div 64) :: nat"
  have "v = be_val 0 (take ?n bs) mod 2 ^ (8 * ?n - 2)"
    using assms unfolding bs by (auto simp: quic_dec_def Let_def split: if_splits)
  then have "v < 2 ^ (8 * ?n - 2)" by simp
  moreover have "?n \<le> 2 ^ 3"
    using unat_byte_bound[of x] by (intro power_increasing) auto
  then have "(2::nat) ^ (8 * ?n - 2) \<le> 2 ^ 62" by (intro power_increasing) auto
  ultimately show ?thesis by linarith
qed

lemma length_quic_enc: "length (quic_enc v) = quic_len v"
  by (simp add: quic_enc_def quic_len_def)

interpretation quic: octets_contract quic_octets quic_enc "be_bytes 2"
proof
  fix v :: nat and r
  show "v < 2 ^ 16 \<Longrightarrow> get_u16 quic_octets (be_bytes 2 v @ r) = Some (v, r)"
    by (simp add: quic_octets_def be_val_be_bytes)
next
  fix bs r and v :: nat
  assume "get_u16 quic_octets bs = Some (v, r)"
  then show "v < 2 ^ 16"
    using be_val_bound[of 0 "take 2 bs"] by (auto simp: quic_octets_def split: if_splits)
next
  fix bs r and v :: nat
  assume "get_varint quic_octets bs = Some (v, r)"
  then show "v < 2 ^ 62" by (simp add: quic_octets_def quic_dec_bound del: power_numeral)
next
  fix v :: nat and r
  show "v < 2 ^ 62 \<Longrightarrow> get_varint quic_octets (quic_enc v @ r) = Some (v, r)"
    using quic_dec_enc by (simp add: quic_octets_def)
qed (auto simp: quic_octets_def length_quic_enc quic_len_def)

end
