(* ===== verification/RenetPacket.thy ===== *)
theory RenetPacket
  imports Octets
begin

text \<open>
  The packets of the \<open>renet\<close> crate and their wire format: \<open>src/renet/src/packet.rs\<close>.
  \<open>to_bytes\<close> and \<open>from_bytes\<close> are the functions of the source, over the octets
  interface; \<open>packet_wire\<close> is what the code writes, as one expression, and \<open>ack_documented\<close> the
  numbers that the comment of \<open>to_bytes\<close> gives for acknowledged ranges. Writing a well-formed
  packet produces its wire format or does not fit; reading a wire format gives the packet
  back; reading any bytes at all returns, and what it accepts is well-formed.
\<close>

section \<open>Data\<close>

definition SLICE_SIZE :: usize where
  "SLICE_SIZE = 1200"

record slice =
  sl_message_id :: u64
  sl_slice_index :: usize
  sl_num_slices :: usize
  sl_payload :: bytes

text \<open>\<open>Range<u64>\<close>: start and (excluded) end.\<close>

type_synonym range = "u64 \<times> u64"

datatype packet =
    SmallReliable u64 u8 "(u64 \<times> bytes) list"
  | SmallUnreliable u64 u8 "bytes list"
  | UnreliableSlice u64 u8 slice
  | ReliableSlice u64 u8 slice
  | Ack u64 "range list"

datatype serialization_error =
    BufferTooShort
  | InvalidNumSlices
  | SliceSizeAboveLimit
  | EmptySlice
  | InvalidAckRange
  | InvalidPacketType

fun packet_sequence :: "packet \<Rightarrow> u64" where
  "packet_sequence (SmallReliable sequence _ _) = sequence"
| "packet_sequence (SmallUnreliable sequence _ _) = sequence"
| "packet_sequence (UnreliableSlice sequence _ _) = sequence"
| "packet_sequence (ReliableSlice sequence _ _) = sequence"
| "packet_sequence (Ack sequence _) = sequence"

text \<open>The \<open>?\<close> operator on a result of the octets interface, with the conversion of
  \<open>BufferTooShortError\<close> into \<open>SerializationError\<close>.\<close>

definition oct_try ::
    "'a option \<Rightarrow> ('a \<Rightarrow> (serialization_error + 'b) option) \<Rightarrow> (serialization_error + 'b) option"
  where "oct_try r k = (case r of None \<Rightarrow> Some (Inl BufferTooShort) | Some x \<Rightarrow> k x)"

section \<open>Writing\<close>

fun put_reliable_messages ::
    "octets_api \<Rightarrow> (u64 \<times> bytes) list \<Rightarrow> wbuf \<Rightarrow> (serialization_error + wbuf) option" where
  "put_reliable_messages oa [] b = Some (Inr b)"
| "put_reliable_messages oa ((message_id, message) # messages) b =
     oct_try (put_varint oa message_id b) (\<lambda>b.
     oct_try (put_varint oa (length message) b) (\<lambda>b.
     oct_try (put_bytes oa message b) (\<lambda>b.
     put_reliable_messages oa messages b)))"

fun put_unreliable_messages ::
    "octets_api \<Rightarrow> bytes list \<Rightarrow> wbuf \<Rightarrow> (serialization_error + wbuf) option" where
  "put_unreliable_messages oa [] b = Some (Inr b)"
| "put_unreliable_messages oa (message # messages) b =
     oct_try (put_varint oa (length message) b) (\<lambda>b.
     oct_try (put_bytes oa message b) (\<lambda>b.
     put_unreliable_messages oa messages b))"

definition put_slice ::
    "octets_api \<Rightarrow> u8 \<Rightarrow> u64 \<Rightarrow> u8 \<Rightarrow> slice \<Rightarrow> wbuf \<Rightarrow> (serialization_error + wbuf) option" where
  "put_slice oa tag sequence channel_id sl b =
     oct_try (put_u8 oa tag b) (\<lambda>b.
     oct_try (put_varint oa sequence b) (\<lambda>b.
     oct_try (put_u8 oa channel_id b) (\<lambda>b.
     oct_try (put_varint oa (sl_message_id sl) b) (\<lambda>b.
     oct_try (put_varint oa (sl_slice_index sl) b) (\<lambda>b.
     oct_try (put_varint oa (sl_num_slices sl) b) (\<lambda>b.
     oct_try (put_varint oa (length (sl_payload sl)) b) (\<lambda>b.
     oct_try (put_bytes oa (sl_payload sl) b) (\<lambda>b. Some (Inr b)))))))))"

text \<open>The ranges after the first, already in reverse order; \<open>previous_range_start\<close> is the
  loop's variable of that name.\<close>

fun put_ack_ranges ::
    "octets_api \<Rightarrow> range list \<Rightarrow> u64 \<Rightarrow> wbuf \<Rightarrow> (serialization_error + wbuf) option" where
  "put_ack_ranges oa [] previous_range_start b = Some (Inr b)"
| "put_ack_ranges oa ((start, stop) # it) previous_range_start b = do {
     d \<leftarrow> usub previous_range_start stop;
     gap \<leftarrow> usub d 1;
     e \<leftarrow> usub stop 1;
     range_size \<leftarrow> usub e start;
     oct_try (put_varint oa gap b) (\<lambda>b.
     oct_try (put_varint oa range_size b) (\<lambda>b.
     put_ack_ranges oa it start b))
   }"

fun put_packet :: "octets_api \<Rightarrow> packet \<Rightarrow> wbuf \<Rightarrow> (serialization_error + wbuf) option" where
  "put_packet oa (SmallReliable sequence channel_id messages) b =
     oct_try (put_u8 oa 0 b) (\<lambda>b.
     oct_try (put_varint oa sequence b) (\<lambda>b.
     oct_try (put_u8 oa channel_id b) (\<lambda>b.
     oct_try (put_u16 oa (length messages mod 2 ^ 16) b) (\<lambda>b.
     put_reliable_messages oa messages b))))"
| "put_packet oa (SmallUnreliable sequence channel_id messages) b =
     oct_try (put_u8 oa 1 b) (\<lambda>b.
     oct_try (put_varint oa sequence b) (\<lambda>b.
     oct_try (put_u8 oa channel_id b) (\<lambda>b.
     oct_try (put_u16 oa (length messages mod 2 ^ 16) b) (\<lambda>b.
     put_unreliable_messages oa messages b))))"
| "put_packet oa (ReliableSlice sequence channel_id sl) b =
     put_slice oa 2 sequence channel_id sl b"
| "put_packet oa (UnreliableSlice sequence channel_id sl) b =
     put_slice oa 3 sequence channel_id sl b"
| "put_packet oa (Ack sequence ack_ranges) b =
     oct_try (put_u8 oa 4 b) (\<lambda>b.
     oct_try (put_varint oa sequence b) (\<lambda>b.
     (case rev ack_ranges of
        [] \<Rightarrow> None
      | (start, stop) # it \<Rightarrow> do {
          e \<leftarrow> usub stop 1;
          last_range_size \<leftarrow> usub e start;
          oct_try (put_varint oa e b) (\<lambda>b.
          oct_try (put_varint oa last_range_size b) (\<lambda>b.
          oct_try (put_varint oa (length it) b) (\<lambda>b.
          put_ack_ranges oa it start b)))
        })))"

text \<open>\<open>Packet::to_bytes\<close>: the number of bytes written, and the buffer.\<close>

definition to_bytes ::
    "octets_api \<Rightarrow> packet \<Rightarrow> wbuf \<Rightarrow> (serialization_error + usize \<times> wbuf) option" where
  "to_bytes oa p b = do {
     r \<leftarrow> put_packet oa p b;
     (case r of
        Inl e \<Rightarrow> Some (Inl e)
      | Inr b' \<Rightarrow> do { n \<leftarrow> usub (wb_cap b) (wb_cap b'); Some (Inr (n, b')) })
   }"

section \<open>Reading\<close>

fun get_reliable_messages ::
    "octets_api \<Rightarrow> nat \<Rightarrow> (u64 \<times> bytes) list \<Rightarrow> bytes
     \<Rightarrow> (serialization_error + (u64 \<times> bytes) list) option" where
  "get_reliable_messages oa 0 messages b = Some (Inr messages)"
| "get_reliable_messages oa (Suc n) messages b =
     oct_try (get_varint oa b) (\<lambda>(message_id, b).
     oct_try (get_bytes_with_varint_length oa b) (\<lambda>(payload, b).
     get_reliable_messages oa n (messages @ [(message_id, payload)]) b))"

fun get_unreliable_messages ::
    "octets_api \<Rightarrow> nat \<Rightarrow> bytes list \<Rightarrow> bytes \<Rightarrow> (serialization_error + bytes list) option" where
  "get_unreliable_messages oa 0 messages b = Some (Inr messages)"
| "get_unreliable_messages oa (Suc n) messages b =
     oct_try (get_bytes_with_varint_length oa b) (\<lambda>(payload, b).
     get_unreliable_messages oa n (messages @ [payload]) b)"

fun get_ack_ranges ::
    "octets_api \<Rightarrow> nat \<Rightarrow> u64 \<Rightarrow> range list \<Rightarrow> bytes
     \<Rightarrow> (serialization_error + range list) option" where
  "get_ack_ranges oa 0 previous_range_start ack_ranges b = Some (Inr ack_ranges)"
| "get_ack_ranges oa (Suc n) previous_range_start ack_ranges b =
     oct_try (get_varint oa b) (\<lambda>(gap, b). do {
       g \<leftarrow> uadd 2 gap;
       (if previous_range_start < g then Some (Inl InvalidAckRange)
        else do {
          d \<leftarrow> usub previous_range_start gap;
          range_end \<leftarrow> usub d 2;
          oct_try (get_varint oa b) (\<lambda>(range_size, b).
            if range_end < range_size then Some (Inl InvalidAckRange)
            else do {
              range_start \<leftarrow> usub range_end range_size;
              e \<leftarrow> uadd range_end 1;
              get_ack_ranges oa n range_start (ack_ranges @ [(range_start, e)]) b
            })
        })
     })"

text \<open>The body of the arms for packets 2 and 3; only \<open>ReliableSlice\<close> checks the payload.\<close>

definition get_slice ::
    "octets_api \<Rightarrow> bool \<Rightarrow> bytes \<Rightarrow> (serialization_error + u64 \<times> u8 \<times> slice) option" where
  "get_slice oa reliable b =
     oct_try (get_varint oa b) (\<lambda>(sequence, b).
     oct_try (get_u8 oa b) (\<lambda>(channel_id, b).
     oct_try (get_varint oa b) (\<lambda>(message_id, b).
     oct_try (get_varint oa b) (\<lambda>(slice_index, b).
     oct_try (get_varint oa b) (\<lambda>(num_slices, b).
     if num_slices = 0 \<or> num_slices > 1000000 then Some (Inl InvalidNumSlices)
     else oct_try (get_bytes_with_varint_length oa b) (\<lambda>(payload, b).
       if reliable \<and> payload = [] then Some (Inl EmptySlice)
       else if reliable \<and> length payload > SLICE_SIZE then Some (Inl SliceSizeAboveLimit)
       else Some (Inr (sequence, channel_id,
         \<lparr>sl_message_id = message_id, sl_slice_index = slice_index,
          sl_num_slices = num_slices, sl_payload = payload\<rparr>))))))))"

definition from_bytes :: "octets_api \<Rightarrow> bytes \<Rightarrow> (serialization_error + packet) option" where
  "from_bytes oa b =
     oct_try (get_u8 oa b) (\<lambda>(packet_type, b).
     if packet_type = 0 then
       oct_try (get_varint oa b) (\<lambda>(sequence, b).
       oct_try (get_u8 oa b) (\<lambda>(channel_id, b).
       oct_try (get_u16 oa b) (\<lambda>(messages_len, b). do {
         r \<leftarrow> get_reliable_messages oa messages_len [] b;
         Some (map_sum id (SmallReliable sequence channel_id) r)
       })))
     else if packet_type = 1 then
       oct_try (get_varint oa b) (\<lambda>(sequence, b).
       oct_try (get_u8 oa b) (\<lambda>(channel_id, b).
       oct_try (get_u16 oa b) (\<lambda>(messages_len, b). do {
         r \<leftarrow> get_unreliable_messages oa messages_len [] b;
         Some (map_sum id (SmallUnreliable sequence channel_id) r)
       })))
     else if packet_type = 2 then do {
       r \<leftarrow> get_slice oa True b;
       Some (map_sum id (\<lambda>(sequence, channel_id, sl). ReliableSlice sequence channel_id sl) r)
     }
     else if packet_type = 3 then do {
       r \<leftarrow> get_slice oa False b;
       Some (map_sum id (\<lambda>(sequence, channel_id, sl). UnreliableSlice sequence channel_id sl) r)
     }
     else if packet_type = 4 then
       oct_try (get_varint oa b) (\<lambda>(sequence, b).
       oct_try (get_varint oa b) (\<lambda>(first_range_end, b).
       oct_try (get_varint oa b) (\<lambda>(first_range_size, b).
       oct_try (get_varint oa b) (\<lambda>(num_remaining_ranges, b).
       if first_range_end < first_range_size then Some (Inl InvalidAckRange)
       else do {
         first_range_start \<leftarrow> usub first_range_end first_range_size;
         e \<leftarrow> uadd first_range_end 1;
         r \<leftarrow> get_ack_ranges oa num_remaining_ranges first_range_start
               [(first_range_start, e)] b;
         Some (map_sum id (\<lambda>ack_ranges. Ack sequence (rev ack_ranges)) r)
       }))))
     else Some (Inl InvalidPacketType))"

section \<open>The wire format\<close>

fun messages_wire :: "(u64 \<Rightarrow> bytes) \<Rightarrow> (u64 \<times> bytes) list \<Rightarrow> bytes" where
  "messages_wire venc [] = []"
| "messages_wire venc ((i, m) # ms) = venc i @ venc (length m) @ m @ messages_wire venc ms"

fun payloads_wire :: "(u64 \<Rightarrow> bytes) \<Rightarrow> bytes list \<Rightarrow> bytes" where
  "payloads_wire venc [] = []"
| "payloads_wire venc (m # ms) = venc (length m) @ m @ payloads_wire venc ms"

fun ack_wire :: "(u64 \<Rightarrow> bytes) \<Rightarrow> u64 \<Rightarrow> range list \<Rightarrow> bytes" where
  "ack_wire venc prev [] = []"
| "ack_wire venc prev ((a, b) # it) = venc (prev - b - 1) @ venc (b - 1 - a) @ ack_wire venc a it"

definition slice_wire :: "(u64 \<Rightarrow> bytes) \<Rightarrow> u64 \<Rightarrow> u8 \<Rightarrow> slice \<Rightarrow> bytes" where
  "slice_wire venc sequence channel_id sl =
     venc sequence @ [channel_id] @ venc (sl_message_id sl) @ venc (sl_slice_index sl)
     @ venc (sl_num_slices sl) @ venc (length (sl_payload sl)) @ sl_payload sl"

fun packet_wire :: "(u64 \<Rightarrow> bytes) \<Rightarrow> (nat \<Rightarrow> bytes) \<Rightarrow> packet \<Rightarrow> bytes" where
  "packet_wire venc u16enc (SmallReliable sequence channel_id messages) =
     [0] @ venc sequence @ [channel_id] @ u16enc (length messages) @ messages_wire venc messages"
| "packet_wire venc u16enc (SmallUnreliable sequence channel_id messages) =
     [1] @ venc sequence @ [channel_id] @ u16enc (length messages) @ payloads_wire venc messages"
| "packet_wire venc u16enc (ReliableSlice sequence channel_id sl) =
     [2] @ slice_wire venc sequence channel_id sl"
| "packet_wire venc u16enc (UnreliableSlice sequence channel_id sl) =
     [3] @ slice_wire venc sequence channel_id sl"
| "packet_wire venc u16enc (Ack sequence ack_ranges) =
     [4] @ venc sequence @
     (case rev ack_ranges of [] \<Rightarrow> []
      | (a, b) # it \<Rightarrow> venc (b - 1) @ venc (b - 1 - a) @ venc (length it) @ ack_wire venc a it)"

text \<open>Acknowledged ranges are nonempty, ascending, and neither overlap nor touch.\<close>

definition ack_ranges_ok :: "range list \<Rightarrow> bool" where
  "ack_ranges_ok rs \<longleftrightarrow>
     (\<forall>(a, b) \<in> set rs. a < b \<and> b \<le> 2 ^ 62) \<and> sorted_wrt (\<lambda>r s. snd r < fst s) rs"

definition slice_ok :: "slice \<Rightarrow> bool" where
  "slice_ok sl \<longleftrightarrow> sl_message_id sl < 2 ^ 62 \<and> sl_slice_index sl < 2 ^ 62
     \<and> 0 < sl_num_slices sl \<and> sl_num_slices sl \<le> 1000000 \<and> length (sl_payload sl) < 2 ^ 62"

fun packet_ok :: "packet \<Rightarrow> bool" where
  "packet_ok (SmallReliable sequence channel_id messages) \<longleftrightarrow>
     sequence < 2 ^ 62 \<and> length messages < 2 ^ 16
     \<and> (\<forall>(i, m) \<in> set messages. i < 2 ^ 62 \<and> length m < 2 ^ 62)"
| "packet_ok (SmallUnreliable sequence channel_id messages) \<longleftrightarrow>
     sequence < 2 ^ 62 \<and> length messages < 2 ^ 16 \<and> (\<forall>m \<in> set messages. length m < 2 ^ 62)"
| "packet_ok (ReliableSlice sequence channel_id sl) \<longleftrightarrow>
     sequence < 2 ^ 62 \<and> slice_ok sl \<and> sl_payload sl \<noteq> [] \<and> length (sl_payload sl) \<le> SLICE_SIZE"
| "packet_ok (UnreliableSlice sequence channel_id sl) \<longleftrightarrow> sequence < 2 ^ 62 \<and> slice_ok sl"
| "packet_ok (Ack sequence ack_ranges) \<longleftrightarrow>
     sequence < 2 ^ 62 \<and> ack_ranges \<noteq> [] \<and> length ack_ranges \<le> 2 ^ 62 \<and> ack_ranges_ok ack_ranges"

section \<open>Writing produces the wire format\<close>

definition wb_result :: "wbuf option \<Rightarrow> (serialization_error + wbuf) option" where
  "wb_result r = Some (case r of None \<Rightarrow> Inl BufferTooShort | Some b \<Rightarrow> Inr b)"

lemma oct_try_Some [simp]: "oct_try (Some x) k = k x"
  by (simp add: oct_try_def)

lemma oct_try_None [simp]: "oct_try None k = Some (Inl BufferTooShort)"
  by (simp add: oct_try_def)

lemma oct_try_Inr_iff:
  "oct_try r k = Some (Inr y) \<longleftrightarrow> (\<exists>x. r = Some x \<and> k x = Some (Inr y))"
  by (cases r) auto

lemma returns_oct_try: "(\<And>x. r = Some x \<Longrightarrow> returns (k x) P) \<Longrightarrow> returns (oct_try r k) P"
  by (cases r) (auto simp: returns_def)

lemma returns_oct_try2:
  "(\<And>x y. r = Some (x, y) \<Longrightarrow> returns (k x y) P) \<Longrightarrow> returns (oct_try r (\<lambda>(x, y). k x y)) P"
  by (cases r) (auto simp: returns_def)

lemma wb_write_seq:
  "oct_try (wb_write xs b) (\<lambda>b. wb_result (wb_write ys b)) = wb_result (wb_write (xs @ ys) b)"
  by (auto simp: wb_write_def wb_result_def)

lemma wb_result_Nil: "Some (Inr b) = wb_result (wb_write [] b)"
  by (simp add: wb_write_def wb_result_def)

text \<open>The ranges that are still to be written lie below the start of the previous one.\<close>

definition ack_below :: "u64 \<Rightarrow> range list \<Rightarrow> bool" where
  "ack_below prev it \<longleftrightarrow>
     (\<forall>(a, b) \<in> set it. a < b) \<and> sorted_wrt (\<lambda>r s. snd s < fst r) it \<and> (\<forall>(a, b) \<in> set it. b < prev)"

lemma ack_below_Cons:
  "ack_below prev ((a, b) # it) \<longleftrightarrow> a < b \<and> b < prev \<and> ack_below a it"
  by (fastforce simp: ack_below_def)

lemma ack_ranges_ok_rev:
  assumes "ack_ranges_ok rs" and "rev rs = (a, b) # it"
  shows "a < b" "b \<le> 2 ^ 62" "ack_below a it"
proof -
  have rs: "rs = rev it @ [(a, b)]" using assms(2) by (metis rev.simps(2) rev_rev_ident)
  from assms(1) show "a < b" "b \<le> 2 ^ 62" unfolding ack_ranges_ok_def rs by auto
  from assms(1) show "ack_below a it"
    unfolding ack_ranges_ok_def rs ack_below_def by (auto simp: sorted_wrt_append sorted_wrt_rev)
qed

context octets_contract begin

lemma put_reliable_messages_wire:
  "\<forall>(i, m) \<in> set ms. i < 2 ^ 62 \<and> length m < 2 ^ 62 \<Longrightarrow>
   put_reliable_messages oa ms = (\<lambda>b. wb_result (wb_write (messages_wire venc ms) b))"
  by (induction ms)
    (auto intro!: ext simp: wb_result_Nil put_varint put_bytes wb_write_seq)

lemma put_unreliable_messages_wire:
  "\<forall>m \<in> set ms. length m < 2 ^ 62 \<Longrightarrow>
   put_unreliable_messages oa ms = (\<lambda>b. wb_result (wb_write (payloads_wire venc ms) b))"
  by (induction ms)
    (auto intro!: ext simp: wb_result_Nil put_varint put_bytes wb_write_seq)

lemma put_slice_wire:
  "sequence < 2 ^ 62 \<Longrightarrow> slice_ok sl \<Longrightarrow>
   put_slice oa tag sequence channel_id sl b
     = wb_result (wb_write (tag # slice_wire venc sequence channel_id sl) b)"
  by (simp add: put_slice_def slice_wire_def slice_ok_def put_varint put_bytes put_u8 wb_result_Nil
      wb_write_seq)

lemma put_ack_ranges_wire:
  "ack_below prev it \<Longrightarrow> prev < 2 ^ 62 \<Longrightarrow>
   put_ack_ranges oa it prev = (\<lambda>b. wb_result (wb_write (ack_wire venc prev it) b))"
proof (induction it arbitrary: prev)
  case Nil
  show ?case by (rule ext) (simp add: wb_result_Nil)
next
  case (Cons r it)
  obtain a e where r: "r = (a, e)" by force
  from Cons.prems have *: "a < e" "e < prev" "ack_below a it" "a < 2 ^ 62"
    by (auto simp: r ack_below_Cons)
  then have "usub prev e = Some (prev - e)" "usub (prev - e) 1 = Some (prev - e - 1)"
    "usub e 1 = Some (e - 1)" "usub (e - 1) a = Some (e - 1 - a)"
    by (auto simp: usub_def)
  moreover have "prev - e - 1 < 2 ^ 62" "e - 1 - a < 2 ^ 62" using Cons.prems(2) *(2) by auto
  ultimately show ?case
    using Cons.IH[OF *(3,4)] by (intro ext) (simp add: r put_varint wb_write_seq)
qed

lemma put_packet_wire:
  "packet_ok p \<Longrightarrow> put_packet oa p b = wb_result (wb_write (packet_wire venc u16enc p) b)"
proof (induction p)
  case (Ack sequence ack_ranges)
  then obtain a e it where r: "rev ack_ranges = (a, e) # it" by (cases "rev ack_ranges") auto
  with Ack have *: "a < e" "e \<le> 2 ^ 62" "ack_below a it" using ack_ranges_ok_rev by auto
  then have "usub e 1 = Some (e - 1)" "usub (e - 1) a = Some (e - 1 - a)"
    "e - 1 < 2 ^ 62" "e - 1 - a < 2 ^ 62" "a < 2 ^ 62"
    by (auto simp: usub_def)
  moreover have "length it < 2 ^ 62"
    using Ack r by (metis Suc_le_lessD length_Cons length_rev packet_ok.simps(5))
  ultimately show ?case
    using Ack r *(3) by (simp add: put_u8 put_varint put_ack_ranges_wire wb_write_seq)
qed (auto simp: put_u8 put_u16 put_varint put_reliable_messages_wire put_unreliable_messages_wire
    put_slice_wire wb_write_seq)

text \<open>Reading the wire format gives the packet back.\<close>

lemma get_bytes_wire:
  "length m < 2 ^ 62 \<Longrightarrow>
   get_bytes_with_varint_length oa (venc (length m) @ m @ r) = Some (m, r)"
  by (simp add: get_bytes get_varint)

lemma get_reliable_messages_wire:
  "\<forall>(i, m) \<in> set ms. i < 2 ^ 62 \<and> length m < 2 ^ 62 \<Longrightarrow>
   get_reliable_messages oa (length ms) acc (messages_wire venc ms @ r) = Some (Inr (acc @ ms))"
  by (induction ms arbitrary: acc) (auto simp: get_varint get_bytes_wire)

lemma get_unreliable_messages_wire:
  "\<forall>m \<in> set ms. length m < 2 ^ 62 \<Longrightarrow>
   get_unreliable_messages oa (length ms) acc (payloads_wire venc ms @ r) = Some (Inr (acc @ ms))"
  by (induction ms arbitrary: acc) (auto simp: get_bytes_wire)

lemma get_slice_wire:
  assumes "sequence < 2 ^ 62" and "slice_ok sl"
    and "reliable \<Longrightarrow> sl_payload sl \<noteq> [] \<and> length (sl_payload sl) \<le> SLICE_SIZE"
  shows "get_slice oa reliable (slice_wire venc sequence channel_id sl @ r)
    = Some (Inr (sequence, channel_id, sl))"
  using assms unfolding get_slice_def slice_wire_def slice_ok_def
  by (auto simp: get_varint get_u8_Cons get_bytes_wire)

lemma get_ack_ranges_wire:
  "ack_below prev it \<Longrightarrow> prev < 2 ^ 62 \<Longrightarrow>
   get_ack_ranges oa (length it) prev acc (ack_wire venc prev it @ r) = Some (Inr (acc @ it))"
proof (induction it arbitrary: prev acc)
  case Nil
  show ?case by simp
next
  case (Cons q it)
  obtain a e where q: "q = (a, e)" by force
  from Cons.prems have *: "a < e" "e < prev" "ack_below a it" "a < 2 ^ 62" "prev < 2 ^ 62"
    by (auto simp: q ack_below_Cons)
  then have "uadd 2 (prev - e - 1) = Some (prev - e + 1)"
    "usub prev (prev - e - 1) = Some (e + 1)" "usub (e + 1) 2 = Some (e - 1)"
    "usub (e - 1) (e - 1 - a) = Some a" "uadd (e - 1) 1 = Some e"
    "prev - e - 1 < 2 ^ 62" "e - 1 - a < 2 ^ 62" "\<not> prev < prev - e + 1" "\<not> e - 1 < e - 1 - a"
    by (auto simp: usub_def uadd_def)
  then show ?case
    using Cons.IH[OF *(3,4)] by (simp add: q get_varint)
qed

lemma from_bytes_wire:
  "packet_ok p \<Longrightarrow> from_bytes oa (packet_wire venc u16enc p @ r) = Some (Inr p)"
proof (induction p)
  case (Ack sequence ack_ranges)
  then obtain a e rs where q: "ack_ranges = rs @ [(a, e)]"
    by (metis packet_ok.simps(5) rev_exhaust surj_pair)
  with Ack have *: "a < e" "e \<le> 2 ^ 62" "ack_below a (rev rs)"
    using ack_ranges_ok_rev[of ack_ranges a e "rev rs"] by auto
  then have "usub (e - 1) (e - 1 - a) = Some a" "uadd (e - 1) 1 = Some e"
    "e - 1 < 2 ^ 62" "e - 1 - a < 2 ^ 62" "a < 2 ^ 62" "\<not> e - 1 < e - 1 - a"
    by (auto simp: usub_def uadd_def)
  moreover have "length rs < 2 ^ 62" using Ack by (simp add: q)
  ultimately show ?case
    using Ack get_ack_ranges_wire[OF *(3), of "[(a, e)]" r]
    by (simp add: q from_bytes_def get_u8_Cons get_varint)
qed (auto simp: from_bytes_def get_u8_Cons get_u16 get_varint get_reliable_messages_wire
    get_unreliable_messages_wire get_slice_wire)

text \<open>Reading never panics, and accepts well-formed packets only.\<close>

lemma get_bytes_length: "get_bytes_with_varint_length oa b = Some (m, b') \<Longrightarrow> length m < 2 ^ 62"
  using get_varint_range[of b] by (auto simp: get_bytes split: option.splits if_splits prod.splits)

lemma get_reliable_messages_returns:
  "\<forall>(i, m) \<in> set acc. i < 2 ^ 62 \<and> length m < 2 ^ 62 \<Longrightarrow>
   returns (get_reliable_messages oa n acc b) (\<lambda>ms.
     length ms = length acc + n \<and> (\<forall>(i, m) \<in> set ms. i < 2 ^ 62 \<and> length m < 2 ^ 62))"
proof (induction n arbitrary: acc b)
  case (Suc n)
  have "returns (get_reliable_messages oa n (acc @ [(i, m)]) b'') (\<lambda>ms.
      length ms = length acc + Suc n \<and> (\<forall>(i, m) \<in> set ms. i < 2 ^ 62 \<and> length m < 2 ^ 62))"
    if "get_varint oa b = Some (i, b')" "get_bytes_with_varint_length oa b' = Some (m, b'')"
    for i m b' b''
    using Suc.IH[of "acc @ [(i, m)]" b''] Suc.prems get_varint_range[OF that(1)]
      get_bytes_length[OF that(2)] by simp
  then show ?case by (simp add: returns_oct_try2)
qed simp

lemma get_unreliable_messages_returns:
  "\<forall>m \<in> set acc. length m < 2 ^ 62 \<Longrightarrow>
   returns (get_unreliable_messages oa n acc b) (\<lambda>ms.
     length ms = length acc + n \<and> (\<forall>m \<in> set ms. length m < 2 ^ 62))"
proof (induction n arbitrary: acc b)
  case (Suc n)
  have "returns (get_unreliable_messages oa n (acc @ [m]) b') (\<lambda>ms.
      length ms = length acc + Suc n \<and> (\<forall>m \<in> set ms. length m < 2 ^ 62))"
    if "get_bytes_with_varint_length oa b = Some (m, b')" for m b'
    using Suc.IH[of "acc @ [m]" b'] Suc.prems get_bytes_length[OF that] by simp
  then show ?case by (simp add: returns_oct_try2)
qed simp

lemma get_slice_returns:
  "returns (get_slice oa reliable b) (\<lambda>(sequence, channel_id, sl).
     sequence < 2 ^ 62 \<and> slice_ok sl
     \<and> (reliable \<longrightarrow> sl_payload sl \<noteq> [] \<and> length (sl_payload sl) \<le> SLICE_SIZE))"
  unfolding get_slice_def
  by (intro returns_oct_try2)
    (auto intro!: returns_oct_try2 simp: slice_ok_def dest!: get_varint_range get_bytes_length)

lemma get_ack_ranges_returns:
  "ack_ranges_ok (rev acc) \<Longrightarrow> \<forall>r \<in> set acc. prev \<le> fst r \<Longrightarrow> prev < 2 ^ 62 \<Longrightarrow>
   returns (get_ack_ranges oa n prev acc b) (\<lambda>rs.
     length rs = length acc + n \<and> ack_ranges_ok (rev rs))"
proof (induction n arbitrary: acc prev b)
  case (Suc n)
  have "returns (get_ack_ranges oa n s (acc @ [(s, e + 1)]) b')
      (\<lambda>rs. length rs = length acc + Suc n \<and> ack_ranges_ok (rev rs))"
    if "2 + gap \<le> prev" "e = prev - gap - 2" "size \<le> e" "s = e - size" for gap size e s b'
  proof -
    have "e + 1 < prev" "s < e + 1" "e + 1 \<le> 2 ^ 62" using that Suc.prems(3) by auto
    then have "ack_ranges_ok (rev (acc @ [(s, e + 1)]))"
      using Suc.prems(1,2) unfolding ack_ranges_ok_def by fastforce
    moreover have "\<forall>r \<in> set (acc @ [(s, e + 1)]). s \<le> fst r"
      using Suc.prems(2) \<open>e + 1 < prev\<close> \<open>s < e + 1\<close> by auto
    ultimately show ?thesis
      using Suc.IH[of "acc @ [(s, e + 1)]" s b'] \<open>s < e + 1\<close> \<open>e + 1 \<le> 2 ^ 62\<close> by simp
  qed
  note step = this
  show ?case
    unfolding get_ack_ranges.simps
  proof (rule returns_oct_try2, goal_cases)
    case (1 gap b1)
    have u: "uadd 2 gap = Some (2 + gap)" using get_varint_range[OF 1] by (simp add: uadd_def)
    show ?case
    proof (cases "prev < 2 + gap")
      case True
      then show ?thesis by (simp add: u)
    next
      case False
      then have d: "usub prev gap = Some (prev - gap)" "usub (prev - gap) 2 = Some (prev - gap - 2)"
        by (auto simp: usub_def)
      have "uadd (prev - gap - 2) 1 = Some (prev - gap - 2 + 1)"
        using Suc.prems(3) by (simp add: uadd_def)
      then show ?thesis
        using False step[of gap "prev - gap - 2"]
        by (auto simp: u d usub_def intro!: returns_oct_try2)
    qed
  qed
qed simp

lemma from_bytes_returns: "returns (from_bytes oa b) packet_ok"
proof -
  have ack: "returns (do { first_range_start \<leftarrow> usub fe fs; e \<leftarrow> uadd fe 1;
        r \<leftarrow> get_ack_ranges oa n first_range_start [(first_range_start, e)] b;
        Some (map_sum id (\<lambda>ack_ranges. Ack sequence (rev ack_ranges)) r) }) packet_ok"
    if "fe < 2 ^ 62" "\<not> fe < fs" "n < 2 ^ 62" "sequence < 2 ^ 62" for fe fs n sequence b
  proof -
    have "ack_ranges_ok (rev [(fe - fs, fe + 1)])" using that by (simp add: ack_ranges_ok_def)
    then have "returns (get_ack_ranges oa n (fe - fs) [(fe - fs, fe + 1)] b) (\<lambda>rs.
        length rs = Suc n \<and> ack_ranges_ok (rev rs))"
      using get_ack_ranges_returns[of "[(fe - fs, fe + 1)]" "fe - fs" n b] that by simp
    then have "returns (get_ack_ranges oa n (fe - fs) [(fe - fs, fe + 1)] b)
        (\<lambda>rs. packet_ok (Ack sequence (rev rs)))"
      by (rule returns_weaken) (use that in auto)
    then have "returns (do { r \<leftarrow> get_ack_ranges oa n (fe - fs) [(fe - fs, fe + 1)] b;
        Some (map_sum id (\<lambda>ack_ranges. Ack sequence (rev ack_ranges)) r) }) packet_ok"
      by (rule returns_map)
    then show ?thesis
      using that by (simp add: usub_def uadd_def)
  qed
  have rel: "returns (get_reliable_messages oa n [] b) (\<lambda>ms. packet_ok (SmallReliable sequence c ms))"
    and unrel: "returns (get_unreliable_messages oa n [] b)
      (\<lambda>ms. packet_ok (SmallUnreliable sequence c ms))"
    if "n < 2 ^ 16" "sequence < 2 ^ 62" for n sequence c b
    by (rule returns_weaken[OF get_reliable_messages_returns], simp, use that in simp)
      (rule returns_weaken[OF get_unreliable_messages_returns], simp, use that in simp)
  have sl: "returns (get_slice oa True b) (\<lambda>x. packet_ok ((\<lambda>(s, c, sl). ReliableSlice s c sl) x))"
    "returns (get_slice oa False b) (\<lambda>x. packet_ok ((\<lambda>(s, c, sl). UnreliableSlice s c sl) x))" for b
    by (rule returns_weaken[OF get_slice_returns], auto)+
  show ?thesis
    unfolding from_bytes_def
    by (auto intro!: returns_oct_try2 returns_map ack rel unrel sl simp del: One_nat_def
        packet_ok.simps dest!: get_varint_range get_u16_range)
qed

end

section \<open>The codec\<close>

text \<open>C10. Round trip: when \<open>to_bytes\<close> writes a well-formed packet into a buffer, the reported
  length is the number of bytes written, and \<open>from_bytes\<close> on these bytes, followed by
  anything at all, returns the packet.\<close>

theorem codec_roundtrip:
  assumes "octets_contract oa venc u16enc" and "packet_ok p"
    and "to_bytes oa p (wb_new n) = Some (Inr (len, b))"
  shows "len = length (wb_out b) \<and> from_bytes oa (wb_out b @ rest) = Some (Inr p)"
  using assms(3) octets_contract.put_packet_wire[OF assms(1,2), of "wb_new n"]
    octets_contract.from_bytes_wire[OF assms(1,2), of rest]
  by (auto simp: to_bytes_def wb_result_def wb_write_def wb_new_def usub_Some bind_eq_Some_conv
      split: if_splits)

theorem codec_roundtrip_witness:
  "from_bytes quic_octets
     (wb_out \<lparr>wb_cap = 0, wb_out = [4, 9, 19, 9, 1, 2, 3]\<rparr> @ [7]) = Some (Inr (Ack 9 [(3, 7), (10, 20)]))"
proof -
  have "packet_ok (Ack 9 [(3, 7), (10, 20)])" by (simp add: ack_ranges_ok_def)
  moreover have "to_bytes quic_octets (Ack 9 [(3, 7), (10, 20)]) (wb_new 7)
      = Some (Inr (7, \<lparr>wb_cap = 0, wb_out = [4, 9, 19, 9, 1, 2, 3]\<rparr>))"
    by code_simp
  ultimately show ?thesis
    using codec_roundtrip[OF quic.octets_contract_axioms, of "Ack 9 [(3, 7), (10, 20)]" 7 7 _ "[7]"]
    by blast
qed

text \<open>The comment of \<open>to_bytes\<close> on the ranges of an \<open>Ack\<close> packet gives the numbers to be written: the
  end and the size of the last range, the number of the other ranges, and for each of these, from the
  last to the first, the gap up to the next one and its size.\<close>

fun ack_documented_rest :: "u64 \<Rightarrow> range list \<Rightarrow> nat list" where
  "ack_documented_rest previous_range_start [] = []"
| "ack_documented_rest previous_range_start ((start, stop) # it) =
     (previous_range_start - stop) # (stop - start) # ack_documented_rest start it"

definition ack_documented :: "range list \<Rightarrow> nat list" where
  "ack_documented ack_ranges = (case rev ack_ranges of
     [] \<Rightarrow> []
   | (start, stop) # it \<Rightarrow> stop # (stop - start) # length it # ack_documented_rest start it)"

lemma ack_wire_documented:
  "ack_wire venc prev it = concat (map (\<lambda>x. venc (x - 1)) (ack_documented_rest prev it))"
  by (induction venc prev it rule: ack_wire.induct) (simp_all add: diff_right_commute)

lemma ack_packet_documented:
  assumes "ack_documented rs = e # z # k # gs"
  shows "packet_wire venc u16enc (Ack s rs)
    = [4] @ concat (map venc (s # (e - 1) # (z - 1) # k # map (\<lambda>x. x - 1) gs))"
  using assms
  by (auto simp: ack_documented_def ack_wire_documented comp_def diff_right_commute split: list.splits prod.splits)

lemma to_bytes_run:
  assumes "octets_contract oa venc u16enc" and "packet_ok p"
  shows "to_bytes oa p (wb_new n) = Some
    (let w = packet_wire venc u16enc p in
     if length w \<le> n then Inr (length w, \<lparr>wb_cap = n - length w, wb_out = w\<rparr>)
     else Inl BufferTooShort)"
  using octets_contract.put_packet_wire[OF assms, of "wb_new n"]
  by (simp add: to_bytes_def wb_result_def wb_write_def wb_new_def usub_def Let_def)

lemma documented_range_read:
  assumes "octets_contract oa venc u16enc" and "s < 2 ^ 62" and "a < b" and "b < 2 ^ 62"
  shows "from_bytes oa ([4] @ concat (map venc (s # ack_documented [(a, b)])) @ rest) = Some (Inr (Ack s [(a, b + 1)]))"
  using octets_contract.from_bytes_wire[OF assms(1), of "Ack s [(a, b + 1)]" rest] assms(2-4)
  by (simp add: ack_documented_def ack_ranges_ok_def)

text \<open>C11. What an \<open>Ack\<close> packet is on the wire, against the comment in \<open>to_bytes\<close>. Writing a well-formed
  one never panics, and fails exactly when it does not fit. It writes the sequence and the numbers
  \<open>e, z, k, gs\<close> of the comment, but all of them except the count \<open>k\<close> are lowered by one. The numbers of the
  comment are not what \<open>from_bytes\<close> expects: it reads those of one range as a range with one
  more sequence number.\<close>

theorem ack_format:
  assumes "octets_contract oa venc u16enc" and "packet_ok (Ack s rs)" and "ack_documented rs = e # z # k # gs"
  shows "to_bytes oa (Ack s rs) (wb_new n) = Some
      (let w = [4] @ concat (map venc (s # (e - 1) # (z - 1) # k # map (\<lambda>x. x - 1) gs)) in
       if length w \<le> n then Inr (length w, \<lparr>wb_cap = n - length w, wb_out = w\<rparr>)
       else Inl BufferTooShort)
    \<and> (rs = [(a, b)] \<and> b < 2 ^ 62 \<longrightarrow>
       from_bytes oa ([4] @ concat (map venc (s # ack_documented rs)) @ rest) = Some (Inr (Ack s [(a, b + 1)])))"
  using to_bytes_run[OF assms(1,2), of n] ack_packet_documented[OF assms(3), of venc u16enc s]
    documented_range_read[OF assms(1), of s a b rest] assms(2)
  by (auto simp: ack_ranges_ok_def)

theorem ack_format_witness:
  "ack_documented [(20010, 20020), (20035, 20040)] = [20040, 5, 1, 15, 10]
   \<and> to_bytes quic_octets (Ack 7 [(20010, 20020), (20035, 20040)]) (wb_new 1400)
     = (let w = [4] @ concat (map quic_enc [7, 20039, 4, 1, 14, 9]) in
        Some (Inr (length w, \<lparr>wb_cap = 1400 - length w, wb_out = w\<rparr>)))
   \<and> from_bytes quic_octets ([4] @ concat (map quic_enc [7, 20, 10, 0])) = Some (Inr (Ack 7 [(10, 21)]))"
proof -
  have d: "ack_documented [(20010, 20020), (20035, 20040)] = [20040, 5, 1, 15, 10]" "ack_documented [(10, 20)] = [20, 10, 0]"
    by (simp_all add: ack_documented_def)
  have ok: "packet_ok (Ack 7 [(20010, 20020), (20035, 20040)])" "packet_ok (Ack 7 [(10, 20)])" by (simp_all add: ack_ranges_ok_def)
  have "length ([4] @ concat (map quic_enc [7, 20039, 4, 1, 14, 9])) \<le> 1400" by code_simp
  then show ?thesis
    using ack_format[OF quic.octets_contract_axioms ok(1) d(1), of 1400]
      ack_format[OF quic.octets_contract_axioms ok(2) d(2), of 1400 10 20 "[]"] d by (simp add: Let_def)
qed

text \<open>C12. \<open>from_bytes\<close> never panics, whatever the bytes; an accepted packet is well-formed: in
  particular its acknowledged ranges are nonempty, ascending and apart from each other, its
  slice counts are between 1 and 1000000, and the payload of a reliable slice is neither
  empty nor longer than \<open>SLICE_SIZE\<close>.\<close>

theorem from_bytes_total:
  assumes "octets_contract oa venc u16enc"
  shows "\<exists>r. from_bytes oa b = Some r \<and> (\<forall>p. r = Inr p \<longrightarrow> packet_ok p)"
  using octets_contract.from_bytes_returns[OF assms, of b]
  by (auto simp: returns_def split: option.splits sum.splits)

theorem from_bytes_total_witness:
  "packet_ok (Ack 1 [(2, 3), (5, 6)])
   \<and> from_bytes quic_octets [4, 1, 5, 0, 1, 1, 0] = Some (Inr (Ack 1 [(2, 3), (5, 6)]))"
proof -
  have "from_bytes quic_octets [4, 1, 5, 0, 1, 1, 0] = Some (Inr (Ack 1 [(2, 3), (5, 6)]))"
    by code_simp
  then show ?thesis
    using from_bytes_total[OF quic.octets_contract_axioms, of "[4, 1, 5, 0, 1, 1, 0]"] by auto
qed

end
