(* ===== verification/SliceConstructor.thy ===== *)
theory SliceConstructor
  imports RenetPacket
begin

text \<open>
  Reassembly of a sliced message: \<open>src/renet/src/channel/slice_constructor.rs\<close>, and the
  errors of \<open>src/renet/src/error.rs\<close>. \<open>msg_chunk m i\<close> is the slice with index \<open>i\<close> of a
  message; the invariant \<open>sc_inv\<close> relates a constructor to the message it is assembling,
  and the main theorem says that the slices of a message, in any order and with any
  repetitions, give back exactly this message, with the last one missing and not before.
\<close>

section \<open>Errors\<close>

datatype channel_error =
    ReliableChannelMaxMemoryReached
  | InvalidSliceMessage

datatype disconnect_reason =
    Transport
  | DisconnectedByClient
  | DisconnectedByServer
  | PacketSerialization serialization_error
  | PacketDeserialization serialization_error
  | ReceivedInvalidChannelId u8
  | SendChannelError u8 channel_error
  | ReceiveChannelError u8 channel_error

section \<open>The constructor\<close>

record slice_constructor =
  sc_message_id :: u64
  sc_num_slices :: usize
  sc_num_received_slices :: usize
  sc_received :: "bool list"
  sc_sliced_data :: bytes

definition sc_new :: "u64 \<Rightarrow> usize \<Rightarrow> slice_constructor option" where
  "sc_new message_id num_slices = do {
     len \<leftarrow> umul num_slices SLICE_SIZE;
     Some \<lparr>sc_message_id = message_id, sc_num_slices = num_slices, sc_num_received_slices = 0,
       sc_received = replicate num_slices False, sc_sliced_data = replicate len 0\<rparr>
   }"

definition sc_store :: "slice_constructor \<Rightarrow> usize \<Rightarrow> bytes \<Rightarrow> slice_constructor option" where
  "sc_store s slice_index bs = do {
     last \<leftarrow> usub (sc_num_slices s) 1;
     received \<leftarrow> vec_set (sc_received s) slice_index True;
     num_received_slices \<leftarrow> uadd (sc_num_received_slices s) 1;
     sliced_data \<leftarrow> (if slice_index = last then do {
         base \<leftarrow> umul last SLICE_SIZE;
         len \<leftarrow> uadd base (length bs);
         Some (vec_resize (sc_sliced_data s) len 0)
       } else Some (sc_sliced_data s));
     start \<leftarrow> umul slice_index SLICE_SIZE;
     stop \<leftarrow> (if slice_index = last then do {
         base \<leftarrow> umul last SLICE_SIZE;
         uadd base (length bs)
       } else do {
         next \<leftarrow> uadd slice_index 1;
         umul next SLICE_SIZE
       });
     sliced_data \<leftarrow> vec_copy sliced_data start stop bs;
     Some (s\<lparr>sc_received := received, sc_num_received_slices := num_received_slices,
       sc_sliced_data := sliced_data\<rparr>)
   }"

definition sc_process_slice ::
    "slice_constructor \<Rightarrow> usize \<Rightarrow> bytes
     \<Rightarrow> (slice_constructor \<times> (channel_error + bytes option)) option" where
  "sc_process_slice s slice_index bs = do {
     last \<leftarrow> usub (sc_num_slices s) 1;
     (if (if slice_index = last then length bs > SLICE_SIZE else length bs \<noteq> SLICE_SIZE)
      then Some (s, Inl InvalidSliceMessage)
      else do {
        received \<leftarrow> vec_get (sc_received s) slice_index;
        s \<leftarrow> (if \<not> received then sc_store s slice_index bs else Some s);
        (if sc_num_received_slices s = sc_num_slices s
         then Some (s\<lparr>sc_sliced_data := []\<rparr>, Inr (Some (sc_sliced_data s)))
         else Some (s, Inr None))
      })
   }"

section \<open>What it assembles\<close>

text \<open>The slice with index \<open>i\<close> of a message, and the number of slices it is cut into.\<close>

definition msg_chunk :: "bytes \<Rightarrow> nat \<Rightarrow> bytes" where
  "msg_chunk m i = take SLICE_SIZE (drop (i * SLICE_SIZE) m)"

text \<open>\<open>n\<close> slices carry the message \<open>m\<close>: all but the last are full.\<close>

definition slices_of :: "bytes \<Rightarrow> nat \<Rightarrow> bool" where
  "slices_of m n \<longleftrightarrow> 0 < n \<and> (n - 1) * SLICE_SIZE \<le> length m \<and> length m \<le> n * SLICE_SIZE
     \<and> n * SLICE_SIZE < 2 ^ 64"

text \<open>The constructor holds the received slices of \<open>m\<close> in their places.\<close>

definition sc_inv :: "bytes \<Rightarrow> slice_constructor \<Rightarrow> bool" where
  "sc_inv m s \<longleftrightarrow>
     slices_of m (sc_num_slices s) \<and> length (sc_received s) = sc_num_slices s
     \<and> sc_num_received_slices s = length (filter id (sc_received s))
     \<and> length (sc_sliced_data s) =
         (if sc_received s ! (sc_num_slices s - 1) then length m else sc_num_slices s * SLICE_SIZE)
     \<and> (\<forall>j < length m. sc_received s ! (j div SLICE_SIZE) \<longrightarrow> sc_sliced_data s ! j = m ! j)"

lemma length_msg_chunk:
  assumes "slices_of m n" and "i < n"
  shows "length (msg_chunk m i) = (if i = n - 1 then length m - i * SLICE_SIZE else SLICE_SIZE)"
proof (cases "i = n - 1")
  case True
  with assms have "length m - i * SLICE_SIZE \<le> SLICE_SIZE"
    by (cases n) (auto simp: slices_of_def)
  with True show ?thesis by (simp add: msg_chunk_def)
next
  case False
  with assms(2) have "Suc i \<le> n - 1" by simp
  then have "Suc i * SLICE_SIZE \<le> (n - 1) * SLICE_SIZE" by (rule mult_le_mono1)
  with assms(1) have "SLICE_SIZE \<le> length m - i * SLICE_SIZE"
    by (auto simp: slices_of_def)
  with False show ?thesis by (simp add: msg_chunk_def)
qed

lemma length_filter_update:
  "i < length xs \<Longrightarrow> \<not> xs ! i \<Longrightarrow> length (filter id (xs[i := True])) = Suc (length (filter id xs))"
proof (induction xs arbitrary: i)
  case (Cons x xs)
  then show ?case by (cases i) auto
qed simp

lemma all_received_iff: "length (filter id xs) = length xs \<longleftrightarrow> (\<forall>i < length xs. xs ! i)"
  by (metis filter_id_conv filter_True id_apply in_set_conv_nth length_filter_less less_irrefl)

lemma nth_vec_copy:
  assumes "a \<le> b" "b \<le> length xs" "length ys = b - a" "j < length xs"
  shows "(take a xs @ ys @ drop b xs) ! j = (if a \<le> j \<and> j < b then ys ! (j - a) else xs ! j)"
  using assms by (auto simp: nth_append min_def)

lemma sc_new_inv: "slices_of m n \<Longrightarrow> \<exists>s. sc_new i n = Some s \<and> sc_inv m s \<and> sc_num_slices s = n
    \<and> sc_received s = replicate n False"
proof -
  assume m: "slices_of m n"
  have "j div SLICE_SIZE < n" if "j < length m" for j
    using m that unfolding slices_of_def by (simp add: SLICE_SIZE_def div_less_iff_less_mult)
  with m show ?thesis by (auto simp: sc_new_def sc_inv_def umul_def slices_of_def)
qed

lemma slot_bound: "slices_of m n \<Longrightarrow> j < length m \<Longrightarrow> j div SLICE_SIZE < n"
  by (simp add: slices_of_def SLICE_SIZE_def div_less_iff_less_mult)

lemma msg_chunk_nth:
  "j < length m \<Longrightarrow> msg_chunk m (j div SLICE_SIZE) ! (j - j div SLICE_SIZE * SLICE_SIZE) = m ! j"
proof -
  assume "j < length m"
  moreover have "j - j div SLICE_SIZE * SLICE_SIZE < SLICE_SIZE"
    by (simp add: SLICE_SIZE_def minus_div_mult_eq_mod)
  moreover have "j div SLICE_SIZE * SLICE_SIZE \<le> length m"
    using calculation(1) by (meson div_times_less_eq_dividend le_trans less_imp_le)
  ultimately show ?thesis by (simp add: msg_chunk_def)
qed

lemma slot_iff: "j div SLICE_SIZE = i \<longleftrightarrow> i * SLICE_SIZE \<le> j \<and> j < (i + 1) * SLICE_SIZE"
  by (auto simp: SLICE_SIZE_def)

text \<open>Copying a slice to its place: the other bytes stay, and the slice's bytes are right.\<close>

lemma copy_chunk_correct:
  assumes m: "slices_of m n" "i < n"
    and d: "length m \<le> length d" "\<forall>j < length m. r ! (j div SLICE_SIZE) \<longrightarrow> d ! j = m ! j"
    and r: "length r = n"
    and stop: "stop = i * SLICE_SIZE + length (msg_chunk m i)" "stop \<le> length d"
    and j: "j < length m" "(r[i := True]) ! (j div SLICE_SIZE)"
  shows "(take (i * SLICE_SIZE) d @ msg_chunk m i @ drop stop d) ! j = m ! j"
proof -
  have len: "length (msg_chunk m i) = (if i = n - 1 then length m - i * SLICE_SIZE else SLICE_SIZE)"
    by (rule length_msg_chunk[OF m])
  have c: "(take (i * SLICE_SIZE) d @ msg_chunk m i @ drop stop d) ! j =
      (if i * SLICE_SIZE \<le> j \<and> j < stop then msg_chunk m i ! (j - i * SLICE_SIZE) else d ! j)"
    using stop j(1) d(1) by (intro nth_vec_copy) auto
  show ?thesis
  proof (cases "j div SLICE_SIZE = i")
    case True
    then have "i * SLICE_SIZE \<le> j" "j < (i + 1) * SLICE_SIZE" by (simp_all only: slot_iff)
    then have "j < stop" using j(1) by (auto simp: stop(1) len)
    with True \<open>i * SLICE_SIZE \<le> j\<close> show ?thesis
      using msg_chunk_nth[OF j(1)] by (simp add: c)
  next
    case False
    then have "\<not> (i * SLICE_SIZE \<le> j \<and> j < stop)"
      using length_take[of SLICE_SIZE "drop (i * SLICE_SIZE) m"]
      by (auto simp: slot_iff stop(1) msg_chunk_def)
    moreover have "r ! (j div SLICE_SIZE)"
      using j(2) False slot_bound[OF m(1) j(1)] r by simp
    ultimately show ?thesis using d(2) j(1) by (simp only: c if_False simp_thms)
  qed
qed

lemma sc_store_inv:
  assumes inv: "sc_inv m s" and i: "i < sc_num_slices s" "\<not> sc_received s ! i"
  shows "\<exists>s'. sc_store s i (msg_chunk m i) = Some s' \<and> sc_inv m s'
    \<and> sc_num_slices s' = sc_num_slices s \<and> sc_received s' = (sc_received s)[i := True]"
proof -
  define n where "n = sc_num_slices s"
  define d where "d = (if i = n - 1 then take (length m) (sc_sliced_data s) else sc_sliced_data s)"
  define stop where "stop = i * SLICE_SIZE + length (msg_chunk m i)"
  note n_def[symmetric, simp]
  from inv have m: "slices_of m n" and r: "length (sc_received s) = n"
    and cnt: "sc_num_received_slices s = length (filter id (sc_received s))"
    and ld: "length (sc_sliced_data s) =
      (if sc_received s ! (n - 1) then length m else n * SLICE_SIZE)"
    and dj: "\<forall>j < length m. sc_received s ! (j div SLICE_SIZE) \<longrightarrow> sc_sliced_data s ! j = m ! j"
    by (auto simp: sc_inv_def)
  from i(1) have i1: "i < n" by simp
  have n64: "n * SLICE_SIZE < 2 ^ 64" and n0: "0 < n" and mn: "length m \<le> n * SLICE_SIZE"
    and mn1: "(n - 1) * SLICE_SIZE \<le> length m" using m by (auto simp: slices_of_def)
  have nn: "n < 2 ^ 64" using n64 by (simp add: SLICE_SIZE_def)
  have len: "length (msg_chunk m i) = (if i = n - 1 then length m - i * SLICE_SIZE else SLICE_SIZE)"
    by (rule length_msg_chunk[OF m i1])
  have iB: "(i + 1) * SLICE_SIZE \<le> n * SLICE_SIZE" using i1 by (intro mult_le_mono1) simp
  have iB2: "(i + 1) * SLICE_SIZE \<le> length m" if "i \<noteq> n - 1"
  proof -
    have "(i + 1) * SLICE_SIZE \<le> (n - 1) * SLICE_SIZE"
      using i1 that by (intro mult_le_mono1) simp
    with mn1 show ?thesis by simp
  qed
  have stop_eq: "stop = (if i = n - 1 then length m else (i + 1) * SLICE_SIZE)"
    using mn1 by (auto simp: stop_def len)
  have dlen: "length m \<le> length d" "stop \<le> length d"
    and dnew: "length d = (if (sc_received s)[i := True] ! (n - 1) then length m else n * SLICE_SIZE)"
    using ld mn i r i1 stop_eq iB iB2 by (auto simp: d_def nth_list_update)
  have cnt1: "length (filter id ((sc_received s)[i := True])) = Suc (sc_num_received_slices s)"
    using length_filter_update[of i "sc_received s"] i r by (simp add: cnt)
  have "sc_num_received_slices s < n"
    using cnt1 length_filter_le[of id "(sc_received s)[i := True]"] by (simp add: r)
  define s' where "s' = s\<lparr>sc_received := (sc_received s)[i := True],
    sc_num_received_slices := Suc (sc_num_received_slices s),
    sc_sliced_data := take (i * SLICE_SIZE) d @ msg_chunk m i @ drop stop d\<rparr>"
  have base: "umul (n - 1) SLICE_SIZE = Some ((n - 1) * SLICE_SIZE)"
    using mn1 mn n64 by (simp add: umul_def)
  have len64: "uadd ((n - 1) * SLICE_SIZE) (length (msg_chunk m i)) = Some stop" if "i = n - 1"
  proof -
    have "(n - 1) * SLICE_SIZE + length (msg_chunk m i) = stop" by (simp add: that stop_def)
    moreover have "stop < 2 ^ 64" using that stop_eq mn n64 by simp
    ultimately show ?thesis by (simp add: uadd_def)
  qed
  have data: "(if i = n - 1 then do {
        base \<leftarrow> umul (n - 1) SLICE_SIZE; len \<leftarrow> uadd base (length (msg_chunk m i));
        Some (vec_resize (sc_sliced_data s) len 0) } else Some (sc_sliced_data s)) = Some d"
    using base len64 stop_eq ld mn by (simp add: d_def vec_resize_shrink)
  have start: "umul i SLICE_SIZE = Some (i * SLICE_SIZE)"
    using iB n64 by (simp add: umul_def)
  have stop: "(if i = n - 1 then do {
        base \<leftarrow> umul (n - 1) SLICE_SIZE; uadd base (length (msg_chunk m i)) }
      else do { next \<leftarrow> uadd i 1; umul next SLICE_SIZE }) = Some stop"
    using base len64 stop_eq iB n64 i1 nn by (simp add: uadd_def umul_def)
  have copy: "vec_copy d (i * SLICE_SIZE) stop (msg_chunk m i) =
      Some (take (i * SLICE_SIZE) d @ msg_chunk m i @ drop stop d)"
    using dlen by (simp add: vec_copy_def stop_def)
  have "usub n 1 = Some (n - 1)" "vec_set (sc_received s) i True = Some ((sc_received s)[i := True])"
    "uadd (sc_num_received_slices s) 1 = Some (Suc (sc_num_received_slices s))"
    using n0 i1 r nn \<open>sc_num_received_slices s < n\<close> by (auto simp: usub_def vec_set_def uadd_def)
  then have "sc_store s i (msg_chunk m i) = Some s'"
    unfolding sc_store_def s'_def n_def[symmetric]
    by (simp only: bind.bind_lunit data start stop copy)
  moreover have "sc_inv m s'"
    using copy_chunk_correct[OF m i1 dlen(1) _ r stop_def dlen(2)] dj dlen dnew m r cnt1 len
    by (auto simp: sc_inv_def s'_def d_def stop_def)
  ultimately show ?thesis by (auto simp: s'_def)
qed

section \<open>Reassembly\<close>

text \<open>One slice of the message: it is stored, and the message is returned exactly when it was
  the last one missing.\<close>

lemma sc_process_slice_step:
  assumes inv: "sc_inv m s" and i: "i < sc_num_slices s"
  defines "r \<equiv> (sc_received s)[i := True]"
  shows "\<exists>s'. sc_received s' = r \<and> sc_num_slices s' = sc_num_slices s
    \<and> sc_process_slice s i (msg_chunk m i) =
        Some (s', Inr (if \<forall>j < sc_num_slices s. r ! j then Some m else None))
    \<and> ((\<exists>j < sc_num_slices s. \<not> r ! j) \<longrightarrow> sc_inv m s')"
proof -
  let ?n = "sc_num_slices s"
  from inv have m: "slices_of m ?n" and lr: "length (sc_received s) = ?n" and n0: "0 < ?n"
    by (auto simp: sc_inv_def slices_of_def)
  have len: "length (msg_chunk m i) = (if i = ?n - 1 then length m - i * SLICE_SIZE else SLICE_SIZE)"
    by (rule length_msg_chunk[OF m i])
  have "length (msg_chunk m i) \<le> SLICE_SIZE" by (simp add: msg_chunk_def)
  with len have chk: "\<not> (if i = ?n - 1 then length (msg_chunk m i) > SLICE_SIZE
      else length (msg_chunk m i) \<noteq> SLICE_SIZE)" by (auto split: if_splits)
  obtain s1 where s1: "(if \<not> sc_received s ! i then sc_store s i (msg_chunk m i) else Some s) = Some s1"
    "sc_inv m s1" "sc_num_slices s1 = ?n" "sc_received s1 = r"
  proof (cases "sc_received s ! i")
    case True
    then have "r = sc_received s" unfolding r_def by (metis list_update_id)
    with True inv that show ?thesis by simp
  next
    case False
    with sc_store_inv[OF inv i] that show ?thesis by (auto simp: r_def)
  qed
  have run: "sc_process_slice s i (msg_chunk m i) =
      (if sc_num_received_slices s1 = ?n then Some (s1\<lparr>sc_sliced_data := []\<rparr>, Inr (Some (sc_sliced_data s1)))
       else Some (s1, Inr None))"
    using n0 i lr chk s1(1,3) by (simp add: sc_process_slice_def usub_def vec_get_def)
  have full: "sc_num_received_slices s1 = ?n \<longleftrightarrow> (\<forall>j < ?n. r ! j)"
    using s1(2-4) all_received_iff[of r] by (simp add: sc_inv_def)
  show ?thesis
  proof (cases "\<forall>j < ?n. r ! j")
    case True
    then have "length (sc_sliced_data s1) = length m" using s1 n0 by (simp add: sc_inv_def)
    moreover have "sc_sliced_data s1 ! j = m ! j" if "j < length m" for j
      using s1 True that slot_bound[OF m that] by (simp add: sc_inv_def)
    ultimately have "sc_sliced_data s1 = m" by (simp add: nth_equalityI)
    with True full run s1 show ?thesis
      by (intro exI[of _ "s1\<lparr>sc_sliced_data := []\<rparr>"]) auto
  next
    case False
    with full run s1 show ?thesis by (intro exI[of _ s1]) auto
  qed
qed

text \<open>A channel feeds the slices it receives until one completes the message.\<close>

fun sc_feed :: "bytes \<Rightarrow> slice_constructor \<Rightarrow> nat list \<Rightarrow> bytes option option" where
  "sc_feed m s [] = Some None"
| "sc_feed m s (i # is) = do {
     (s', r) \<leftarrow> sc_process_slice s i (msg_chunk m i);
     (case r of
        Inl e \<Rightarrow> None
      | Inr None \<Rightarrow> sc_feed m s' is
      | Inr (Some p) \<Rightarrow> Some (Some p))
   }"

lemma sc_feed_inv:
  assumes "sc_inv m s" and "set is \<subseteq> {..<sc_num_slices s}"
    and "\<exists>j < sc_num_slices s. \<not> sc_received s ! j"
  shows "sc_feed m s is =
    Some (if \<forall>j < sc_num_slices s. sc_received s ! j \<or> j \<in> set is then Some m else None)"
  using assms
proof (induction "is" arbitrary: s)
  case Nil
  then show ?case by auto
next
  case (Cons i "is")
  let ?r = "(sc_received s)[i := True]"
  have i: "i < sc_num_slices s" and lr: "length (sc_received s) = sc_num_slices s"
    using Cons.prems by (auto simp: sc_inv_def)
  from sc_process_slice_step[OF Cons.prems(1) i] obtain s' where s': "sc_received s' = ?r"
    "sc_num_slices s' = sc_num_slices s"
    "sc_process_slice s i (msg_chunk m i) =
        Some (s', Inr (if \<forall>j < sc_num_slices s. ?r ! j then Some m else None))"
    "(\<exists>j < sc_num_slices s. \<not> ?r ! j) \<Longrightarrow> sc_inv m s'" by blast
  have r: "?r ! j \<longleftrightarrow> sc_received s ! j \<or> j = i" if "j < sc_num_slices s" for j
    using that lr i by (auto simp: nth_list_update)
  show ?case
  proof (cases "\<forall>j < sc_num_slices s. ?r ! j")
    case True
    with r s'(3) show ?thesis by auto
  next
    case False
    with s' Cons.prems have "sc_feed m s' is =
        Some (if \<forall>j < sc_num_slices s'. sc_received s' ! j \<or> j \<in> set is then Some m else None)"
      by (intro Cons.IH) auto
    moreover have "(\<forall>j < sc_num_slices s'. sc_received s' ! j \<or> j \<in> set is) \<longleftrightarrow>
        (\<forall>j < sc_num_slices s. sc_received s ! j \<or> j \<in> set (i # is))"
      using r s'(1,2) by auto
    ultimately show ?thesis using False s'(3) by auto
  qed
qed

text \<open>C13. Reassembly: feed a new constructor any sequence of slices of a message \<open>m\<close> cut into
  \<open>n\<close> slices, in any order and with repetitions. It never panics and never reports an
  error; it returns exactly \<open>m\<close> once every slice has been fed, and nothing before that.\<close>

theorem slices_reassemble:
  assumes "slices_of m n" and "set is \<subseteq> {..<n}"
  shows "do { s \<leftarrow> sc_new message_id n; sc_feed m s is } =
    Some (if {..<n} \<subseteq> set is then Some m else None)"
proof -
  from sc_new_inv[OF assms(1)] obtain s where s: "sc_new message_id n = Some s" "sc_inv m s"
    "sc_num_slices s = n" "sc_received s = replicate n False" by blast
  have "0 < n" using assms(1) by (simp add: slices_of_def)
  then have "\<exists>j < sc_num_slices s. \<not> sc_received s ! j" using s by auto
  from sc_feed_inv[OF s(2) _ this, of "is"] s assms(2) show ?thesis by auto
qed

theorem slices_reassemble_witness:
  "do { s \<leftarrow> sc_new 0 2; sc_feed (replicate 1201 7) s [1, 1, 0] } = Some (Some (replicate 1201 7))"
proof -
  have "slices_of (replicate 1201 7) 2" by (simp add: slices_of_def SLICE_SIZE_def)
  moreover have "set [1, 1, 0] \<subseteq> {..<2::nat}" "{..<2::nat} \<subseteq> set [1, 1, 0]" by auto
  ultimately show ?thesis using slices_reassemble[of "replicate 1201 7" 2 "[1, 1, 0]" 0] by presburger
qed

section \<open>Slices of any content\<close>

text \<open>A constructor in use: it is assembling what its buffer already holds.\<close>

definition sc_wf :: "slice_constructor \<Rightarrow> bool" where
  "sc_wf s \<longleftrightarrow> sc_inv (sc_sliced_data s) s"

lemma sc_inv_wf: "sc_inv m s \<Longrightarrow> sc_wf s"
  unfolding sc_wf_def sc_inv_def slices_of_def by (auto split: if_splits)

definition slice_size_ok :: "usize \<Rightarrow> usize \<Rightarrow> bytes \<Rightarrow> bool" where
  "slice_size_ok n i bs \<longleftrightarrow> (if i = n - 1 then length bs \<le> SLICE_SIZE else length bs = SLICE_SIZE)"

text \<open>Any payload of the right size that is not there yet is a slice of some message the
  constructor may be assembling.\<close>

lemma sc_wf_extend:
  assumes wf: "sc_wf s" and i: "i < sc_num_slices s" "\<not> sc_received s ! i"
    and bs: "slice_size_ok (sc_num_slices s) i bs"
  shows "\<exists>m. sc_inv m s \<and> msg_chunk m i = bs"
proof -
  define n where "n = sc_num_slices s"
  define d where "d = sc_sliced_data s"
  define t where "t = (if i = n - 1 then [] else drop ((i + 1) * SLICE_SIZE) d)"
  define m where "m = take (i * SLICE_SIZE) d @ bs @ t"
  from wf have d: "slices_of d n" and r: "length (sc_received s) = n"
    and ld: "length d = (if sc_received s ! (n - 1) then length d else n * SLICE_SIZE)"
    by (auto simp: sc_wf_def sc_inv_def d_def n_def)
  have i1: "i < n" using i(1) by (simp add: n_def)
  have iB: "(i + 1) * SLICE_SIZE \<le> n * SLICE_SIZE" using i1 by (intro mult_le_mono1) simp
  have dlen: "(i + 1) * SLICE_SIZE \<le> length d"
  proof (cases "i = n - 1")
    case True
    with i(2) ld iB show ?thesis by auto
  next
    case False
    then have "(i + 1) * SLICE_SIZE \<le> (n - 1) * SLICE_SIZE" using i1 by (intro mult_le_mono1) simp
    with d show ?thesis by (auto simp: slices_of_def)
  qed
  have mlen: "length m = (if i = n - 1 then (n - 1) * SLICE_SIZE + length bs else length d)"
    using dlen bs by (auto simp: m_def t_def slice_size_ok_def n_def)
  have sm: "slices_of m n"
    using d mlen bs i1 iB by (auto simp: slices_of_def slice_size_ok_def n_def algebra_simps)
  have chunk: "msg_chunk m i = bs"
    using dlen bs by (auto simp: msg_chunk_def m_def t_def slice_size_ok_def n_def)
  have "d ! j = m ! j" if "j < length m" "sc_received s ! (j div SLICE_SIZE)" for j
  proof -
    have "j div SLICE_SIZE \<noteq> i" using that(2) i(2) by auto
    then consider "j < i * SLICE_SIZE" | "(i + 1) * SLICE_SIZE \<le> j" by (auto simp: slot_iff)
    then show ?thesis
    proof cases
      case 1
      with dlen show ?thesis by (simp add: m_def nth_append)
    next
      case 2
      then have "i \<noteq> n - 1" using that(1) mlen bs by (auto simp: slice_size_ok_def n_def)
      then have "length bs = SLICE_SIZE" "t = drop ((i + 1) * SLICE_SIZE) d"
        using bs by (auto simp: slice_size_ok_def n_def t_def)
      with 2 dlen show ?thesis by (auto simp: m_def nth_append)
    qed
  qed
  moreover have "length d = (if sc_received s ! (n - 1) then length m else n * SLICE_SIZE)"
    using ld mlen i(2) by auto
  ultimately have "sc_inv m s"
    using wf sm r by (auto simp: sc_inv_def sc_wf_def d_def n_def)
  with chunk show ?thesis by blast
qed

lemma sc_store_wf:
  assumes "sc_wf s" "i < sc_num_slices s" "\<not> sc_received s ! i"
    "slice_size_ok (sc_num_slices s) i bs"
  shows "\<exists>s'. sc_store s i bs = Some s' \<and> sc_wf s' \<and> sc_num_slices s' = sc_num_slices s"
  using sc_wf_extend[OF assms] sc_store_inv[OF _ assms(2,3)] sc_inv_wf by metis

text \<open>A slice of an index in range: the constructor rejects it unchanged, keeps it, or gives back
  a message no longer than the slices.\<close>

fun sc_outcome_ok ::
    "slice_constructor \<Rightarrow> bool \<Rightarrow> slice_constructor \<Rightarrow> channel_error + bytes option \<Rightarrow> bool" where
  "sc_outcome_ok s size_ok s' (Inl e) \<longleftrightarrow> \<not> size_ok \<and> s' = s \<and> e = InvalidSliceMessage"
| "sc_outcome_ok s size_ok s' (Inr None) \<longleftrightarrow> size_ok \<and> sc_wf s'"
| "sc_outcome_ok s size_ok s' (Inr (Some m)) \<longleftrightarrow> size_ok \<and> length m \<le> sc_num_slices s * SLICE_SIZE"

lemma sc_process_slice_wf:
  assumes wf: "sc_wf s" and i: "i < sc_num_slices s"
  shows "\<exists>s' r. sc_process_slice s i bs = Some (s', r) \<and> sc_num_slices s' = sc_num_slices s
    \<and> sc_outcome_ok s (slice_size_ok (sc_num_slices s) i bs) s' r"
proof (cases "slice_size_ok (sc_num_slices s) i bs")
  case True
  have wfD: "0 < sc_num_slices s" "length (sc_received s) = sc_num_slices s"
    using wf by (auto simp: sc_wf_def sc_inv_def slices_of_def)
  obtain s1 where s1: "(if \<not> sc_received s ! i then sc_store s i bs else Some s) = Some s1" "sc_wf s1"
    "sc_num_slices s1 = sc_num_slices s"
    using sc_store_wf[OF wf i _ True] wf by (cases "sc_received s ! i") auto
  have "length (sc_sliced_data s1) \<le> sc_num_slices s * SLICE_SIZE"
    using s1(2,3) by (simp add: sc_wf_def sc_inv_def slices_of_def)
  with s1 True i wfD show ?thesis
    by (cases "sc_num_received_slices s1 = sc_num_slices s")
      (auto simp: sc_process_slice_def usub_def vec_get_def slice_size_ok_def split: if_splits)
next
  case False
  then show ?thesis
    using wf by (auto simp: sc_process_slice_def usub_def slice_size_ok_def sc_wf_def sc_inv_def
        slices_of_def)
qed

text \<open>C14. The outcomes of \<open>process_slice\<close> on a constructor in use, for any index and any
  payload: a payload of the wrong size is rejected with \<open>InvalidSliceMessage\<close> and changes
  nothing; a payload of the right size is accepted when its index is below the number of
  slices; and an index at or beyond the number of slices, with a full payload, panics (the
  index is not checked before \<open>self.received[slice_index]\<close>).\<close>

theorem process_slice_outcomes:
  assumes "sc_wf s"
  shows "(\<not> slice_size_ok (sc_num_slices s) i bs \<longrightarrow>
       sc_process_slice s i bs = Some (s, Inl InvalidSliceMessage))
   \<and> (slice_size_ok (sc_num_slices s) i bs \<and> i < sc_num_slices s \<longrightarrow>
       (\<exists>s' r. sc_process_slice s i bs = Some (s', Inr r) \<and> (r = None \<longrightarrow> sc_wf s')))
   \<and> (slice_size_ok (sc_num_slices s) i bs \<and> sc_num_slices s \<le> i \<longrightarrow>
       sc_process_slice s i bs = None)"
proof -
  have "0 < sc_num_slices s" "length (sc_received s) = sc_num_slices s"
    using assms by (auto simp: sc_wf_def sc_inv_def slices_of_def)
  then have "(\<not> slice_size_ok (sc_num_slices s) i bs \<longrightarrow>
       sc_process_slice s i bs = Some (s, Inl InvalidSliceMessage))
     \<and> (slice_size_ok (sc_num_slices s) i bs \<and> sc_num_slices s \<le> i \<longrightarrow> sc_process_slice s i bs = None)"
    by (auto simp: sc_process_slice_def usub_def vec_get_def slice_size_ok_def)
  moreover have "\<exists>s' r. sc_process_slice s i bs = Some (s', Inr r) \<and> (r = None \<longrightarrow> sc_wf s')"
    if ok: "slice_size_ok (sc_num_slices s) i bs" and i: "i < sc_num_slices s"
  proof -
    from sc_process_slice_wf[OF assms i, of bs] obtain s' r where
      "sc_process_slice s i bs = Some (s', r)" "sc_outcome_ok s True s' r" using ok by auto
    then show ?thesis by (cases "(s, True, s', r)" rule: sc_outcome_ok.cases) auto
  qed
  ultimately show ?thesis by blast
qed

theorem process_slice_outcomes_witness:
  "\<exists>s. sc_new 0 2 = Some s \<and> sc_wf s
     \<and> sc_process_slice s 0 [1] = Some (s, Inl InvalidSliceMessage)
     \<and> sc_process_slice s 5 (replicate 1200 0) = None"
proof -
  have "slices_of (replicate 2400 0) 2" by (simp add: slices_of_def SLICE_SIZE_def)
  from sc_new_inv[OF this, of 0] obtain s where "sc_new 0 2 = Some s" "sc_wf s" "sc_num_slices s = 2"
    using sc_inv_wf by blast
  with process_slice_outcomes[of s 0 "[1]"] process_slice_outcomes[of s 5 "replicate 1200 0"]
  show ?thesis by (simp add: slice_size_ok_def SLICE_SIZE_def)
qed

end
