(* ===== verification/SendReliable.thy ===== *)
theory SendReliable
  imports SliceConstructor
begin

text \<open>
  The sending half of a reliable channel, \<open>SendChannelReliable\<close> of
  \<open>src/renet/src/channel/reliable.rs\<close>: it keeps every message until it is acknowledged,
  counts the bytes it keeps against its limit, and every tick turns the messages that are
  due into packets.
\<close>

section \<open>State\<close>

text \<open>\<open>Sliced message num_slices num_acked_slices next_slice_to_send acked last_sent\<close>.\<close>

datatype unacked_message =
    Small bytes "duration option"
  | Sliced bytes usize usize usize "bool list" "duration option list"

record send_channel_reliable =
  scr_channel_id :: u8
  scr_unacked_messages :: "(u64 \<times> unacked_message) list"
  scr_next_reliable_message_id :: u64
  scr_resend_time :: duration
  scr_max_memory_usage_bytes :: usize
  scr_memory_usage_bytes :: usize

definition new_sliced :: "bytes \<Rightarrow> unacked_message" where
  "new_sliced payload =
     (let num_slices = div_ceil (length payload) SLICE_SIZE in
      Sliced payload num_slices 0 0 (replicate num_slices False) (replicate num_slices None))"

definition scr_new :: "u8 \<Rightarrow> duration \<Rightarrow> usize \<Rightarrow> send_channel_reliable" where
  "scr_new channel_id resend_time max_memory_usage_bytes =
     \<lparr>scr_channel_id = channel_id, scr_unacked_messages = [], scr_next_reliable_message_id = 0,
      scr_resend_time = resend_time, scr_max_memory_usage_bytes = max_memory_usage_bytes,
      scr_memory_usage_bytes = 0\<rparr>"

definition scr_available_memory :: "send_channel_reliable \<Rightarrow> usize option" where
  "scr_available_memory c = usub (scr_max_memory_usage_bytes c) (scr_memory_usage_bytes c)"

definition scr_can_send_message :: "send_channel_reliable \<Rightarrow> usize \<Rightarrow> bool option" where
  "scr_can_send_message c size_bytes = do {
     total \<leftarrow> uadd size_bytes (scr_memory_usage_bytes c);
     Some (total \<le> scr_max_memory_usage_bytes c)
   }"

section \<open>Sending\<close>

text \<open>The local variables of \<open>get_packets_to_send\<close>, with its two \<open>&mut u64\<close> arguments.\<close>

record send_vars =
  sv_packets :: "packet list"
  sv_small_messages :: "(u64 \<times> bytes) list"
  sv_small_messages_bytes :: usize
  sv_packet_sequence :: u64
  sv_available_bytes :: u64

text \<open>\<open>if let Some(last_sent) = last_sent \{ if current_time - last_sent < resend_time \}\<close>\<close>

definition too_soon :: "duration \<Rightarrow> duration \<Rightarrow> duration option \<Rightarrow> bool option" where
  "too_soon current_time resend_time last_sent = (case last_sent of
     None \<Rightarrow> Some False
   | Some t \<Rightarrow> do { d \<leftarrow> dsub current_time t; Some (d < resend_time) })"

definition push_small :: "u8 \<Rightarrow> send_vars \<Rightarrow> send_vars option" where
  "push_small channel_id v = do {
     sequence \<leftarrow> uadd (sv_packet_sequence v) 1;
     Some (v\<lparr>sv_packets := sv_packets v @
         [SmallReliable (sv_packet_sequence v) channel_id (sv_small_messages v)],
       sv_small_messages := [], sv_small_messages_bytes := 0, sv_packet_sequence := sequence\<rparr>)
   }"

definition send_small ::
    "octets_api \<Rightarrow> u8 \<Rightarrow> duration \<Rightarrow> duration \<Rightarrow> u64 \<Rightarrow> bytes \<Rightarrow> duration option \<Rightarrow> send_vars
     \<Rightarrow> (unacked_message \<times> send_vars) option" where
  "send_small oa channel_id resend_time current_time message_id message last_sent v =
     (if sv_available_bytes v < length message then Some (Small message last_sent, v)
      else do {
        skip \<leftarrow> too_soon current_time resend_time last_sent;
        (if skip then Some (Small message last_sent, v)
         else do {
           available_bytes \<leftarrow> usub (sv_available_bytes v) (length message);
           size1 \<leftarrow> uadd (length message) (varint_len oa (length message));
           serialized_size \<leftarrow> uadd size1 (varint_len oa message_id);
           total \<leftarrow> uadd (sv_small_messages_bytes v) serialized_size;
           v \<leftarrow> (if total > SLICE_SIZE then push_small channel_id v else Some v);
           small_messages_bytes \<leftarrow> uadd (sv_small_messages_bytes v) serialized_size;
           Some (Small message (Some current_time),
             v\<lparr>sv_small_messages_bytes := small_messages_bytes,
               sv_small_messages := sv_small_messages v @ [(message_id, message)],
               sv_available_bytes := available_bytes\<rparr>)
         })
      })"

text \<open>\<open>message.slice(start..end)\<close> for the slice with index \<open>i\<close>.\<close>

definition slice_payload :: "bytes \<Rightarrow> usize \<Rightarrow> usize \<Rightarrow> bytes option" where
  "slice_payload message num_slices i = do {
     start \<leftarrow> umul i SLICE_SIZE;
     last \<leftarrow> usub num_slices 1;
     stop \<leftarrow> (if i = last then Some (length message)
              else do { next \<leftarrow> uadd i 1; umul next SLICE_SIZE });
     vec_slice message start stop
   }"

text \<open>The loop over the slices of one message, \<open>ks\<close> being the rest of \<open>0..num_slices\<close>; the
  state is \<open>last_sent\<close>, \<open>next_slice_to_send\<close> and the variables. Note
  \<open>*next_slice_to_send = i + 1 % *num_slices\<close>, which Rust reads as \<open>i + (1 % num_slices)\<close>.\<close>

fun send_slices ::
    "u8 \<Rightarrow> duration \<Rightarrow> duration \<Rightarrow> u64 \<Rightarrow> bytes \<Rightarrow> usize \<Rightarrow> bool list \<Rightarrow> usize \<Rightarrow> nat list
     \<Rightarrow> duration option list \<times> usize \<times> send_vars
     \<Rightarrow> (duration option list \<times> usize \<times> send_vars) option" where
  "send_slices channel_id resend_time current_time message_id message num_slices acked start_index
     [] st = Some st"
| "send_slices channel_id resend_time current_time message_id message num_slices acked start_index
     (k # ks) (last_sent, next_slice_to_send, v) =
     (if sv_available_bytes v < SLICE_SIZE then Some (last_sent, next_slice_to_send, v)
      else do {
        sum \<leftarrow> uadd start_index k;
        let i = sum mod num_slices;
        is_acked \<leftarrow> vec_get acked i;
        (if is_acked
         then send_slices channel_id resend_time current_time message_id message num_slices acked
                start_index ks (last_sent, next_slice_to_send, v)
         else do {
           sent_at \<leftarrow> vec_get last_sent i;
           skip \<leftarrow> too_soon current_time resend_time sent_at;
           (if skip
            then send_slices channel_id resend_time current_time message_id message num_slices acked
                   start_index ks (last_sent, next_slice_to_send, v)
            else do {
              payload \<leftarrow> slice_payload message num_slices i;
              available_bytes \<leftarrow> usub (sv_available_bytes v) (length payload);
              sequence \<leftarrow> uadd (sv_packet_sequence v) 1;
              last_sent \<leftarrow> vec_set last_sent i (Some current_time);
              next_slice_to_send \<leftarrow> uadd i (1 mod num_slices);
              send_slices channel_id resend_time current_time message_id message num_slices acked
                start_index ks (last_sent, next_slice_to_send,
                  v\<lparr>sv_packets := sv_packets v @
                      [ReliableSlice (sv_packet_sequence v) channel_id
                        \<lparr>sl_message_id = message_id, sl_slice_index = i,
                         sl_num_slices = num_slices, sl_payload = payload\<rparr>],
                    sv_packet_sequence := sequence, sv_available_bytes := available_bytes\<rparr>)
            })
         })
      })"

fun send_unacked ::
    "octets_api \<Rightarrow> u8 \<Rightarrow> duration \<Rightarrow> duration \<Rightarrow> u64 \<Rightarrow> unacked_message \<Rightarrow> send_vars
     \<Rightarrow> (unacked_message \<times> send_vars) option" where
  "send_unacked oa channel_id resend_time current_time message_id (Small message last_sent) v =
     send_small oa channel_id resend_time current_time message_id message last_sent v"
| "send_unacked oa channel_id resend_time current_time message_id
     (Sliced message num_slices num_acked_slices next_slice_to_send acked last_sent) v = do {
     (last_sent', next', v') \<leftarrow>
       send_slices channel_id resend_time current_time message_id message num_slices acked
         next_slice_to_send [0..<num_slices] (last_sent, next_slice_to_send, v);
     Some (Sliced message num_slices num_acked_slices next' acked last_sent', v')
   }"

text \<open>\<open>for (&message_id, unacked_message) in self.unacked_messages.iter_mut()\<close>\<close>

fun send_all ::
    "octets_api \<Rightarrow> u8 \<Rightarrow> duration \<Rightarrow> duration \<Rightarrow> (u64 \<times> unacked_message) list \<Rightarrow> send_vars
     \<Rightarrow> ((u64 \<times> unacked_message) list \<times> send_vars) option" where
  "send_all oa channel_id resend_time current_time [] v = Some ([], v)"
| "send_all oa channel_id resend_time current_time ((message_id, u) # us) v = do {
     (u', v') \<leftarrow> send_unacked oa channel_id resend_time current_time message_id u v;
     (us', v'') \<leftarrow> send_all oa channel_id resend_time current_time us v';
     Some ((message_id, u') # us', v'')
   }"

text \<open>The result: the channel, the packets, and the new values of \<open>packet_sequence\<close> and
  \<open>available_bytes\<close>.\<close>

definition scr_get_packets_to_send ::
    "octets_api \<Rightarrow> send_channel_reliable \<Rightarrow> u64 \<Rightarrow> u64 \<Rightarrow> duration
     \<Rightarrow> (send_channel_reliable \<times> packet list \<times> u64 \<times> u64) option" where
  "scr_get_packets_to_send oa c sequence available_bytes current_time =
     (if scr_unacked_messages c = [] then Some (c, [], sequence, available_bytes)
      else do {
        (unacked_messages, v) \<leftarrow>
          send_all oa (scr_channel_id c) (scr_resend_time c) current_time (scr_unacked_messages c)
            \<lparr>sv_packets = [], sv_small_messages = [], sv_small_messages_bytes = 0,
             sv_packet_sequence = sequence, sv_available_bytes = available_bytes\<rparr>;
        v \<leftarrow> (if sv_small_messages v \<noteq> [] then push_small (scr_channel_id c) v else Some v);
        Some (c\<lparr>scr_unacked_messages := unacked_messages\<rparr>, sv_packets v, sv_packet_sequence v,
          sv_available_bytes v)
      })"

definition scr_send_message ::
    "send_channel_reliable \<Rightarrow> bytes \<Rightarrow> (send_channel_reliable \<times> (channel_error + unit)) option" where
  "scr_send_message c message = do {
     total \<leftarrow> uadd (scr_memory_usage_bytes c) (length message);
     (if total > scr_max_memory_usage_bytes c
      then Some (c, Inl ReliableChannelMaxMemoryReached)
      else do {
        let unacked_message =
          (if length message > SLICE_SIZE then new_sliced message else Small message None);
        next_id \<leftarrow> uadd (scr_next_reliable_message_id c) 1;
        Some (c\<lparr>scr_memory_usage_bytes := total,
            scr_unacked_messages :=
              bt_insert (scr_next_reliable_message_id c) unacked_message (scr_unacked_messages c),
            scr_next_reliable_message_id := next_id\<rparr>, Inr ())
      })
   }"

section \<open>Acknowledgements\<close>

definition scr_process_message_ack :: "send_channel_reliable \<Rightarrow> u64 \<Rightarrow> send_channel_reliable option"
  where
  "scr_process_message_ack c message_id =
     (case bt_get (scr_unacked_messages c) message_id of
        None \<Rightarrow> Some c
      | Some (Sliced _ _ _ _ _ _) \<Rightarrow> None
      | Some (Small payload _) \<Rightarrow> do {
          memory \<leftarrow> usub (scr_memory_usage_bytes c) (length payload);
          Some (c\<lparr>scr_unacked_messages := bt_remove message_id (scr_unacked_messages c),
            scr_memory_usage_bytes := memory\<rparr>)
        })"

definition scr_process_slice_message_ack ::
    "send_channel_reliable \<Rightarrow> u64 \<Rightarrow> usize \<Rightarrow> send_channel_reliable option" where
  "scr_process_slice_message_ack c message_id slice_index =
     (case bt_get (scr_unacked_messages c) message_id of
        None \<Rightarrow> Some c
      | Some (Small _ _) \<Rightarrow> None
      | Some (Sliced message num_slices num_acked_slices next_slice_to_send acked last_sent) \<Rightarrow> do {
          is_acked \<leftarrow> vec_get acked slice_index;
          (if is_acked then Some c
           else do {
             acked \<leftarrow> vec_set acked slice_index True;
             num_acked_slices \<leftarrow> uadd num_acked_slices 1;
             (if num_acked_slices = num_slices
              then do {
                memory \<leftarrow> usub (scr_memory_usage_bytes c) (length message);
                Some (c\<lparr>scr_memory_usage_bytes := memory,
                  scr_unacked_messages := bt_remove message_id (scr_unacked_messages c)\<rparr>)
              }
              else Some (c\<lparr>scr_unacked_messages := bt_insert message_id
                  (Sliced message num_slices num_acked_slices next_slice_to_send acked last_sent)
                  (scr_unacked_messages c)\<rparr>))
           })
        })"

section \<open>The invariant\<close>

fun um_len :: "unacked_message \<Rightarrow> nat" where
  "um_len (Small m _) = length m"
| "um_len (Sliced m _ _ _ _ _) = length m"

definition sent_before :: "duration \<Rightarrow> duration option \<Rightarrow> bool" where
  "sent_before now t \<longleftrightarrow> (case t of None \<Rightarrow> True | Some t \<Rightarrow> t \<le> now)"

text \<open>A stored message: it is sliced exactly when it is longer than a slice, and a sliced one
  has an unacknowledged slice left. \<open>2 ^ 63\<close> is the largest allocation of Rust.\<close>

fun unacked_ok :: "duration \<Rightarrow> unacked_message \<Rightarrow> bool" where
  "unacked_ok now (Small m last_sent) \<longleftrightarrow> length m \<le> SLICE_SIZE \<and> sent_before now last_sent"
| "unacked_ok now (Sliced m n num_acked next acked last_sent) \<longleftrightarrow>
     SLICE_SIZE < length m \<and> length m < 2 ^ 63 \<and> n = div_ceil (length m) SLICE_SIZE
     \<and> next \<le> n \<and> length acked = n \<and> length last_sent = n
     \<and> num_acked = length (filter id acked) \<and> num_acked < n
     \<and> (\<forall>t \<in> set last_sent. sent_before now t)"

definition scr_inv :: "duration \<Rightarrow> send_channel_reliable \<Rightarrow> bool" where
  "scr_inv now c \<longleftrightarrow>
     bt_ok (scr_unacked_messages c)
     \<and> (\<forall>(i, u) \<in> set (scr_unacked_messages c). i < scr_next_reliable_message_id c \<and> unacked_ok now u)
     \<and> scr_memory_usage_bytes c = total_of um_len (scr_unacked_messages c)
     \<and> scr_memory_usage_bytes c \<le> scr_max_memory_usage_bytes c"

lemma sliced_slices_of:
  assumes "unacked_ok now (Sliced m n na nx acked ls)"
  shows "slices_of m n" and "2 \<le> n" and "n \<le> length m"
proof -
  have s: "0 < SLICE_SIZE" by (simp add: SLICE_SIZE_def)
  from assms have m: "SLICE_SIZE < length m" "length m < 2 ^ 63" and n: "n = div_ceil (length m) SLICE_SIZE"
    by auto
  have a: "length m \<le> n * SLICE_SIZE" using div_ceil_mult_ge[OF s] n by simp
  have "0 < length m" using m(1) by linarith
  then have b: "(n - 1) * SLICE_SIZE < length m" using div_ceil_mult_less[OF s] n by simp
  have "0 < n" using a m(1) by (cases n) auto
  moreover have "n * SLICE_SIZE < 2 ^ 64"
    using b m by (auto simp: SLICE_SIZE_def diff_mult_distrib)
  ultimately show "slices_of m n" using a b by (simp add: slices_of_def)
  show "2 \<le> n"
  proof (rule ccontr)
    assume "\<not> 2 \<le> n"
    then have "n * SLICE_SIZE \<le> 1 * SLICE_SIZE" by (intro mult_le_mono1) simp
    with a m(1) show False by simp
  qed
  then show "n \<le> length m" using b by (simp add: SLICE_SIZE_def)
qed

lemma new_sliced_ok:
  "SLICE_SIZE < length m \<Longrightarrow> length m < 2 ^ 63 \<Longrightarrow> unacked_ok now (new_sliced m)"
  using div_ceil_pos[of SLICE_SIZE "length m"]
  by (cases m) (auto simp: new_sliced_def Let_def SLICE_SIZE_def sent_before_def)

lemma um_len_new_sliced [simp]: "um_len (new_sliced m) = length m"
  by (simp add: new_sliced_def Let_def)

lemma scr_inv_later: "scr_inv now c \<Longrightarrow> now \<le> now' \<Longrightarrow> scr_inv now' c"
proof -
  assume c: "scr_inv now c" and t: "now \<le> now'"
  have s: "sent_before now x \<Longrightarrow> sent_before now' x" for x
    using t by (auto simp: sent_before_def split: option.splits)
  have "unacked_ok now u \<Longrightarrow> unacked_ok now' u" for u
    by (cases u) (auto intro: s)
  with c show ?thesis by (fastforce simp: scr_inv_def)
qed

lemma scr_get_ok:
  assumes "scr_inv now c" and "bt_get (scr_unacked_messages c) i = Some u"
  shows "i < scr_next_reliable_message_id c" and "unacked_ok now u"
    and "um_len u \<le> scr_memory_usage_bytes c"
  using assms bt.get_in_set[of "scr_unacked_messages c" i u]
    bt.weight_le_total[of "scr_unacked_messages c" i u um_len]
  by (auto simp: scr_inv_def)

lemma scr_new_inv: "scr_inv now (scr_new ch resend_time mx)"
  by (simp add: scr_inv_def scr_new_def)

text \<open>Removing a message gives its bytes back.\<close>

lemma scr_remove_inv:
  assumes "scr_inv now c" and "bt_get (scr_unacked_messages c) i = Some u"
  shows "scr_inv now (c\<lparr>scr_unacked_messages := bt_remove i (scr_unacked_messages c),
    scr_memory_usage_bytes := scr_memory_usage_bytes c - um_len u\<rparr>)"
  using assms bt.total_remove[of "scr_unacked_messages c" i u um_len]
  by (auto simp: scr_inv_def bt.set_remove)

text \<open>Changing a message without changing its bytes keeps the invariant.\<close>

lemma scr_replace_inv:
  assumes "scr_inv now c" and "bt_get (scr_unacked_messages c) i = Some u"
    and "unacked_ok now u'" and "um_len u' = um_len u"
  shows "scr_inv now (c\<lparr>scr_unacked_messages := bt_insert i u' (scr_unacked_messages c)\<rparr>)"
  using assms scr_get_ok(1)[OF assms(1,2)]
    bt.total_insert_old[of "scr_unacked_messages c" i u um_len u']
  by (auto simp: scr_inv_def bt.set_insert)

lemma scr_insert_inv:
  assumes "scr_inv now c" and "unacked_ok now u"
    and "scr_memory_usage_bytes c + um_len u \<le> scr_max_memory_usage_bytes c"
  shows "scr_inv now (c\<lparr>scr_memory_usage_bytes := scr_memory_usage_bytes c + um_len u,
    scr_unacked_messages := bt_insert (scr_next_reliable_message_id c) u (scr_unacked_messages c),
    scr_next_reliable_message_id := scr_next_reliable_message_id c + 1\<rparr>)"
proof -
  have "bt_get (scr_unacked_messages c) (scr_next_reliable_message_id c) = None"
    using scr_get_ok(1)[OF assms(1)] by (cases "bt_get (scr_unacked_messages c)
      (scr_next_reliable_message_id c)") fastforce+
  with assms show ?thesis
    using bt.total_insert_new[of "scr_unacked_messages c" "scr_next_reliable_message_id c" um_len u]
    by (auto simp: scr_inv_def bt.set_insert)
qed

section \<open>Sending, loop by loop\<close>

definition due :: "duration \<Rightarrow> duration \<Rightarrow> duration option \<Rightarrow> bool" where
  "due now resend_time last_sent \<longleftrightarrow>
     (case last_sent of None \<Rightarrow> True | Some t \<Rightarrow> resend_time \<le> now - t)"

lemma too_soon_due: "sent_before now t \<Longrightarrow> too_soon now resend_time t = Some (\<not> due now resend_time t)"
  by (auto simp: too_soon_def due_def sent_before_def dsub_def split: option.splits)

lemma slice_payload_chunk:
  assumes "slices_of m n" and "i < n"
  shows "slice_payload m n i = Some (msg_chunk m i)"
proof -
  from assms(1) have n: "0 < n" "(n - 1) * SLICE_SIZE \<le> length m" "length m \<le> n * SLICE_SIZE"
    "n * SLICE_SIZE < 2 ^ 64" by (auto simp: slices_of_def)
  have nn: "n < 2 ^ 64" using n(4) by (simp add: SLICE_SIZE_def)
  have iB: "(i + 1) * SLICE_SIZE \<le> n * SLICE_SIZE" using assms(2) by (intro mult_le_mono1) simp
  then have start: "umul i SLICE_SIZE = Some (i * SLICE_SIZE)"
    using n(4) by (simp add: umul_def)
  have last: "usub n 1 = Some (n - 1)" using n(1) by (simp add: usub_def)
  show ?thesis
  proof (cases "i = n - 1")
    case True
    have "length m - (n - 1) * SLICE_SIZE \<le> SLICE_SIZE"
      using n by (cases n) auto
    then have "vec_slice m (i * SLICE_SIZE) (length m) = Some (msg_chunk m i)"
      using n(2) True by (simp add: vec_slice_def msg_chunk_def)
    with True show ?thesis
      unfolding slice_payload_def start last bind.bind_lunit
      by (simp only: bind.bind_lunit if_True simp_thms)
  next
    case False
    then have "(i + 1) * SLICE_SIZE \<le> (n - 1) * SLICE_SIZE"
      using assms(2) by (intro mult_le_mono1) simp
    then have "vec_slice m (i * SLICE_SIZE) ((i + 1) * SLICE_SIZE) = Some (msg_chunk m i)"
      using n(2) by (simp add: vec_slice_def msg_chunk_def)
    moreover have "uadd i 1 = Some (i + 1)" "umul (i + 1) SLICE_SIZE = Some ((i + 1) * SLICE_SIZE)"
      using nn assms(2) iB n(4) by (simp_all add: uadd_def umul_def)
    ultimately show ?thesis
      using False unfolding slice_payload_def by (simp only: start last bind.bind_lunit if_False)
  qed
qed

text \<open>The slice packets for the slice numbers \<open>is\<close> of a message, numbered from \<open>s\<close>.\<close>

definition nth_slice :: "u64 \<Rightarrow> bytes \<Rightarrow> nat \<Rightarrow> nat \<Rightarrow> slice" where
  "nth_slice message_id m n i = \<lparr>sl_message_id = message_id, sl_slice_index = i, sl_num_slices = n,
     sl_payload = msg_chunk m i\<rparr>"

fun slice_packets :: "u8 \<Rightarrow> u64 \<Rightarrow> bytes \<Rightarrow> nat \<Rightarrow> u64 \<Rightarrow> nat list \<Rightarrow> packet list" where
  "slice_packets ch message_id m n s [] = []"
| "slice_packets ch message_id m n s (i # is) =
     ReliableSlice s ch (nth_slice message_id m n i) # slice_packets ch message_id m n (s + 1) is"

definition chunk_bytes :: "bytes \<Rightarrow> nat list \<Rightarrow> nat" where
  "chunk_bytes m is = sum_list (map (length \<circ> msg_chunk m) is)"

lemma chunk_bytes_simps [simp]:
  "chunk_bytes m [] = 0" "chunk_bytes m (i # is) = length (msg_chunk m i) + chunk_bytes m is"
  by (simp_all add: chunk_bytes_def)

definition wanted ::
    "duration \<Rightarrow> duration \<Rightarrow> bool list \<Rightarrow> duration option list \<Rightarrow> nat list \<Rightarrow> nat list" where
  "wanted now resend_time acked ls = filter (\<lambda>i. \<not> acked ! i \<and> due now resend_time (ls ! i))"

text \<open>What the loop over the slices returns, \<open>want\<close> being the numbers of the slices that are to
  be sent: a prefix \<open>sent\<close> of them has become packets, and the others are left only when the
  budget is below a slice.\<close>

definition slices_out ::
    "u8 \<Rightarrow> u64 \<Rightarrow> bytes \<Rightarrow> nat \<Rightarrow> duration \<Rightarrow> duration option list \<Rightarrow> send_vars \<Rightarrow> nat list
     \<Rightarrow> (duration option list \<times> usize \<times> send_vars) option \<Rightarrow> bool" where
  "slices_out ch message_id m n now ls v want r \<longleftrightarrow>
     (\<exists>sent left ls' nx'. want = sent @ left
      \<and> r = Some (ls', nx', v\<lparr>
          sv_packets := sv_packets v @ slice_packets ch message_id m n (sv_packet_sequence v) sent,
          sv_packet_sequence := sv_packet_sequence v + length sent,
          sv_available_bytes := sv_available_bytes v - chunk_bytes m sent\<rparr>)
      \<and> chunk_bytes m sent \<le> sv_available_bytes v \<and> length ls' = n \<and> nx' \<le> n
      \<and> (\<forall>i < n. ls' ! i = (if i \<in> set sent then Some now else ls ! i))
      \<and> (left = [] \<or> sv_available_bytes v - chunk_bytes m sent < SLICE_SIZE))"

lemma slices_out_stop:
  "length ls = n \<Longrightarrow> nx \<le> n \<Longrightarrow> want = [] \<or> sv_available_bytes v < SLICE_SIZE \<Longrightarrow>
   slices_out ch message_id m n now ls v want (Some (ls, nx, v))"
  unfolding slices_out_def by (intro exI[of _ "[]"] exI[of _ want] exI[of _ ls] exI[of _ nx]) auto

lemma slices_out_send:
  assumes "slices_out ch message_id m n now (ls[i := Some now])
      (v\<lparr>sv_packets := sv_packets v @
          [ReliableSlice (sv_packet_sequence v) ch (nth_slice message_id m n i)],
        sv_packet_sequence := sv_packet_sequence v + 1,
        sv_available_bytes := sv_available_bytes v - length (msg_chunk m i)\<rparr>) want r"
    and "length (msg_chunk m i) \<le> sv_available_bytes v" and "length ls = n"
  shows "slices_out ch message_id m n now ls v (i # want) r"
proof -
  let ?v = "v\<lparr>sv_packets := sv_packets v @
      [ReliableSlice (sv_packet_sequence v) ch (nth_slice message_id m n i)],
    sv_packet_sequence := sv_packet_sequence v + 1,
    sv_available_bytes := sv_available_bytes v - length (msg_chunk m i)\<rparr>"
  from assms(1) obtain sent left ls' nx' where "want = sent @ left"
      "r = Some (ls', nx', ?v\<lparr>
          sv_packets := sv_packets ?v @ slice_packets ch message_id m n (sv_packet_sequence ?v) sent,
          sv_packet_sequence := sv_packet_sequence ?v + length sent,
          sv_available_bytes := sv_available_bytes ?v - chunk_bytes m sent\<rparr>)"
      "chunk_bytes m sent \<le> sv_available_bytes ?v" "length ls' = n" "nx' \<le> n"
      "\<forall>x < n. ls' ! x = (if x \<in> set sent then Some now else ls[i := Some now] ! x)"
      "left = [] \<or> sv_available_bytes ?v - chunk_bytes m sent < SLICE_SIZE"
    unfolding slices_out_def by blast
  with assms(2,3) show ?thesis unfolding slices_out_def
    by (intro exI[of _ "i # sent"] exI[of _ left] exI[of _ ls'] exI[of _ nx'])
      (auto simp: nth_list_update)
qed

text \<open>The loop sends, in its order, the slices that are unacknowledged and due, up to the
  first one the budget does not allow.\<close>

lemma send_slices_spec:
  assumes m: "slices_of m n" "2 \<le> n" and len: "length acked = n" "length ls = n" "nx \<le> n"
    and before: "\<forall>t \<in> set ls. sent_before now t"
    and ks: "distinct (map (\<lambda>k. (start + k) mod n) ks)" "\<forall>k \<in> set ks. start + k < 2 ^ 64"
    and seq: "sv_packet_sequence v + length ks < 2 ^ 64"
  shows "slices_out ch message_id m n now ls v
    (wanted now resend_time acked ls (map (\<lambda>k. (start + k) mod n) ks))
    (send_slices ch resend_time now message_id m n acked start ks (ls, nx, v))"
  using len before ks seq unfolding wanted_def
proof (induction ks arbitrary: ls nx v)
  case Nil
  then show ?case by (simp add: slices_out_stop)
next
  case (Cons k ks)
  define i where "i = (start + k) mod n"
  let ?idx = "map (\<lambda>k. (start + k) mod n) ks"
  let ?P = "\<lambda>ls i. \<not> acked ! i \<and> due now resend_time (ls ! i)"
  have i: "i < n" using m(2) by (simp add: i_def)
  have steps: "uadd start k = Some (start + k)" "vec_get acked i = Some (acked ! i)"
    "vec_get ls i = Some (ls ! i)"
    "too_soon now resend_time (ls ! i) = Some (\<not> due now resend_time (ls ! i))"
    using Cons.prems i by (auto simp: uadd_def vec_get_def intro: too_soon_due)
  show ?case
  proof (cases "sv_available_bytes v < SLICE_SIZE")
    case True
    with Cons.prems show ?thesis by (simp add: slices_out_stop)
  next
    case av: False
    show ?thesis
    proof (cases "?P ls i")
      case False
      then have "send_slices ch resend_time now message_id m n acked start (k # ks) (ls, nx, v) =
          send_slices ch resend_time now message_id m n acked start ks (ls, nx, v)"
        using av steps by (auto simp: i_def[symmetric] Let_def)
      with False show ?thesis
        using Cons.IH[of ls nx v] Cons.prems by (auto simp: i_def simp del: send_slices.simps)
    next
      case True
      let ?v = "v\<lparr>sv_packets := sv_packets v @
            [ReliableSlice (sv_packet_sequence v) ch (nth_slice message_id m n i)],
          sv_packet_sequence := sv_packet_sequence v + 1,
          sv_available_bytes := sv_available_bytes v - length (msg_chunk m i)\<rparr>"
      let ?ls = "ls[i := Some now]"
      have c: "length (msg_chunk m i) \<le> SLICE_SIZE" by (simp add: msg_chunk_def)
      have "n < 2 ^ 64" using m(1) by (simp add: slices_of_def SLICE_SIZE_def)
      then have ops: "usub (sv_available_bytes v) (length (msg_chunk m i)) =
            Some (sv_available_bytes v - length (msg_chunk m i))"
          "uadd (sv_packet_sequence v) 1 = Some (sv_packet_sequence v + 1)"
          "vec_set ls i (Some now) = Some ?ls" "uadd i (1 mod n) = Some (i + 1)"
        using c av i Cons.prems m(2) by (auto simp: usub_def uadd_def vec_set_def)
      have run: "send_slices ch resend_time now message_id m n acked start (k # ks) (ls, nx, v) =
          send_slices ch resend_time now message_id m n acked start ks (?ls, i + 1, ?v)"
        using av steps True ops slice_payload_chunk[OF m(1) i]
        by (simp add: i_def[symmetric] Let_def nth_slice_def del: One_nat_def)
      have "i \<notin> set ?idx" using Cons.prems(5) by (auto simp: i_def)
      then have "filter (?P ?ls) ?idx = filter (?P ls) ?idx"
        by (intro filter_cong refl) (metis nth_list_update_neq)
      moreover have "\<forall>t \<in> set ?ls. sent_before now t"
        using Cons.prems(4) set_update_subset_insert[of ls i "Some now"]
        by (auto simp: sent_before_def)
      ultimately have "slices_out ch message_id m n now ?ls ?v (filter (?P ls) ?idx)
          (send_slices ch resend_time now message_id m n acked start ks (?ls, i + 1, ?v))"
        using Cons.IH[of ?ls "i + 1" ?v] Cons.prems i by simp
      then have "slices_out ch message_id m n now ls v (i # filter (?P ls) ?idx)
          (send_slices ch resend_time now message_id m n acked start ks (?ls, i + 1, ?v))"
        using c av Cons.prems(2) by (intro slices_out_send) auto
      with run True show ?thesis by (simp add: i_def del: send_slices.simps)
    qed
  qed
qed

section \<open>What is sent\<close>

fun packet_smalls :: "packet \<Rightarrow> (u64 \<times> bytes) list" where
  "packet_smalls (SmallReliable _ _ ms) = ms"
| "packet_smalls _ = []"

fun packet_slices :: "packet \<Rightarrow> slice list" where
  "packet_slices (ReliableSlice _ _ s) = [s]"
| "packet_slices _ = []"

definition smalls :: "packet list \<Rightarrow> (u64 \<times> bytes) list" where
  "smalls ps = concat (map packet_smalls ps)"

definition slices :: "packet list \<Rightarrow> slice list" where
  "slices ps = concat (map packet_slices ps)"

definition sent_bytes :: "(u64 \<times> bytes) list \<Rightarrow> slice list \<Rightarrow> nat" where
  "sent_bytes sm ss = sum_list (map (length \<circ> snd) sm) + sum_list (map (length \<circ> sl_payload) ss)"

lemma content_simps [simp]:
  "smalls [] = []" "slices [] = []"
  "smalls (ps @ qs) = smalls ps @ smalls qs" "slices (ps @ qs) = slices ps @ slices qs"
  "smalls [SmallReliable s ch ms] = ms" "slices [SmallReliable s ch ms] = []"
  by (simp_all add: smalls_def slices_def)

lemma content_slice_packets [simp]:
  "smalls (slice_packets ch i m n s is) = []"
  "slices (slice_packets ch i m n s is) = map (nth_slice i m n) is"
  "map packet_sequence (slice_packets ch i m n s is) = [s..<s + length is]"
  by (induction "is" arbitrary: s) (auto simp: smalls_def slices_def upt_rec)

lemma sent_bytes_simps [simp]:
  "sent_bytes [] [] = 0"
  "sent_bytes (sm @ sm') (ss @ ss') = sent_bytes sm ss + sent_bytes sm' ss'"
  by (auto simp: sent_bytes_def)

lemma sent_bytes_slices: "sent_bytes [] (map (nth_slice i m n) is) = chunk_bytes m is"
  by (auto simp: sent_bytes_def chunk_bytes_def nth_slice_def comp_def)

text \<open>The sizes of the messages of a packet of small messages, as the code counts them.\<close>

definition messages_size :: "octets_api \<Rightarrow> (u64 \<times> bytes) list \<Rightarrow> nat" where
  "messages_size oa ms =
     sum_list (map (\<lambda>(i, m). length m + varint_len oa (length m) + varint_len oa i) ms)"

fun reliable_shape :: "octets_api \<Rightarrow> u8 \<Rightarrow> packet \<Rightarrow> bool" where
  "reliable_shape oa ch (SmallReliable _ c ms) \<longleftrightarrow>
     c = ch \<and> messages_size oa ms \<le> SLICE_SIZE + 10 \<and> length ms \<le> messages_size oa ms"
| "reliable_shape oa ch (ReliableSlice _ c s) \<longleftrightarrow> c = ch"
| "reliable_shape oa ch _ \<longleftrightarrow> False"

text \<open>The invariant of the loop over the messages, started with the sequence number \<open>s0\<close> and
  the budget \<open>a0\<close>.\<close>

definition sv_inv :: "octets_api \<Rightarrow> u8 \<Rightarrow> u64 \<Rightarrow> u64 \<Rightarrow> send_vars \<Rightarrow> bool" where
  "sv_inv oa ch s0 a0 v \<longleftrightarrow>
     s0 \<le> sv_packet_sequence v \<and> map packet_sequence (sv_packets v) = [s0..<sv_packet_sequence v]
     \<and> sv_available_bytes v + sent_bytes (smalls (sv_packets v) @ sv_small_messages v)
         (slices (sv_packets v)) = a0
     \<and> sv_small_messages_bytes v = messages_size oa (sv_small_messages v)
     \<and> sv_small_messages_bytes v \<le> SLICE_SIZE + 10
     \<and> length (sv_small_messages v) \<le> sv_small_messages_bytes v
     \<and> (\<forall>p \<in> set (sv_packets v). reliable_shape oa ch p)"

text \<open>The specification of one message: what \<open>send_unacked\<close> does to it with a budget \<open>a\<close>, the
  small messages \<open>sm\<close> and the slices \<open>ss\<close> it puts into packets.\<close>

fun sends :: "duration \<Rightarrow> duration \<Rightarrow> nat \<Rightarrow> u64 \<Rightarrow> unacked_message \<Rightarrow> unacked_message
    \<Rightarrow> (u64 \<times> bytes) list \<Rightarrow> slice list \<Rightarrow> bool" where
  "sends now resend_time a message_id (Small m last_sent) u' sm ss \<longleftrightarrow>
     ss = [] \<and> (if due now resend_time last_sent \<and> length m \<le> a
       then sm = [(message_id, m)] \<and> u' = Small m (Some now)
       else sm = [] \<and> u' = Small m last_sent)"
| "sends now resend_time a message_id (Sliced m n num_acked next acked last_sent) u' sm ss \<longleftrightarrow>
     sm = [] \<and> (\<exists>sent left last_sent' next'. distinct (sent @ left)
       \<and> set (sent @ left) = {i. i < n \<and> \<not> acked ! i \<and> due now resend_time (last_sent ! i)}
       \<and> ss = map (nth_slice message_id m n) sent
       \<and> u' = Sliced m n num_acked next' acked last_sent'
       \<and> length last_sent' = n \<and> next' \<le> n
       \<and> (\<forall>i < n. last_sent' ! i = (if i \<in> set sent then Some now else last_sent ! i))
       \<and> chunk_bytes m sent \<le> a
       \<and> (left = [] \<or> a - chunk_bytes m sent < SLICE_SIZE))"

text \<open>The specification of a tick: the messages in the order of their ids.\<close>

fun sends_all :: "duration \<Rightarrow> duration \<Rightarrow> nat \<Rightarrow> (u64 \<times> unacked_message) list
    \<Rightarrow> (u64 \<times> unacked_message) list \<Rightarrow> (u64 \<times> bytes) list \<Rightarrow> slice list \<Rightarrow> bool" where
  "sends_all now resend_time a [] us' sm ss \<longleftrightarrow> us' = [] \<and> sm = [] \<and> ss = []"
| "sends_all now resend_time a ((i, u) # us) us' sm ss \<longleftrightarrow>
     (\<exists>u1 us1 sm1 sm2 ss1 ss2. us' = (i, u1) # us1 \<and> sm = sm1 @ sm2 \<and> ss = ss1 @ ss2
       \<and> sends now resend_time a i u u1 sm1 ss1
       \<and> sends_all now resend_time (a - sent_bytes sm1 ss1) us us1 sm2 ss2)"

text \<open>The sequence numbers a message may need.\<close>

fun send_cost :: "unacked_message \<Rightarrow> nat" where
  "send_cost (Small _ _) = 1"
| "send_cost (Sliced _ n _ _ _ _) = n"

lemma distinct_rotate_upt: "distinct (map (\<lambda>k. (start + k) mod n) [0..<n])" for start n :: nat
proof (cases "n = 0")
  case False
  have less: "x = y" if "(start + x) mod n = (start + y) mod n" "y \<le> x" "x < n" for x y
  proof -
    have "start + y \<le> start + x" using that(2) by simp
    from mod_eq_nat1E[OF that(1) this] obtain s where "start + x = start + y + n * s" by blast
    with that(3) show ?thesis by (cases s) auto
  qed
  have "inj_on (\<lambda>k. (start + k) mod n) {0..<n}"
    by (rule inj_onI) (metis atLeastLessThan_iff less linear)
  then show ?thesis by (simp add: distinct_map)
qed simp

lemma set_rotate_upt: "0 < n \<Longrightarrow> set (map (\<lambda>k. (start + k) mod n) [0..<n]) = {..<n}" for start n :: nat
proof (rule card_subset_eq)
  assume "0 < n"
  then show "set (map (\<lambda>k. (start + k) mod n) [0..<n]) \<subseteq> {..<n}" by auto
  show "card (set (map (\<lambda>k. (start + k) mod n) [0..<n])) = card {..<n}"
    using distinct_card[OF distinct_rotate_upt] by simp
qed simp


context octets_contract
begin

lemma serialized_size_le:
  assumes "length m \<le> SLICE_SIZE" and "i < 2 ^ 62"
  shows "length m + varint_len oa (length m) + varint_len oa i \<le> SLICE_SIZE + 10"
    and "1 \<le> length m + varint_len oa (length m) + varint_len oa i"
  using assms varint_len_small[of "length m"] varint_len_le[of i] varint_len_pos[of i]
  by (auto simp: SLICE_SIZE_def)

lemma push_small_inv:
  assumes "sv_inv oa ch s0 a0 v" and "sv_packet_sequence v + 1 < 2 ^ 64"
  shows "\<exists>v'. push_small ch v = Some v' \<and> sv_inv oa ch s0 a0 v'
    \<and> sv_small_messages v' = [] \<and> sv_small_messages_bytes v' = 0
    \<and> sv_available_bytes v' = sv_available_bytes v
    \<and> smalls (sv_packets v') = smalls (sv_packets v) @ sv_small_messages v
    \<and> slices (sv_packets v') = slices (sv_packets v)
    \<and> sv_packet_sequence v' = sv_packet_sequence v + 1"
  using assms by (auto simp: push_small_def uadd_def sv_inv_def messages_size_def)

lemma sv_add_small:
  assumes "sv_inv oa ch s0 a0 v" and "length m \<le> sv_available_bytes v"
    and "sv_small_messages_bytes v + (length m + varint_len oa (length m) + varint_len oa i)
      \<le> SLICE_SIZE + 10" and "i < 2 ^ 62"
  shows "sv_inv oa ch s0 a0 (v\<lparr>
    sv_small_messages_bytes := sv_small_messages_bytes v
      + (length m + varint_len oa (length m) + varint_len oa i),
    sv_small_messages := sv_small_messages v @ [(i, m)],
    sv_available_bytes := sv_available_bytes v - length m\<rparr>)"
  using assms varint_len_pos[of i]
  by (auto simp: sv_inv_def messages_size_def sent_bytes_def)

lemma send_small_spec:
  assumes v: "sv_inv oa ch s0 a0 v" "sv_packet_sequence v + 1 < 2 ^ 64"
    and m: "length m \<le> SLICE_SIZE" "i < 2 ^ 62" "sent_before now ls"
  shows "\<exists>u' v' sm. send_small oa ch resend_time now i m ls v = Some (u', v')
    \<and> sends now resend_time (sv_available_bytes v) i (Small m ls) u' sm []
    \<and> sv_inv oa ch s0 a0 v'
    \<and> smalls (sv_packets v') @ sv_small_messages v' = (smalls (sv_packets v) @ sv_small_messages v) @ sm
    \<and> slices (sv_packets v') = slices (sv_packets v)
    \<and> sv_packet_sequence v' \<le> sv_packet_sequence v + 1"
proof (cases "due now resend_time ls \<and> length m \<le> sv_available_bytes v")
  case False
  with m(3) v(1) show ?thesis
    by (auto simp: send_small_def too_soon_due)
next
  case True
  let ?size = "length m + varint_len oa (length m) + varint_len oa i"
  define v1 where "v1 = (if sv_small_messages_bytes v + ?size > SLICE_SIZE
    then push_small ch v else Some v)"
  obtain w where w: "v1 = Some w" "sv_inv oa ch s0 a0 w"
    "sv_available_bytes w = sv_available_bytes v"
    "smalls (sv_packets w) @ sv_small_messages w = smalls (sv_packets v) @ sv_small_messages v"
    "slices (sv_packets w) = slices (sv_packets v)"
    "sv_packet_sequence w \<le> sv_packet_sequence v + 1"
    "sv_small_messages_bytes w + ?size \<le> SLICE_SIZE + 10"
    using push_small_inv[OF v] v(1) serialized_size_le[OF m(1,2)]
    unfolding v1_def by (cases "sv_small_messages_bytes v + ?size > SLICE_SIZE") auto
  have b: "sv_small_messages_bytes v \<le> SLICE_SIZE + 10" using v(1) by (simp add: sv_inv_def)
  have "send_small oa ch resend_time now i m ls v = Some (Small m (Some now),
      w\<lparr>sv_small_messages_bytes := sv_small_messages_bytes w + ?size,
        sv_small_messages := sv_small_messages w @ [(i, m)],
        sv_available_bytes := sv_available_bytes w - length m\<rparr>)"
    using True m(3) w(1,3,7) b serialized_size_le[OF m(1,2)] unfolding v1_def
    by (auto simp: send_small_def too_soon_due usub_def uadd_def SLICE_SIZE_def)
  moreover have "sends now resend_time (sv_available_bytes v) i (Small m ls) (Small m (Some now))
      [(i, m)] []"
    using True by simp
  ultimately show ?thesis using sv_add_small[OF w(2) _ w(7) m(2)] w True by auto
qed

end

lemma reliable_shape_slices: "\<forall>p \<in> set (slice_packets ch i m n s is). reliable_shape oa ch p"
  by (induction "is" arbitrary: s) auto

lemma send_sliced_spec:
  assumes u: "unacked_ok now (Sliced m n na nx acked ls)"
    and v: "sv_inv oa ch s0 a0 v" "sv_packet_sequence v + n < 2 ^ 64"
  shows "\<exists>u' v' ss. send_unacked oa ch resend_time now i (Sliced m n na nx acked ls) v = Some (u', v')
    \<and> sends now resend_time (sv_available_bytes v) i (Sliced m n na nx acked ls) u' [] ss
    \<and> sv_inv oa ch s0 a0 v'
    \<and> smalls (sv_packets v') @ sv_small_messages v' = smalls (sv_packets v) @ sv_small_messages v
    \<and> slices (sv_packets v') = slices (sv_packets v) @ ss
    \<and> sv_packet_sequence v' \<le> sv_packet_sequence v + n"
proof -
  let ?idx = "map (\<lambda>k. (nx + k) mod n) [0..<n]"
  note m = sliced_slices_of[OF u]
  have nx: "nx \<le> n" "length acked = n" "length ls = n" "\<forall>t \<in> set ls. sent_before now t"
    using u by auto
  have "n * SLICE_SIZE < 2 ^ 64" using m(1) by (simp add: slices_of_def)
  then have "\<forall>k \<in> set [0..<n]. nx + k < 2 ^ 64" using nx(1) by (auto simp: SLICE_SIZE_def)
  with send_slices_spec[OF m(1,2) nx(2,3,1,4) distinct_rotate_upt] v(2)
  have "slices_out ch i m n now ls v (wanted now resend_time acked ls ?idx)
      (send_slices ch resend_time now i m n acked nx [0..<n] (ls, nx, v))" by simp
  then obtain sent left ls' nx' where out: "wanted now resend_time acked ls ?idx = sent @ left"
      "send_slices ch resend_time now i m n acked nx [0..<n] (ls, nx, v) = Some (ls', nx', v\<lparr>
          sv_packets := sv_packets v @ slice_packets ch i m n (sv_packet_sequence v) sent,
          sv_packet_sequence := sv_packet_sequence v + length sent,
          sv_available_bytes := sv_available_bytes v - chunk_bytes m sent\<rparr>)"
      "chunk_bytes m sent \<le> sv_available_bytes v" "length ls' = n" "nx' \<le> n"
      "\<forall>x < n. ls' ! x = (if x \<in> set sent then Some now else ls ! x)"
      "left = [] \<or> sv_available_bytes v - chunk_bytes m sent < SLICE_SIZE"
    unfolding slices_out_def by blast
  have dist: "distinct (sent @ left)"
    unfolding out(1)[symmetric] wanted_def by (rule distinct_filter[OF distinct_rotate_upt])
  have "set ?idx = {..<n}" using set_rotate_upt[of n nx] m(2) by simp
  then have st: "set (sent @ left) = {i. i < n \<and> \<not> acked ! i \<and> due now resend_time (ls ! i)}"
    unfolding out(1)[symmetric] wanted_def set_filter by blast
  have "length (sent @ left) \<le> length ?idx"
    unfolding out(1)[symmetric] wanted_def by (rule length_filter_le)
  then have "length sent \<le> n" by simp
  define v' where "v' = v\<lparr>
          sv_packets := sv_packets v @ slice_packets ch i m n (sv_packet_sequence v) sent,
          sv_packet_sequence := sv_packet_sequence v + length sent,
          sv_available_bytes := sv_available_bytes v - chunk_bytes m sent\<rparr>"
  have s0: "s0 \<le> sv_packet_sequence v" using v(1) by (simp add: sv_inv_def)
  have inv: "sv_inv oa ch s0 a0 v'"
    using v(1) out(3) sent_bytes_slices[of i m n sent]
      reliable_shape_slices[of ch i m n "sv_packet_sequence v" sent oa]
    by (auto simp: v'_def sv_inv_def upt_add_eq_append[OF s0] sent_bytes_def)
  have spec: "sends now resend_time (sv_available_bytes v) i (Sliced m n na nx acked ls)
      (Sliced m n na nx' acked ls') [] (map (nth_slice i m n) sent)"
    using out(3-7) dist st unfolding sends.simps
    by (intro conjI exI[of _ sent] exI[of _ left] exI[of _ ls'] exI[of _ nx']) simp_all
  have run: "send_unacked oa ch resend_time now i (Sliced m n na nx acked ls) v =
      Some (Sliced m n na nx' acked ls', v')"
    using out(2) by (simp add: v'_def)
  show ?thesis
    using \<open>length sent \<le> n\<close> inv spec run
    by (intro exI[of _ "Sliced m n na nx' acked ls'"] exI[of _ v'] exI[of _ "map (nth_slice i m n) sent"])
      (simp add: v'_def del: sends.simps send_unacked.simps)
qed

context octets_contract
begin

lemma send_unacked_spec:
  assumes u: "unacked_ok now u" "i < 2 ^ 62"
    and v: "sv_inv oa ch s0 a0 v" "sv_packet_sequence v + send_cost u < 2 ^ 64"
  shows "\<exists>u' v' sm ss. send_unacked oa ch resend_time now i u v = Some (u', v')
    \<and> sends now resend_time (sv_available_bytes v) i u u' sm ss
    \<and> sv_inv oa ch s0 a0 v'
    \<and> smalls (sv_packets v') @ sv_small_messages v' = (smalls (sv_packets v) @ sv_small_messages v) @ sm
    \<and> slices (sv_packets v') = slices (sv_packets v) @ ss
    \<and> sv_packet_sequence v' \<le> sv_packet_sequence v + send_cost u"
proof (cases u)
  case (Small m ls)
  with assms obtain u' v' sm where "send_small oa ch resend_time now i m ls v = Some (u', v')"
    "sends now resend_time (sv_available_bytes v) i (Small m ls) u' sm []" "sv_inv oa ch s0 a0 v'"
    "smalls (sv_packets v') @ sv_small_messages v' = (smalls (sv_packets v) @ sv_small_messages v) @ sm"
    "slices (sv_packets v') = slices (sv_packets v)"
    "sv_packet_sequence v' \<le> sv_packet_sequence v + 1"
    using send_small_spec[OF v(1) _ _ u(2), of m now ls resend_time] by auto
  with Small show ?thesis
    by (intro exI[of _ u'] exI[of _ v'] exI[of _ sm] exI[of _ "[]"]) simp
next
  case (Sliced m n na nx acked ls)
  then obtain u' v' ss where "send_unacked oa ch resend_time now i u v = Some (u', v')"
    "sends now resend_time (sv_available_bytes v) i u u' [] ss" "sv_inv oa ch s0 a0 v'"
    "smalls (sv_packets v') @ sv_small_messages v' = smalls (sv_packets v) @ sv_small_messages v"
    "slices (sv_packets v') = slices (sv_packets v) @ ss"
    "sv_packet_sequence v' \<le> sv_packet_sequence v + n"
    using send_sliced_spec[of now m n na nx acked ls oa ch s0 a0 v resend_time i] assms
    by (auto simp del: sends.simps)
  with Sliced show ?thesis
    by (intro exI[of _ u'] exI[of _ v'] exI[of _ "[]"] exI[of _ ss]) simp
qed

text \<open>The loop implements the specification of a tick.\<close>

lemma send_all_spec:
  assumes "\<forall>(i, u) \<in> set us. unacked_ok now u \<and> i < 2 ^ 62"
    and "sv_inv oa ch s0 a0 v" and "sv_packet_sequence v + total_of send_cost us < 2 ^ 64"
  shows "\<exists>us' v' sm ss. send_all oa ch resend_time now us v = Some (us', v')
    \<and> sends_all now resend_time (sv_available_bytes v) us us' sm ss
    \<and> sv_inv oa ch s0 a0 v'
    \<and> smalls (sv_packets v') @ sv_small_messages v' = (smalls (sv_packets v) @ sv_small_messages v) @ sm
    \<and> slices (sv_packets v') = slices (sv_packets v) @ ss
    \<and> sv_packet_sequence v' \<le> sv_packet_sequence v + total_of send_cost us"
  using assms
proof (induction us arbitrary: v)
  case Nil
  then show ?case by auto
next
  case (Cons e us)
  obtain i u where e: "e = (i, u)" by (cases e)
  from Cons.prems e obtain u' v1 sm1 ss1 where
    1: "send_unacked oa ch resend_time now i u v = Some (u', v1)"
      "sends now resend_time (sv_available_bytes v) i u u' sm1 ss1" "sv_inv oa ch s0 a0 v1"
      "smalls (sv_packets v1) @ sv_small_messages v1 = (smalls (sv_packets v) @ sv_small_messages v) @ sm1"
      "slices (sv_packets v1) = slices (sv_packets v) @ ss1"
      "sv_packet_sequence v1 \<le> sv_packet_sequence v + send_cost u"
    using send_unacked_spec[of now u i ch s0 a0 v resend_time] by auto
  from Cons.IH[of v1] 1(3,6) Cons.prems e obtain us' v2 sm2 ss2 where
    2: "send_all oa ch resend_time now us v1 = Some (us', v2)"
      "sends_all now resend_time (sv_available_bytes v1) us us' sm2 ss2" "sv_inv oa ch s0 a0 v2"
      "smalls (sv_packets v2) @ sv_small_messages v2 = (smalls (sv_packets v1) @ sv_small_messages v1) @ sm2"
      "slices (sv_packets v2) = slices (sv_packets v1) @ ss2"
      "sv_packet_sequence v2 \<le> sv_packet_sequence v1 + total_of send_cost us" by auto
  have "sv_available_bytes v1 = sv_available_bytes v - sent_bytes sm1 ss1"
    using 1(3) Cons.prems(2) unfolding sv_inv_def 1(4,5)
    by (elim conjE) (simp add: sent_bytes_def)
  with 1 2 e show ?case
    by (intro exI[of _ "(i, u') # us'"] exI[of _ v2] exI[of _ "sm1 @ sm2"] exI[of _ "ss1 @ ss2"]) auto
qed

lemma get_packets_spec:
  assumes c: "scr_inv now c" "scr_next_reliable_message_id c \<le> 2 ^ 62"
    and s: "s + total_of send_cost (scr_unacked_messages c) + 1 < 2 ^ 64"
  shows "\<exists>us' ps s' a'. scr_get_packets_to_send oa c s a now =
      Some (c\<lparr>scr_unacked_messages := us'\<rparr>, ps, s', a')
    \<and> sends_all now (scr_resend_time c) a (scr_unacked_messages c) us' (smalls ps) (slices ps)
    \<and> s \<le> s' \<and> map packet_sequence ps = [s..<s']
    \<and> a' + sent_bytes (smalls ps) (slices ps) = a
    \<and> (\<forall>p \<in> set ps. reliable_shape oa (scr_channel_id c) p)
    \<and> s' \<le> s + total_of send_cost (scr_unacked_messages c) + 1"
proof (cases "scr_unacked_messages c = []")
  case True
  then show ?thesis by (auto simp: scr_get_packets_to_send_def intro!: exI[of _ "[]"])
next
  case False
  let ?us = "scr_unacked_messages c" and ?ch = "scr_channel_id c"
  let ?v = "\<lparr>sv_packets = [], sv_small_messages = [], sv_small_messages_bytes = 0,
    sv_packet_sequence = s, sv_available_bytes = a\<rparr>"
  have "sv_inv oa ?ch s a ?v" by (simp add: sv_inv_def messages_size_def)
  moreover have "\<forall>(i, u) \<in> set ?us. unacked_ok now u \<and> i < 2 ^ 62"
    using c by (fastforce simp: scr_inv_def)
  ultimately obtain us' v sm ss where
    1: "send_all oa ?ch (scr_resend_time c) now ?us ?v = Some (us', v)"
      "sends_all now (scr_resend_time c) a ?us us' sm ss" "sv_inv oa ?ch s a v"
      "smalls (sv_packets v) @ sv_small_messages v = sm" "slices (sv_packets v) = ss"
      "sv_packet_sequence v \<le> s + total_of send_cost ?us"
    using send_all_spec[of ?us now ?ch s a ?v "scr_resend_time c"] s by auto
  then obtain w where "(if sv_small_messages v \<noteq> [] then push_small ?ch v else Some v) = Some w"
    "sv_inv oa ?ch s a w" "sv_small_messages w = []" "smalls (sv_packets w) = sm"
    "slices (sv_packets w) = ss" "sv_packet_sequence w \<le> s + total_of send_cost ?us + 1"
    using push_small_inv[OF 1(3)] s by (cases "sv_small_messages v = []") auto
  with 1 False show ?thesis
    by (auto simp: scr_get_packets_to_send_def sv_inv_def)
qed

end

section \<open>Consequences of the specification\<close>

lemma chunk_lengths: "(\<Sum>i<n. length (msg_chunk m i)) = min (n * SLICE_SIZE) (length m)"
  by (induction n) (auto simp: msg_chunk_def min_def)

lemma chunk_bytes_le: "distinct is \<Longrightarrow> set is \<subseteq> {..<n} \<Longrightarrow> chunk_bytes m is \<le> length m"
proof -
  assume "distinct is" and sub: "set is \<subseteq> {..<n}"
  then have "chunk_bytes m is = (\<Sum>i\<in>set is. length (msg_chunk m i))"
    by (simp add: chunk_bytes_def sum_list_distinct_conv_sum_set comp_def)
  also have "\<dots> \<le> (\<Sum>i<n. length (msg_chunk m i))" using sub by (intro sum_mono2) auto
  finally show ?thesis by (simp add: chunk_lengths)
qed

lemma sends_ok:
  assumes "sends now resend_time a i u u' sm ss" and "unacked_ok now u"
  shows "unacked_ok now u'" and "um_len u' = um_len u" and "sent_bytes sm ss \<le> um_len u"
proof -
  have "unacked_ok now u' \<and> um_len u' = um_len u \<and> sent_bytes sm ss \<le> um_len u"
  proof (cases u)
    case (Small m ls)
    with assms show ?thesis by (auto simp: sent_before_def sent_bytes_def split: if_splits)
  next
    case (Sliced m n na nx acked ls)
    from assms(1)[unfolded Sliced sends.simps] obtain sent left ls' nx' where s: "distinct (sent @ left)"
      "set (sent @ left) = {i. i < n \<and> \<not> acked ! i \<and> due now resend_time (ls ! i)}"
      "ss = map (nth_slice i m n) sent" "u' = Sliced m n na nx' acked ls'" "length ls' = n"
      "nx' \<le> n" "\<forall>i < n. ls' ! i = (if i \<in> set sent then Some now else ls ! i)" "sm = []"
      by blast
    have "\<forall>t \<in> set ls'. sent_before now t"
    proof
      fix t assume "t \<in> set ls'"
      then obtain k where k: "k < n" "t = ls' ! k" using s(5) by (metis in_set_conv_nth)
      have "sent_before now (ls ! k)" using assms(2) Sliced k(1) by (simp add: nth_mem)
      with s(7) k show "sent_before now t" by (simp add: sent_before_def)
    qed
    moreover have "chunk_bytes m sent \<le> length m"
      using s(1,2) by (intro chunk_bytes_le[of _ n]) auto
    ultimately show ?thesis using assms(2) Sliced s by (auto simp: sent_bytes_slices)
  qed
  then show "unacked_ok now u'" "um_len u' = um_len u" "sent_bytes sm ss \<le> um_len u" by simp_all
qed

lemma sends_all_ok:
  assumes "sends_all now resend_time a us us' sm ss" and "\<forall>e \<in> set us. unacked_ok now (snd e)"
  shows "map fst us' = map fst us" and "total_of um_len us' = total_of um_len us"
    and "\<forall>e \<in> set us'. unacked_ok now (snd e)"
proof -
  have "map fst us' = map fst us \<and> total_of um_len us' = total_of um_len us
    \<and> (\<forall>e \<in> set us'. unacked_ok now (snd e))"
    using assms
  proof (induction us arbitrary: a us' sm ss)
    case (Cons e us)
    obtain i u where e: "e = (i, u)" by (cases e)
    from Cons.prems e obtain u1 us1 sm1 sm2 ss1 ss2 where 1: "us' = (i, u1) # us1"
      "sends now resend_time a i u u1 sm1 ss1"
      "sends_all now resend_time (a - sent_bytes sm1 ss1) us us1 sm2 ss2" by auto
    with Cons.IH[OF 1(3)] Cons.prems(2) sends_ok[OF 1(2)] e show ?case by auto
  qed simp
  then show "map fst us' = map fst us" "total_of um_len us' = total_of um_len us"
    "\<forall>e \<in> set us'. unacked_ok now (snd e)" by blast+
qed

text \<open>The messages and slices that a tick has to send: those that are kept, unacknowledged,
  and never sent or sent at least the resend time ago.\<close>

definition due_smalls ::
    "duration \<Rightarrow> duration \<Rightarrow> (u64 \<times> unacked_message) list \<Rightarrow> (u64 \<times> bytes) set" where
  "due_smalls now resend_time us =
     {(i, m). \<exists>ls. (i, Small m ls) \<in> set us \<and> due now resend_time ls}"

definition due_slices :: "duration \<Rightarrow> duration \<Rightarrow> (u64 \<times> unacked_message) list \<Rightarrow> slice set" where
  "due_slices now resend_time us =
     {s. \<exists>i m n na nx acked ls k. (i, Sliced m n na nx acked ls) \<in> set us
        \<and> k < n \<and> \<not> acked ! k \<and> due now resend_time (ls ! k) \<and> s = nth_slice i m n k}"

lemma due_Nil: "due_smalls now rt [] = {}" "due_slices now rt [] = {}"
  by (auto simp: due_smalls_def due_slices_def)

lemma due_smalls_Cons: "due_smalls now rt (e # us) = due_smalls now rt [e] \<union> due_smalls now rt us"
  by (auto simp: due_smalls_def)

lemma due_slices_Cons: "due_slices now rt (e # us) = due_slices now rt [e] \<union> due_slices now rt us"
  unfolding due_slices_def by (simp, blast)

lemma due_Small:
  "due_smalls now rt [(i, Small m ls)] = (if due now rt ls then {(i, m)} else {})"
  "due_slices now rt [(i, Small m ls)] = {}"
  by (auto simp: due_smalls_def due_slices_def)

lemma due_Sliced:
  "due_smalls now rt [(i, Sliced m n na nx acked ls)] = {}"
  "due_slices now rt [(i, Sliced m n na nx acked ls)] =
     nth_slice i m n ` {k. k < n \<and> \<not> acked ! k \<and> due now rt (ls ! k)}"
  by (auto simp: due_smalls_def due_slices_def)

text \<open>Only what is due is sent, and with a budget of all the bytes kept and one slice more,
  all of it.\<close>

lemma sends_due:
  assumes "sends now rt a i u u' sm ss"
  shows "set sm \<subseteq> due_smalls now rt [(i, u)]" and "set ss \<subseteq> due_slices now rt [(i, u)]"
    and "um_len u + SLICE_SIZE \<le> a \<Longrightarrow>
      set sm = due_smalls now rt [(i, u)] \<and> set ss = due_slices now rt [(i, u)]"
proof -
  have "set sm \<subseteq> due_smalls now rt [(i, u)] \<and> set ss \<subseteq> due_slices now rt [(i, u)]
    \<and> (um_len u + SLICE_SIZE \<le> a \<longrightarrow>
      set sm = due_smalls now rt [(i, u)] \<and> set ss = due_slices now rt [(i, u)])"
  proof (cases u)
    case (Small m ls)
    with assms show ?thesis by (auto simp: due_Small split: if_splits)
  next
    case (Sliced m n na nx acked ls)
    from assms[unfolded Sliced sends.simps] obtain sent left where s: "sm = []"
      "distinct (sent @ left)" "ss = map (nth_slice i m n) sent"
      "set (sent @ left) = {i. i < n \<and> \<not> acked ! i \<and> due now rt (ls ! i)}"
      "left = [] \<or> a - chunk_bytes m sent < SLICE_SIZE" by blast
    have "chunk_bytes m sent \<le> length m" using s(2,4) by (intro chunk_bytes_le[of _ n]) auto
    then have "left = []" if "length m + SLICE_SIZE \<le> a" using s(5) that by auto
    moreover have "set sent \<subseteq> {i. i < n \<and> \<not> acked ! i \<and> due now rt (ls ! i)}"
      using s(4) by auto
    ultimately show ?thesis using s(1,3,4) Sliced by (auto simp: due_Sliced)
  qed
  then show "set sm \<subseteq> due_smalls now rt [(i, u)]" "set ss \<subseteq> due_slices now rt [(i, u)]"
    "um_len u + SLICE_SIZE \<le> a \<Longrightarrow>
      set sm = due_smalls now rt [(i, u)] \<and> set ss = due_slices now rt [(i, u)]" by blast+
qed

lemma sends_all_due:
  assumes "sends_all now rt a us us' sm ss"
  shows "set sm \<subseteq> due_smalls now rt us \<and> set ss \<subseteq> due_slices now rt us"
  using assms
proof (induction us arbitrary: a us' sm ss)
  case (Cons e us)
  obtain j u where e: "e = (j, u)" by (cases e)
  from Cons.prems e obtain u1 us1 sm1 sm2 ss1 ss2 where 1: "sm = sm1 @ sm2" "ss = ss1 @ ss2"
    "sends now rt a j u u1 sm1 ss1" "sends_all now rt (a - sent_bytes sm1 ss1) us us1 sm2 ss2" by auto
  with Cons.IH[OF 1(4)] sends_due(1,2)[OF 1(3)] e show ?case
    unfolding due_smalls_Cons[of _ _ e us] due_slices_Cons[of _ _ e us] by auto
qed (simp add: due_Nil)

lemma sends_all_complete:
  assumes "sends_all now rt a us us' sm ss" and "\<forall>e \<in> set us. unacked_ok now (snd e)"
    and "total_of um_len us + SLICE_SIZE \<le> a"
  shows "set sm = due_smalls now rt us \<and> set ss = due_slices now rt us"
  using assms
proof (induction us arbitrary: a us' sm ss)
  case (Cons e us)
  obtain j u where e: "e = (j, u)" by (cases e)
  from Cons.prems e obtain u1 us1 sm1 sm2 ss1 ss2 where 1: "sm = sm1 @ sm2" "ss = ss1 @ ss2"
    "sends now rt a j u u1 sm1 ss1" "sends_all now rt (a - sent_bytes sm1 ss1) us us1 sm2 ss2" by auto
  have u: "unacked_ok now u" "um_len u + SLICE_SIZE \<le> a" using Cons.prems e by auto
  have "total_of um_len us + SLICE_SIZE \<le> a - sent_bytes sm1 ss1"
    using Cons.prems(3) e sends_ok(3)[OF 1(3) u(1)] by auto
  with Cons.IH[OF 1(4)] Cons.prems(2) sends_due(3)[OF 1(3) u(2)] e 1(1,2) show ?case
    unfolding due_smalls_Cons[of _ _ e us] due_slices_Cons[of _ _ e us] by auto
qed (simp add: due_Nil)

lemma send_cost_bound:
  assumes "scr_inv now c"
  shows "total_of send_cost (scr_unacked_messages c) \<le>
    scr_next_reliable_message_id c + scr_memory_usage_bytes c"
proof -
  let ?us = "scr_unacked_messages c"
  have "send_cost u \<le> 1 + um_len u" if "unacked_ok now u" for u
  proof (cases u)
    case (Sliced m n na nx acked ls)
    with that show ?thesis using sliced_slices_of(3) by fastforce
  qed simp
  then have "\<forall>e \<in> set us. unacked_ok now (snd e) \<Longrightarrow>
      total_of send_cost us \<le> length us + total_of um_len us" for us :: "(u64 \<times> unacked_message) list"
    by (induction us) force+
  moreover have "\<forall>e \<in> set ?us. unacked_ok now (snd e)" using assms by (auto simp: scr_inv_def)
  moreover have "length ?us \<le> scr_next_reliable_message_id c"
  proof -
    have "distinct (map fst ?us)" using assms bt.ok_distinct by (auto simp: scr_inv_def)
    then have "length ?us = card (set (map fst ?us))" using distinct_card by fastforce
    also have "\<dots> \<le> card {..<scr_next_reliable_message_id c}"
      using assms by (intro card_mono) (auto simp: scr_inv_def)
    finally show ?thesis by simp
  qed
  ultimately show ?thesis using assms by (force simp: scr_inv_def)
qed

lemma bt_ok_fst: "map fst us' = map fst us \<Longrightarrow> bt_ok us' \<longleftrightarrow> bt_ok us"
  by (simp add: bt_ok_def)

lemma sends_all_inv:
  assumes "scr_inv now c" and "sends_all now rt a (scr_unacked_messages c) us' sm ss"
  shows "scr_inv now (c\<lparr>scr_unacked_messages := us'\<rparr>)"
proof -
  have "\<forall>e \<in> set (scr_unacked_messages c). unacked_ok now (snd e)"
    using assms(1) by (auto simp: scr_inv_def)
  note ok = sends_all_ok[OF assms(2) this]
  have "i < scr_next_reliable_message_id c \<and> unacked_ok now u" if "(i, u) \<in> set us'" for i u
  proof -
    have "i \<in> set (map fst us')" using that by force
    then obtain u0 where "(i, u0) \<in> set (scr_unacked_messages c)" unfolding ok(1) by auto
    with assms(1) ok(3) that show ?thesis unfolding scr_inv_def by fastforce
  qed
  with assms(1) ok(1,2) show ?thesis unfolding scr_inv_def by (auto simp: bt_ok_fst[OF ok(1)])
qed

context octets_contract
begin

text \<open>A tick returns, keeps the invariant, and sends what the specification says.\<close>

lemma get_packets_ok:
  assumes c: "scr_inv now c" "scr_next_reliable_message_id c \<le> 2 ^ 62"
    and s: "s + scr_next_reliable_message_id c + scr_memory_usage_bytes c + 1 < 2 ^ 64"
  shows "\<exists>us' ps s' a'. scr_get_packets_to_send oa c s a now =
      Some (c\<lparr>scr_unacked_messages := us'\<rparr>, ps, s', a')
    \<and> scr_inv now (c\<lparr>scr_unacked_messages := us'\<rparr>)
    \<and> sends_all now (scr_resend_time c) a (scr_unacked_messages c) us' (smalls ps) (slices ps)
    \<and> s \<le> s' \<and> map packet_sequence ps = [s..<s']
    \<and> a' + sent_bytes (smalls ps) (slices ps) = a
    \<and> (\<forall>p \<in> set ps. reliable_shape oa (scr_channel_id c) p)
    \<and> s' \<le> s + scr_next_reliable_message_id c + scr_memory_usage_bytes c + 1"
proof -
  have cost: "total_of send_cost (scr_unacked_messages c) \<le>
      scr_next_reliable_message_id c + scr_memory_usage_bytes c" by (rule send_cost_bound[OF c(1)])
  then have "s + total_of send_cost (scr_unacked_messages c) + 1 < 2 ^ 64" using s by linarith
  from get_packets_spec[OF c this, of a] obtain us' ps s' a' where
    "scr_get_packets_to_send oa c s a now = Some (c\<lparr>scr_unacked_messages := us'\<rparr>, ps, s', a')"
    "sends_all now (scr_resend_time c) a (scr_unacked_messages c) us' (smalls ps) (slices ps)"
    "s \<le> s'" "map packet_sequence ps = [s..<s']" "a' + sent_bytes (smalls ps) (slices ps) = a"
    "\<forall>p \<in> set ps. reliable_shape oa (scr_channel_id c) p"
    "s' \<le> s + total_of send_cost (scr_unacked_messages c) + 1" by blast
  moreover from this(7) cost
  have "s' \<le> s + scr_next_reliable_message_id c + scr_memory_usage_bytes c + 1" by linarith
  ultimately show ?thesis using sends_all_inv[OF c(1)] by blast
qed

end

section \<open>Sending and acknowledging keep the invariant\<close>

lemma send_message_run:
  assumes c: "scr_inv now c" and m: "length m < 2 ^ 63"
    and b: "scr_max_memory_usage_bytes c \<le> 2 ^ 63" "scr_next_reliable_message_id c + 1 < 2 ^ 64"
  defines "u \<equiv> if length m > SLICE_SIZE then new_sliced m else Small m None"
  shows "scr_send_message c m =
    Some (if scr_memory_usage_bytes c + length m > scr_max_memory_usage_bytes c
      then (c, Inl ReliableChannelMaxMemoryReached)
      else (c\<lparr>scr_memory_usage_bytes := scr_memory_usage_bytes c + length m,
        scr_unacked_messages := bt_insert (scr_next_reliable_message_id c) u (scr_unacked_messages c),
        scr_next_reliable_message_id := scr_next_reliable_message_id c + 1\<rparr>, Inr ()))"
    and "unacked_ok now u" and "um_len u = length m"
proof -
  have "scr_memory_usage_bytes c \<le> 2 ^ 63" using c b(1) by (simp add: scr_inv_def)
  then have "scr_memory_usage_bytes c + length m < 2 ^ 64" using m by simp
  then show "scr_send_message c m =
    Some (if scr_memory_usage_bytes c + length m > scr_max_memory_usage_bytes c
      then (c, Inl ReliableChannelMaxMemoryReached)
      else (c\<lparr>scr_memory_usage_bytes := scr_memory_usage_bytes c + length m,
        scr_unacked_messages := bt_insert (scr_next_reliable_message_id c) u (scr_unacked_messages c),
        scr_next_reliable_message_id := scr_next_reliable_message_id c + 1\<rparr>, Inr ()))"
    using b(2) by (simp add: scr_send_message_def uadd_def Let_def u_def)
  show "unacked_ok now u" "um_len u = length m"
    using m by (auto simp: u_def new_sliced_ok sent_before_def)
qed

lemma send_message_inv:
  assumes "scr_inv now c" and "length m < 2 ^ 63"
    and "scr_max_memory_usage_bytes c \<le> 2 ^ 63" "scr_next_reliable_message_id c + 1 < 2 ^ 64"
  shows "\<exists>c' r. scr_send_message c m = Some (c', r) \<and> scr_inv now c'"
  using send_message_run[OF assms]
    scr_insert_inv[OF assms(1), of "if length m > SLICE_SIZE then new_sliced m else Small m None"] assms(1)
  by (cases "scr_memory_usage_bytes c + length m > scr_max_memory_usage_bytes c") auto

text \<open>The acknowledgement of a message finds the kind of message it was sent as.\<close>

definition small_ackable :: "send_channel_reliable \<Rightarrow> u64 \<Rightarrow> bool" where
  "small_ackable c i \<longleftrightarrow> i < scr_next_reliable_message_id c \<and>
     (\<forall>u. bt_get (scr_unacked_messages c) i = Some u \<longrightarrow> (\<exists>m ls. u = Small m ls))"

definition slice_ackable :: "send_channel_reliable \<Rightarrow> u64 \<Rightarrow> nat \<Rightarrow> bool" where
  "slice_ackable c i k \<longleftrightarrow> i < scr_next_reliable_message_id c \<and>
     (\<forall>u. bt_get (scr_unacked_messages c) i = Some u \<longrightarrow>
        (\<exists>m n na nx acked ls. u = Sliced m n na nx acked ls \<and> k < n))"

lemma message_ack_run:
  assumes "scr_inv now c" and "small_ackable c i"
  shows "scr_process_message_ack c i = Some (case bt_get (scr_unacked_messages c) i of
      None \<Rightarrow> c
    | Some u \<Rightarrow> c\<lparr>scr_unacked_messages := bt_remove i (scr_unacked_messages c),
        scr_memory_usage_bytes := scr_memory_usage_bytes c - um_len u\<rparr>)"
proof (cases "bt_get (scr_unacked_messages c) i")
  case (Some u)
  with assms(2) obtain m ls where "u = Small m ls" unfolding small_ackable_def by blast
  with Some scr_get_ok(3)[OF assms(1) Some] show ?thesis
    by (simp add: scr_process_message_ack_def usub_def)
qed (simp add: scr_process_message_ack_def)

lemma message_ack_inv:
  assumes "scr_inv now c" and "small_ackable c i"
  shows "\<exists>c'. scr_process_message_ack c i = Some c' \<and> scr_inv now c'"
  using message_ack_run[OF assms] assms(1) scr_remove_inv[OF assms(1), of i]
  by (auto split: option.splits)

lemma slice_ack_run:
  assumes c: "scr_inv now c" and get: "bt_get (scr_unacked_messages c) i = Some (Sliced m n na nx acked ls)"
    and k: "k < n"
  defines "acked' \<equiv> acked[k := True]"
  shows "scr_process_slice_message_ack c i k = Some (
      if \<forall>j < n. acked' ! j
      then c\<lparr>scr_unacked_messages := bt_remove i (scr_unacked_messages c),
        scr_memory_usage_bytes := scr_memory_usage_bytes c - length m\<rparr>
      else if acked ! k then c
      else c\<lparr>scr_unacked_messages := bt_insert i
        (Sliced m n (length (filter id acked')) nx acked' ls) (scr_unacked_messages c)\<rparr>)"
proof -
  note u = scr_get_ok(2,3)[OF c get]
  have l: "length acked = n" "na = length (filter id acked)" "na < n" "n \<le> length m" "length m < 2 ^ 63"
    using u(1) sliced_slices_of(3)[OF u(1)] by auto
  show ?thesis
  proof (cases "acked ! k")
    case True
    then have "acked' = acked" unfolding acked'_def by (metis list_update_id)
    moreover have "\<not> (\<forall>j < n. acked ! j)" using l all_received_iff[of acked] by auto
    ultimately show ?thesis
      using get True k l by (auto simp: scr_process_slice_message_ack_def vec_get_def)
  next
    case False
    have "length (filter id acked') = na + 1"
      using length_filter_update[of k acked] False k l by (simp add: acked'_def)
    moreover have "na + 1 = n \<longleftrightarrow> (\<forall>j < n. acked' ! j)"
      using calculation all_received_iff[of acked'] l by (simp add: acked'_def)
    ultimately show ?thesis
      using get False k l u(2)
      by (auto simp: scr_process_slice_message_ack_def vec_get_def vec_set_def uadd_def usub_def
          acked'_def[symmetric] simp del: One_nat_def)
  qed
qed

lemma slice_ack_inv:
  assumes "scr_inv now c" and "slice_ackable c i k"
  shows "\<exists>c'. scr_process_slice_message_ack c i k = Some c' \<and> scr_inv now c'"
proof (cases "bt_get (scr_unacked_messages c) i")
  case None
  with assms(1) show ?thesis by (simp add: scr_process_slice_message_ack_def)
next
  case (Some u)
  with assms(2) obtain m n na nx acked ls where u: "u = Sliced m n na nx acked ls" "k < n"
    unfolding slice_ackable_def by blast
  let ?acked = "acked[k := True]"
  note get = Some[unfolded u(1)]
  have l: "length acked = n" using scr_get_ok(2)[OF assms(1) get] by auto
  have "unacked_ok now (Sliced m n (length (filter id ?acked)) nx ?acked ls)"
    if "\<not> (\<forall>j < n. ?acked ! j)"
  proof -
    have "length (filter id ?acked) \<noteq> n" using that all_received_iff[of ?acked] l by simp
    then have "length (filter id ?acked) < n"
      using length_filter_le[of id ?acked] l by simp
    then show ?thesis using scr_get_ok(2)[OF assms(1) get] by auto
  qed
  with slice_ack_run[OF assms(1) get u(2)] assms(1) scr_remove_inv[OF assms(1) get]
    scr_replace_inv[OF assms(1) get]
  show ?thesis by (cases "\<forall>j < n. ?acked ! j"; cases "acked ! k") simp_all
qed

section \<open>Properties\<close>

text \<open>C15. A tick of a reliable channel never panics; the packets it returns are numbered
  consecutively from the sequence number it was given, it charges to the budget exactly the
  message bytes in them, and every message and slice in them is one that is kept,
  unacknowledged, and due for (re)sending. The channel keeps its messages and its invariant.\<close>

theorem reliable_tick_sound:
  assumes "octets_contract oa venc u16enc"
    and "scr_inv now c" "scr_next_reliable_message_id c \<le> 2 ^ 62"
    and "s + scr_next_reliable_message_id c + scr_memory_usage_bytes c + 1 < 2 ^ 64"
  shows "\<exists>c' ps a'. scr_get_packets_to_send oa c s a now = Some (c', ps, s + length ps, a')
    \<and> scr_inv now c' \<and> scr_memory_usage_bytes c' = scr_memory_usage_bytes c
    \<and> map packet_sequence ps = [s..<s + length ps]
    \<and> a' + sent_bytes (smalls ps) (slices ps) = a
    \<and> set (smalls ps) \<subseteq> due_smalls now (scr_resend_time c) (scr_unacked_messages c)
    \<and> set (slices ps) \<subseteq> due_slices now (scr_resend_time c) (scr_unacked_messages c)"
proof -
  from octets_contract.get_packets_ok[OF assms, of a] obtain us' ps s' a' where
    1: "scr_get_packets_to_send oa c s a now = Some (c\<lparr>scr_unacked_messages := us'\<rparr>, ps, s', a')"
    "scr_inv now (c\<lparr>scr_unacked_messages := us'\<rparr>)"
    "sends_all now (scr_resend_time c) a (scr_unacked_messages c) us' (smalls ps) (slices ps)"
    "s \<le> s'" "map packet_sequence ps = [s..<s']" "a' + sent_bytes (smalls ps) (slices ps) = a"
    by blast
  have "s' = s + length ps" using 1(4) arg_cong[OF 1(5), of length] by simp
  with 1 sends_all_due[OF 1(3)] show ?thesis by auto
qed

theorem reliable_tick_sound_witness:
  "\<exists>c' ps a'. scr_get_packets_to_send quic_octets
      (scr_new 0 300 1000\<lparr>scr_unacked_messages := [(0, Small [1, 2, 3] None)],
        scr_next_reliable_message_id := 1, scr_memory_usage_bytes := 3\<rparr>) 7 60000 5
      = Some (c', ps, 7 + length ps, a')
    \<and> a' + sent_bytes (smalls ps) (slices ps) = 60000"
  using reliable_tick_sound[OF quic.octets_contract_axioms, of 5
      "scr_new 0 300 1000\<lparr>scr_unacked_messages := [(0, Small [1, 2, 3] None)],
        scr_next_reliable_message_id := 1, scr_memory_usage_bytes := 3\<rparr>" 7 60000]
  by (fastforce simp: scr_inv_def scr_new_def bt_ok_def sent_before_def SLICE_SIZE_def)

text \<open>C16. No message is forgotten: when the budget covers the bytes the channel keeps and one
  slice more, a tick sends every small message and every unacknowledged slice that was never
  sent or was last sent at least the resend time ago, and nothing else.\<close>

theorem reliable_tick_complete:
  assumes "octets_contract oa venc u16enc"
    and "scr_inv now c" "scr_next_reliable_message_id c \<le> 2 ^ 62"
    and "s + scr_next_reliable_message_id c + scr_memory_usage_bytes c + 1 < 2 ^ 64"
    and "scr_memory_usage_bytes c + SLICE_SIZE \<le> a"
  shows "\<exists>c' ps s' a'. scr_get_packets_to_send oa c s a now = Some (c', ps, s', a')
    \<and> set (smalls ps) = due_smalls now (scr_resend_time c) (scr_unacked_messages c)
    \<and> set (slices ps) = due_slices now (scr_resend_time c) (scr_unacked_messages c)"
proof -
  from octets_contract.get_packets_ok[OF assms(1-4), of a] obtain us' ps s' a' where
    1: "scr_get_packets_to_send oa c s a now = Some (c\<lparr>scr_unacked_messages := us'\<rparr>, ps, s', a')"
    "sends_all now (scr_resend_time c) a (scr_unacked_messages c) us' (smalls ps) (slices ps)"
    by blast
  have "\<forall>e \<in> set (scr_unacked_messages c). unacked_ok now (snd e)"
    "total_of um_len (scr_unacked_messages c) + SLICE_SIZE \<le> a"
    using assms(2,5) by (auto simp: scr_inv_def)
  from sends_all_complete[OF 1(2) this] 1(1) show ?thesis by blast
qed

theorem reliable_tick_complete_witness:
  "\<exists>c' ps s' a'. scr_get_packets_to_send quic_octets
      (scr_new 0 300 1000\<lparr>scr_unacked_messages := [(0, Small [1, 2, 3] None), (1, Small [4] (Some 2))],
        scr_next_reliable_message_id := 2, scr_memory_usage_bytes := 4\<rparr>) 7 60000 5
      = Some (c', ps, s', a') \<and> set (smalls ps) = {(0, [1, 2, 3])} \<and> set (slices ps) = {}"
proof -
  let ?us = "[(0, Small [1, 2, 3] None), (1, Small [4] (Some 2))]"
  let ?c = "scr_new 0 300 1000\<lparr>scr_unacked_messages := ?us,
        scr_next_reliable_message_id := 2, scr_memory_usage_bytes := 4\<rparr>"
  have "scr_inv 5 ?c"
    by (simp add: scr_inv_def scr_new_def bt_ok_def sent_before_def SLICE_SIZE_def)
  moreover have "due_smalls 5 300 ?us = {(0, [1, 2, 3])}" "due_slices 5 300 ?us = {}"
    by (auto simp: due_smalls_def due_slices_def due_def)
  ultimately show ?thesis
    using reliable_tick_complete[OF quic.octets_contract_axioms, of 5 ?c 7 60000]
    by (auto simp: scr_new_def SLICE_SIZE_def)
qed

text \<open>C17. Acknowledging slices of a sliced message, in any order and with repetitions, never
  panics; the message is released, and its bytes given back, exactly when all its slices
  have been acknowledged.\<close>

theorem slice_acks_release:
  assumes "scr_inv now c" and "bt_get (scr_unacked_messages c) i = Some (Sliced m n na nx acked ls)"
    and "set ks \<subseteq> {..<n}"
  shows "\<exists>c'. foldM (\<lambda>c k. scr_process_slice_message_ack c i k) c ks = Some c' \<and> scr_inv now c'
    \<and> (if \<forall>j < n. acked ! j \<or> j \<in> set ks
       then bt_get (scr_unacked_messages c') i = None
         \<and> scr_memory_usage_bytes c' + length m = scr_memory_usage_bytes c
       else (\<exists>na' acked'. bt_get (scr_unacked_messages c') i = Some (Sliced m n na' nx acked' ls))
         \<and> scr_memory_usage_bytes c' = scr_memory_usage_bytes c)"
  using assms
proof (induction ks arbitrary: c na acked)
  case Nil
  have "\<not> (\<forall>j < n. acked ! j)"
    using scr_get_ok(2)[OF Nil(1,2)] all_received_iff[of acked] by auto
  with Nil show ?case by auto
next
  case (Cons k ks)
  let ?acked = "acked[k := True]"
  have k: "k < n" and l: "length acked = n" and le: "length m \<le> scr_memory_usage_bytes c"
    using Cons.prems scr_get_ok(2,3)[OF Cons.prems(1,2)] by auto
  have ok: "bt_ok (scr_unacked_messages c)" using Cons.prems(1) by (simp add: scr_inv_def)
  have acked: "?acked ! j \<longleftrightarrow> acked ! j \<or> j = k" if "j < n" for j
    by (cases "j = k") (use that l in simp_all)
  have "slice_ackable c i k"
    using scr_get_ok(1)[OF Cons.prems(1,2)] Cons.prems(2) k by (auto simp: slice_ackable_def)
  from slice_ack_inv[OF Cons.prems(1) this] obtain c1 where
    c1: "scr_process_slice_message_ack c i k = Some c1" "scr_inv now c1" by blast
  note run = slice_ack_run[OF Cons.prems(1,2) k, unfolded c1(1)]
  show ?case
  proof (cases "\<forall>j < n. ?acked ! j")
    case True
    with run have c1': "c1 = c\<lparr>scr_unacked_messages := bt_remove i (scr_unacked_messages c),
        scr_memory_usage_bytes := scr_memory_usage_bytes c - length m\<rparr>" by simp
    then have none: "bt_get (scr_unacked_messages c1) i = None" using ok by (simp add: bt.get_remove)
    then have "foldM (\<lambda>c k. scr_process_slice_message_ack c i k) c1 ks = Some c1"
      by (induction ks) (simp_all add: scr_process_slice_message_ack_def)
    with c1 c1' none le True acked show ?thesis by auto
  next
    case False
    with run have c1': "c1 = (if acked ! k then c else c\<lparr>scr_unacked_messages := bt_insert i
        (Sliced m n (length (filter id ?acked)) nx ?acked ls) (scr_unacked_messages c)\<rparr>)"
      by (simp only: if_False option.inject)
    obtain na' where g: "bt_get (scr_unacked_messages c1) i = Some (Sliced m n na' nx ?acked ls)"
      and mem: "scr_memory_usage_bytes c1 = scr_memory_usage_bytes c"
    proof (cases "acked ! k")
      case True
      then have "?acked = acked" by (metis list_update_id)
      with True c1' Cons.prems(2) that show ?thesis by simp
    next
      case nk: False
      with c1' ok that show ?thesis by (simp add: bt.get_insert)
    qed
    have all: "(\<forall>j < n. ?acked ! j \<or> j \<in> set ks) \<longleftrightarrow> (\<forall>j < n. acked ! j \<or> j \<in> set (k # ks))"
      using acked by auto
    have "set ks \<subseteq> {..<n}" using Cons.prems(3) by simp
    from Cons.IH[OF c1(2) g this] show ?thesis unfolding all mem by (simp only: foldM.simps c1(1) bind.bind_lunit)
  qed
qed

theorem slice_acks_release_witness:
  "\<exists>c'. foldM (\<lambda>c k. scr_process_slice_message_ack c 0 k)
      (scr_new 0 300 5000\<lparr>scr_unacked_messages := [(0, new_sliced (replicate 1201 7))],
        scr_next_reliable_message_id := 1, scr_memory_usage_bytes := 1201\<rparr>) [1, 1, 0] = Some c'
    \<and> bt_get (scr_unacked_messages c') 0 = None \<and> scr_memory_usage_bytes c' = 0"
proof -
  let ?u = "Sliced (replicate 1201 7) 2 0 0 [False, False] [None, None]"
  let ?c = "scr_new 0 300 5000\<lparr>scr_unacked_messages := [(0, ?u)],
        scr_next_reliable_message_id := 1, scr_memory_usage_bytes := 1201\<rparr>"
  have "scr_inv 0 ?c"
    by (simp add: scr_inv_def scr_new_def bt_ok_def sent_before_def SLICE_SIZE_def div_ceil_def)
  moreover have "bt_get (scr_unacked_messages ?c) 0 = Some ?u" by (simp add: bt_get_def)
  moreover have "set [1, 1, 0] \<subseteq> {..<2::nat}" by auto
  moreover have "new_sliced (replicate 1201 7) = ?u"
    by (simp add: new_sliced_def Let_def div_ceil_def SLICE_SIZE_def numeral_2_eq_2)
  moreover have "\<forall>j < 2. [False, False] ! j \<or> j \<in> set [1, 1, 0::nat]" by (auto simp: less_2_cases_iff)
  ultimately show ?thesis
    using slice_acks_release[of 0 ?c 0 "replicate 1201 7" 2 0 0 "[False, False]" "[None, None]" "[1, 1, 0]"]
    by auto
qed

text \<open>The life of a channel: any sequence of sends, ticks and acknowledgements, with a clock
  that does not go back. Acknowledgements are of messages as they were sent.\<close>

datatype scr_op = OpSend bytes | OpTick u64 u64 | OpAckMessage u64 | OpAckSlice u64 usize

fun scr_exec ::
    "octets_api \<Rightarrow> duration \<Rightarrow> scr_op \<Rightarrow> send_channel_reliable \<Rightarrow> send_channel_reliable option" where
  "scr_exec oa now (OpSend m) c = do { (c', _) \<leftarrow> scr_send_message c m; Some c' }"
| "scr_exec oa now (OpTick s a) c = do { (c', _) \<leftarrow> scr_get_packets_to_send oa c s a now; Some c' }"
| "scr_exec oa now (OpAckMessage i) c = scr_process_message_ack c i"
| "scr_exec oa now (OpAckSlice i k) c = scr_process_slice_message_ack c i k"

fun scr_op_ok :: "send_channel_reliable \<Rightarrow> scr_op \<Rightarrow> bool" where
  "scr_op_ok c (OpSend m) \<longleftrightarrow> length m < 2 ^ 63 \<and> scr_next_reliable_message_id c < 2 ^ 62"
| "scr_op_ok c (OpTick s a) \<longleftrightarrow>
     s + scr_next_reliable_message_id c + scr_memory_usage_bytes c + 1 < 2 ^ 64"
| "scr_op_ok c (OpAckMessage i) \<longleftrightarrow> small_ackable c i"
| "scr_op_ok c (OpAckSlice i k) \<longleftrightarrow> slice_ackable c i k"

inductive scr_reach :: "octets_api \<Rightarrow> send_channel_reliable \<Rightarrow> duration \<Rightarrow> send_channel_reliable \<Rightarrow> bool"
  for oa c0 where
  scr_reach_init: "scr_reach oa c0 now c0"
| scr_reach_step: "scr_reach oa c0 now c \<Longrightarrow> now \<le> now' \<Longrightarrow> scr_op_ok c op
    \<Longrightarrow> scr_exec oa now' op c = Some c' \<Longrightarrow> scr_reach oa c0 now' c'"

lemma sliced_frame:
  assumes "scr_process_slice_message_ack c i k = Some c'"
  shows "scr_next_reliable_message_id c' = scr_next_reliable_message_id c"
    "scr_max_memory_usage_bytes c' = scr_max_memory_usage_bytes c"
  using assms by (auto simp: scr_process_slice_message_ack_def rust_simps
      split: option.splits unacked_message.splits if_splits)

lemma small_frame:
  assumes "scr_process_message_ack c i = Some c'"
  shows "scr_next_reliable_message_id c' = scr_next_reliable_message_id c"
    "scr_max_memory_usage_bytes c' = scr_max_memory_usage_bytes c"
  using assms by (auto simp: scr_process_message_ack_def rust_simps
      split: option.splits unacked_message.splits if_splits)

text \<open>What every operation keeps; \<open>mx\<close> is the memory limit.\<close>

definition scr_life :: "usize \<Rightarrow> duration \<Rightarrow> send_channel_reliable \<Rightarrow> bool" where
  "scr_life mx now c \<longleftrightarrow> scr_inv now c \<and> scr_next_reliable_message_id c \<le> 2 ^ 62
     \<and> scr_max_memory_usage_bytes c = mx \<and> mx \<le> 2 ^ 63"

lemma scr_exec_life:
  assumes oa: "octets_contract oa venc u16enc" and c: "scr_life mx now c" and op: "scr_op_ok c op"
  shows "\<exists>c'. scr_exec oa now op c = Some c' \<and> scr_life mx now c'"
proof (cases op)
  case (OpSend m)
  with c op have p: "scr_inv now c" "length m < 2 ^ 63" "scr_max_memory_usage_bytes c \<le> 2 ^ 63"
    "scr_next_reliable_message_id c + 1 < 2 ^ 64" by (auto simp: scr_life_def)
  from send_message_inv[OF p] obtain c' r where "scr_send_message c m = Some (c', r)" "scr_inv now c'"
    by blast
  moreover from this(1) send_message_run(1)[OF p] c op OpSend
  have "scr_next_reliable_message_id c' \<le> 2 ^ 62" "scr_max_memory_usage_bytes c' = mx"
    by (auto simp: scr_life_def split: if_splits)
  ultimately show ?thesis using c OpSend by (auto simp: scr_life_def)
next
  case (OpTick s a)
  with c op octets_contract.get_packets_ok[OF oa, of now c s a] show ?thesis
    by (fastforce simp: scr_life_def)
next
  case (OpAckMessage i)
  with c op message_ack_inv[of now c i] small_frame[of c i] show ?thesis
    by (auto simp: scr_life_def)
next
  case (OpAckSlice i k)
  with c op slice_ack_inv[of now c i k] sliced_frame[of c i k] show ?thesis
    by (auto simp: scr_life_def)
qed

text \<open>C18. Memory accounting of the reliable sender: throughout the life of a channel its memory
  counter is the number of bytes of the messages it keeps and never exceeds its limit, the ids
  of the messages are distinct and below the next id, and no operation panics.\<close>

theorem reliable_send_life:
  assumes "octets_contract oa venc u16enc" and "mx \<le> 2 ^ 63"
    and "scr_reach oa (scr_new ch resend_time mx) now c" and "now \<le> now'" and "scr_op_ok c op"
  shows "scr_memory_usage_bytes c = total_of um_len (scr_unacked_messages c)
    \<and> scr_memory_usage_bytes c \<le> mx
    \<and> distinct (map fst (scr_unacked_messages c))
    \<and> set (map fst (scr_unacked_messages c)) \<subseteq> {..<scr_next_reliable_message_id c}
    \<and> (\<exists>c'. scr_exec oa now' op c = Some c')"
proof -
  have life: "scr_life mx now c"
    using assms(3)
  proof (induction rule: scr_reach.induct)
    case (scr_reach_init now)
    then show ?case using assms(2) scr_new_inv by (simp add: scr_life_def scr_new_def)
  next
    case (scr_reach_step now c now' op c')
    then have "scr_life mx now' c" using scr_inv_later by (auto simp: scr_life_def)
    from scr_exec_life[OF assms(1) this scr_reach_step(3)] scr_reach_step(4) show ?case by auto
  qed
  then have "scr_life mx now' c" using assms(4) scr_inv_later by (auto simp: scr_life_def)
  from scr_exec_life[OF assms(1) this assms(5)] have "\<exists>c'. scr_exec oa now' op c = Some c'" by blast
  with life bt.ok_distinct show ?thesis by (auto simp: scr_life_def scr_inv_def)
qed

theorem reliable_send_life_witness:
  "\<exists>c c'. scr_exec quic_octets 0 (OpSend [1, 2, 3]) (scr_new 0 300 1000) = Some c
    \<and> scr_memory_usage_bytes c = 3 \<and> scr_memory_usage_bytes c \<le> 1000
    \<and> scr_exec quic_octets 1 (OpTick 0 60000) c = Some c'"
proof -
  let ?c = "scr_new 0 300 1000\<lparr>scr_unacked_messages := [(0, Small [1, 2, 3] None)],
        scr_next_reliable_message_id := 1, scr_memory_usage_bytes := 3\<rparr>"
  have 1: "scr_exec quic_octets 0 (OpSend [1, 2, 3]) (scr_new 0 300 1000) = Some ?c"
    by (simp add: scr_new_def scr_send_message_def uadd_def SLICE_SIZE_def)
  have "scr_reach quic_octets (scr_new 0 300 1000) 0 ?c"
    by (rule scr_reach_step[OF scr_reach_init order_refl _ 1]) (simp add: scr_new_def)
  from reliable_send_life[OF quic.octets_contract_axioms _ this, of 1 "OpTick 0 60000"] 1
  show ?thesis by (auto simp: scr_new_def simp del: scr_exec.simps)
qed

end
