(* ===== verification/ReceiveReliable.thy ===== *)
theory ReceiveReliable
  imports SendReliable
begin

text \<open>
  The receiving half of a reliable channel, \<open>ReceiveChannelReliable\<close> of
  \<open>src/renet/src/channel/reliable.rs\<close>: messages and slices come in any order and any number
  of times; \<open>receive_message\<close> hands out every message once, in the order of the ids when
  the channel is ordered. A \<open>BTreeSet\<close> is its sorted list of elements.
\<close>

section \<open>State\<close>

datatype reliable_order = Ordered | Unordered u64 "u64 list"

record receive_channel_reliable =
  rcr_slices :: "(u64 \<times> slice_constructor) list"
  rcr_messages :: "(u64 \<times> bytes) list"
  rcr_oldest_pending_message_id :: u64
  rcr_reliable_order :: reliable_order
  rcr_memory_usage_bytes :: usize
  rcr_max_memory_usage_bytes :: usize

definition rcr_new :: "usize \<Rightarrow> bool \<Rightarrow> receive_channel_reliable" where
  "rcr_new max_memory_usage_bytes ordered =
     \<lparr>rcr_slices = [], rcr_messages = [], rcr_oldest_pending_message_id = 0,
      rcr_reliable_order = (if ordered then Ordered else Unordered 0 []),
      rcr_memory_usage_bytes = 0, rcr_max_memory_usage_bytes = max_memory_usage_bytes\<rparr>"

section \<open>Operations\<close>

definition rcr_process_message ::
    "receive_channel_reliable \<Rightarrow> bytes \<Rightarrow> u64
     \<Rightarrow> (receive_channel_reliable \<times> (channel_error + unit)) option" where
  "rcr_process_message c message message_id =
     (if message_id < rcr_oldest_pending_message_id c then Some (c, Inr ())
      else case rcr_reliable_order c of
        Ordered \<Rightarrow>
          (if bt_get (rcr_messages c) message_id = None then do {
             total \<leftarrow> uadd (rcr_memory_usage_bytes c) (length message);
             (if total > rcr_max_memory_usage_bytes c
              then Some (c, Inl ReliableChannelMaxMemoryReached)
              else Some (c\<lparr>rcr_memory_usage_bytes := total,
                rcr_messages := bt_insert message_id message (rcr_messages c)\<rparr>, Inr ()))
           } else Some (c, Inr ()))
      | Unordered most_recent_message_id received_messages \<Rightarrow> do {
          let most_recent_message_id =
            (if most_recent_message_id < message_id then message_id else most_recent_message_id);
          let c = c\<lparr>rcr_reliable_order := Unordered most_recent_message_id received_messages\<rparr>;
          (if message_id \<notin> set received_messages then do {
             total \<leftarrow> uadd (rcr_memory_usage_bytes c) (length message);
             (if total > rcr_max_memory_usage_bytes c
              then Some (c, Inl ReliableChannelMaxMemoryReached)
              else Some (c\<lparr>rcr_memory_usage_bytes := total,
                rcr_reliable_order :=
                  Unordered most_recent_message_id (insort_insert message_id received_messages),
                rcr_messages := bt_insert message_id message (rcr_messages c)\<rparr>, Inr ()))
           } else Some (c, Inr ()))
        })"

text \<open>\<open>process_slice\<close>: the constructor of the slice's message, with its memory reserved when it
  is new, and what is done with the constructor's answer.\<close>

definition rcr_reserve_slice ::
    "receive_channel_reliable \<Rightarrow> slice
     \<Rightarrow> (channel_error + receive_channel_reliable \<times> slice_constructor) option" where
  "rcr_reserve_slice c sl = (case hm_get (rcr_slices c) (sl_message_id sl) of
     Some slice_constructor \<Rightarrow> Some (Inr (c, slice_constructor))
   | None \<Rightarrow> do {
       message_len \<leftarrow> umul (sl_num_slices sl) SLICE_SIZE;
       total \<leftarrow> uadd (rcr_memory_usage_bytes c) message_len;
       (if total > rcr_max_memory_usage_bytes c
        then Some (Inl ReliableChannelMaxMemoryReached)
        else do {
          slice_constructor \<leftarrow> sc_new (sl_message_id sl) (sl_num_slices sl);
          Some (Inr (c\<lparr>rcr_memory_usage_bytes := total\<rparr>, slice_constructor))
        })
     })"

definition rcr_slice_processed ::
    "receive_channel_reliable \<Rightarrow> slice \<Rightarrow> channel_error + bytes option
     \<Rightarrow> (receive_channel_reliable \<times> (channel_error + unit)) option" where
  "rcr_slice_processed c sl r = (case r of
     Inl e \<Rightarrow> Some (c, Inl e)
   | Inr None \<Rightarrow> Some (c, Inr ())
   | Inr (Some message) \<Rightarrow> do {
       message_len \<leftarrow> umul (sl_num_slices sl) SLICE_SIZE;
       memory \<leftarrow> usub (rcr_memory_usage_bytes c) message_len;
       (c, r) \<leftarrow>
         rcr_process_message (c\<lparr>rcr_memory_usage_bytes := memory\<rparr>) message (sl_message_id sl);
       (case r of
          Inl e \<Rightarrow> Some (c, Inl e)
        | Inr _ \<Rightarrow>
            Some (c\<lparr>rcr_slices := hm_remove (sl_message_id sl) (rcr_slices c)\<rparr>, Inr ()))
     })"

definition rcr_process_slice ::
    "receive_channel_reliable \<Rightarrow> slice
     \<Rightarrow> (receive_channel_reliable \<times> (channel_error + unit)) option" where
  "rcr_process_slice c sl =
     (if bt_get (rcr_messages c) (sl_message_id sl) \<noteq> None
         \<or> sl_message_id sl < rcr_oldest_pending_message_id c
      then Some (c, Inr ())
      else do {
        reserved \<leftarrow> rcr_reserve_slice c sl;
        (case reserved of
           Inl e \<Rightarrow> Some (c, Inl e)
         | Inr (c, slice_constructor) \<Rightarrow> do {
             (slice_constructor, r) \<leftarrow>
               sc_process_slice slice_constructor (sl_slice_index sl) (sl_payload sl);
             rcr_slice_processed (c\<lparr>rcr_slices :=
               hm_insert (sl_message_id sl) slice_constructor (rcr_slices c)\<rparr>) sl r
           })
      })"

text \<open>The loop over the messages that were received out of order.\<close>

function skip_received :: "u64 list \<Rightarrow> u64 \<Rightarrow> (u64 list \<times> u64) option" where
  "skip_received received_messages oldest =
     (if oldest \<in> set received_messages
      then do {
        next \<leftarrow> uadd oldest 1;
        skip_received (removeAll oldest received_messages) next
      }
      else Some (received_messages, oldest))"
  by auto
termination
  by (relation "measure (\<lambda>(xs, _). length xs)") (auto simp: length_removeAll_less)

declare skip_received.simps [simp del]

definition rcr_receive_message ::
    "receive_channel_reliable \<Rightarrow> (receive_channel_reliable \<times> bytes option) option" where
  "rcr_receive_message c = (case rcr_reliable_order c of
     Ordered \<Rightarrow>
       (case bt_get (rcr_messages c) (rcr_oldest_pending_message_id c) of
          None \<Rightarrow> Some (c, None)
        | Some message \<Rightarrow> do {
            oldest \<leftarrow> uadd (rcr_oldest_pending_message_id c) 1;
            memory \<leftarrow> usub (rcr_memory_usage_bytes c) (length message);
            Some (c\<lparr>rcr_messages := bt_remove (rcr_oldest_pending_message_id c) (rcr_messages c),
              rcr_oldest_pending_message_id := oldest, rcr_memory_usage_bytes := memory\<rparr>,
              Some message)
          })
   | Unordered most_recent_message_id received_messages \<Rightarrow>
       (case rcr_messages c of
          [] \<Rightarrow> Some (c, None)
        | (message_id, message) # messages \<Rightarrow> do {
            (received_messages, oldest) \<leftarrow>
              (if rcr_oldest_pending_message_id c = message_id
               then skip_received received_messages (rcr_oldest_pending_message_id c)
               else Some (received_messages, rcr_oldest_pending_message_id c));
            memory \<leftarrow> usub (rcr_memory_usage_bytes c) (length message);
            Some (c\<lparr>rcr_messages := messages,
              rcr_oldest_pending_message_id := oldest,
              rcr_reliable_order := Unordered most_recent_message_id received_messages,
              rcr_memory_usage_bytes := memory\<rparr>, Some message)
          }))"

section \<open>What has been received\<close>

text \<open>The ids of the messages that arrived completely: those below the oldest pending one, those
  waiting, and on an unordered channel those recorded as received.\<close>

definition rcr_arrived :: "receive_channel_reliable \<Rightarrow> u64 set" where
  "rcr_arrived c = {i. i < rcr_oldest_pending_message_id c} \<union> (case rcr_reliable_order c of
     Ordered \<Rightarrow> fst ` set (rcr_messages c) | Unordered _ received \<Rightarrow> set received)"

definition constructor_bytes :: "slice_constructor \<Rightarrow> nat" where
  "constructor_bytes s = sc_num_slices s * SLICE_SIZE"

text \<open>The invariant: the maps are maps, every waiting message has arrived, on an ordered channel
  none is older than the pending one, the constructors are in use, and the memory counter is
  what the waiting messages and the constructors take.\<close>

definition rcr_inv :: "receive_channel_reliable \<Rightarrow> bool" where
  "rcr_inv c \<longleftrightarrow>
     bt_ok (rcr_messages c) \<and> hm_ok (rcr_slices c)
     \<and> fst ` set (rcr_messages c) \<subseteq> rcr_arrived c
     \<and> (rcr_reliable_order c = Ordered \<longrightarrow>
          (\<forall>i \<in> fst ` set (rcr_messages c). rcr_oldest_pending_message_id c \<le> i))
     \<and> (\<forall>s \<in> snd ` set (rcr_slices c). sc_wf s)
     \<and> rcr_memory_usage_bytes c =
         total_of length (rcr_messages c) + total_of constructor_bytes (rcr_slices c)
     \<and> rcr_memory_usage_bytes c \<le> rcr_max_memory_usage_bytes c
     \<and> rcr_max_memory_usage_bytes c \<le> 2 ^ 63"

lemma skip_received_arrived:
  "skip_received xs n = Some (ys, m) \<Longrightarrow> {..<m} \<union> set ys = {..<n} \<union> set xs"
proof (induction xs n arbitrary: ys m rule: skip_received.induct)
  case (1 xs n)
  show ?case
  proof (cases "n \<in> set xs")
    case True
    with 1(2) have "skip_received (removeAll n xs) (n + 1) = Some (ys, m)"
      by (auto simp: skip_received.simps[of xs n] rust_simps)
    moreover have "uadd n 1 = Some (n + 1)"
      using True 1(2) by (auto simp: skip_received.simps[of xs n] rust_simps uadd_def split: if_splits)
    ultimately have "{..<m} \<union> set ys = {..<n + 1} \<union> set (removeAll n xs)" using 1(1) True by blast
    also have "\<dots> = {..<n} \<union> set xs" using True by (auto simp: less_Suc_eq)
    finally show ?thesis .
  next
    case False
    with 1(2) show ?thesis by (simp add: skip_received.simps[of xs n])
  qed
qed

text \<open>The loop ends below every bound on the ids.\<close>

lemma skip_received_returns:
  "\<forall>i \<in> set xs. i < b \<Longrightarrow> n \<le> b \<Longrightarrow> b < 2 ^ 64 \<Longrightarrow> \<exists>ys m. skip_received xs n = Some (ys, m) \<and> m \<le> b
    \<and> set ys \<subseteq> set xs"
proof (induction xs n rule: skip_received.induct)
  case (1 xs n)
  show ?case
  proof (cases "n \<in> set xs")
    case True
    then have b: "n + 1 \<le> b" "n + 1 < 2 ^ 64" using 1 by auto
    then have u: "uadd n 1 = Some (n + 1)" by (simp add: uadd_def)
    have "\<exists>ys m. skip_received (removeAll n xs) (n + 1) = Some (ys, m) \<and> m \<le> b
        \<and> set ys \<subseteq> set (removeAll n xs)"
      using 1(1)[OF True u] 1(2-4) b by auto
    with True u show ?thesis by (auto simp: skip_received.simps[of xs n] simp del: One_nat_def)
  next
    case False
    with 1 show ?thesis by (simp add: skip_received.simps[of xs n])
  qed
qed

section \<open>The operations on the set of arrived messages\<close>

abbreviation rcr_ordered :: "receive_channel_reliable \<Rightarrow> bool" where
  "rcr_ordered c \<equiv> rcr_reliable_order c = Ordered"

lemma set_insort_insert_nat [simp]: "set (insort_insert x xs) = insert x (set xs)"
  by (simp add: set_insort_insert)

text \<open>A message is kept when it has not arrived before and fits into the memory.\<close>

lemma process_message_run:
  assumes "rcr_memory_usage_bytes c + length m < 2 ^ 64"
  shows "\<exists>c' r. rcr_process_message c m i = Some (c', r)
    \<and> rcr_slices c' = rcr_slices c \<and> (rcr_ordered c' \<longleftrightarrow> rcr_ordered c)
    \<and> rcr_oldest_pending_message_id c' = rcr_oldest_pending_message_id c
    \<and> rcr_max_memory_usage_bytes c' = rcr_max_memory_usage_bytes c
    \<and> (if i \<in> rcr_arrived c
       then r = Inr () \<and> rcr_messages c' = rcr_messages c
         \<and> rcr_memory_usage_bytes c' = rcr_memory_usage_bytes c \<and> rcr_arrived c' = rcr_arrived c
       else if rcr_memory_usage_bytes c + length m > rcr_max_memory_usage_bytes c
       then r = Inl ReliableChannelMaxMemoryReached
       else r = Inr () \<and> rcr_messages c' = bt_insert i m (rcr_messages c)
         \<and> rcr_memory_usage_bytes c' = rcr_memory_usage_bytes c + length m
         \<and> rcr_arrived c' = insert i (rcr_arrived c))"
proof (cases "rcr_reliable_order c")
  case Ordered
  have "bt_get (rcr_messages c) i = None \<longleftrightarrow> i \<notin> fst ` set (rcr_messages c)"
    by (rule bt.get_None_iff)
  with Ordered assms show ?thesis
    by (auto simp: rcr_process_message_def rcr_arrived_def uadd_def set_bt_insert_keys)
next
  case (Unordered mr received)
  with assms show ?thesis
    by (auto simp: rcr_process_message_def rcr_arrived_def uadd_def Let_def)
qed

text \<open>A slice that a peer may send: it has an index in range, and as many slices as those of the
  same message that came before it.\<close>

definition rcr_slice_fits :: "receive_channel_reliable \<Rightarrow> slice \<Rightarrow> bool" where
  "rcr_slice_fits c sl \<longleftrightarrow> sl_slice_index sl < sl_num_slices sl
     \<and> sl_num_slices sl * SLICE_SIZE < 2 ^ 63
     \<and> (\<forall>s. hm_get (rcr_slices c) (sl_message_id sl) = Some s \<longrightarrow> sc_num_slices s = sl_num_slices sl)"

lemma sc_new_fresh:
  assumes "0 < n" and "n * SLICE_SIZE < 2 ^ 64"
  shows "\<exists>s. sc_new i n = Some s \<and> sc_wf s \<and> sc_num_slices s = n \<and> sc_received s = replicate n False"
proof -
  have "slices_of (replicate (n * SLICE_SIZE) 0) n"
    using assms by (simp add: slices_of_def diff_mult_distrib)
  from sc_new_inv[OF this, of i] show ?thesis using sc_inv_wf by blast
qed

lemma reserve_run:
  assumes c: "rcr_inv c" and sl: "rcr_slice_fits c sl"
  defines "i \<equiv> sl_message_id sl" and "n \<equiv> sl_num_slices sl"
  shows "rcr_reserve_slice c sl = Some (Inl ReliableChannelMaxMemoryReached)
    \<or> (\<exists>m sc. rcr_reserve_slice c sl = Some (Inr (c\<lparr>rcr_memory_usage_bytes := m\<rparr>, sc))
       \<and> sc_wf sc \<and> sc_num_slices sc = n \<and> m \<le> rcr_max_memory_usage_bytes c
       \<and> m = total_of length (rcr_messages c) + n * SLICE_SIZE
           + total_of constructor_bytes (hm_remove i (rcr_slices c))
       \<and> (case hm_get (rcr_slices c) i of
            None \<Rightarrow> sc_received sc = replicate n False \<and> sc_new i n = Some sc
          | Some sc' \<Rightarrow> sc = sc'))"
proof (cases "hm_get (rcr_slices c) i")
  case None
  let ?total = "rcr_memory_usage_bytes c + n * SLICE_SIZE"
  have n: "0 < n" "n * SLICE_SIZE < 2 ^ 63" using sl by (auto simp: rcr_slice_fits_def n_def)
  have "rcr_memory_usage_bytes c \<le> 2 ^ 63" using c by (simp add: rcr_inv_def)
  with n have ops: "umul n SLICE_SIZE = Some (n * SLICE_SIZE)"
    "uadd (rcr_memory_usage_bytes c) (n * SLICE_SIZE) = Some ?total"
    by (auto simp: umul_def uadd_def)
  have "n * SLICE_SIZE < 2 ^ 64" using n(2) by simp
  with sc_new_fresh[OF n(1)] obtain sc where sc: "sc_new i n = Some sc" "sc_wf sc"
    "sc_num_slices sc = n" "sc_received sc = replicate n False" by blast
  have "hm_remove i (rcr_slices c) = rcr_slices c"
    using None by (simp add: hm_remove_def hm_get_eq map_of_eq_None_iff delete_id)
  moreover have "rcr_memory_usage_bytes c =
      total_of length (rcr_messages c) + total_of constructor_bytes (rcr_slices c)"
    using c by (simp add: rcr_inv_def)
  ultimately show ?thesis
    using None sc ops by (auto simp: rcr_reserve_slice_def i_def n_def)
next
  case (Some sc)
  have hm: "hm_ok (rcr_slices c)" using c by (simp add: rcr_inv_def)
  have "sc_num_slices sc = n" using sl Some by (simp add: rcr_slice_fits_def n_def i_def)
  moreover have "(i, sc) \<in> set (rcr_slices c)" using Some hm.get_in_set[OF hm] by blast
  then have "sc_wf sc" using c by (force simp: rcr_inv_def)
  moreover have "total_of constructor_bytes (hm_remove i (rcr_slices c)) + n * SLICE_SIZE =
      total_of constructor_bytes (rcr_slices c)"
    using hm.total_remove[OF hm Some, of constructor_bytes] calculation(1)
    by (simp add: constructor_bytes_def)
  ultimately show ?thesis
    using Some c by (auto simp: rcr_reserve_slice_def i_def rcr_inv_def intro!: exI[of _ "rcr_memory_usage_bytes c"])
qed

lemma hm_remove_insert: "hm_ok m \<Longrightarrow> hm_remove k (hm_insert k v m) = hm_remove k m"
  by (simp add: hm_remove_def hm_insert_def hm_ok_def delete_update_same)

definition rcr_frame :: "receive_channel_reliable \<Rightarrow> receive_channel_reliable \<Rightarrow> bool" where
  "rcr_frame c c' \<longleftrightarrow> (rcr_ordered c' \<longleftrightarrow> rcr_ordered c)
     \<and> rcr_oldest_pending_message_id c' = rcr_oldest_pending_message_id c
     \<and> rcr_max_memory_usage_bytes c' = rcr_max_memory_usage_bytes c"

text \<open>What the answer \<open>r\<close> of the constructor, \<open>sc'\<close> afterwards, changes in the channel.\<close>

fun slice_effect :: "receive_channel_reliable \<Rightarrow> slice \<Rightarrow> slice_constructor
    \<Rightarrow> channel_error + bytes option \<Rightarrow> receive_channel_reliable \<Rightarrow> bool" where
  "slice_effect c sl sc' (Inl e) c' \<longleftrightarrow> False"
| "slice_effect c sl sc' (Inr None) c' \<longleftrightarrow>
     rcr_frame c c' \<and> rcr_slices c' = hm_insert (sl_message_id sl) sc' (rcr_slices c)
     \<and> rcr_messages c' = rcr_messages c \<and> rcr_arrived c' = rcr_arrived c"
| "slice_effect c sl sc' (Inr (Some m)) c' \<longleftrightarrow>
     rcr_frame c c' \<and> rcr_slices c' = hm_remove (sl_message_id sl) (rcr_slices c)
     \<and> rcr_messages c' = (if sl_message_id sl \<in> rcr_arrived c then rcr_messages c
         else bt_insert (sl_message_id sl) m (rcr_messages c))
     \<and> rcr_arrived c' = insert (sl_message_id sl) (rcr_arrived c)"

lemma total_constructor_insert:
  assumes "hm_ok m"
  shows "total_of constructor_bytes (hm_insert i sc m) =
    constructor_bytes sc + total_of constructor_bytes (hm_remove i m)"
proof -
  have "hm_get (hm_insert i sc m) i = Some sc" using assms by (simp add: hm.get_insert)
  from hm.total_remove[OF hm.ok_insert[OF assms] this, of constructor_bytes] assms
  show ?thesis by (simp add: hm_remove_insert)
qed

lemma rcr_arrived_update [simp]:
  "rcr_arrived (c\<lparr>rcr_memory_usage_bytes := m\<rparr>) = rcr_arrived c"
  "rcr_arrived (c\<lparr>rcr_slices := ss\<rparr>) = rcr_arrived c"
  by (simp_all add: rcr_arrived_def split: reliable_order.splits)

text \<open>The slice completes nothing: the constructor is kept.\<close>

lemma processed_None:
  assumes c: "rcr_inv c" and sc: "sc_wf sc'" and m: "m \<le> rcr_max_memory_usage_bytes c"
    "m = total_of length (rcr_messages c) + constructor_bytes sc'
      + total_of constructor_bytes (hm_remove (sl_message_id sl) (rcr_slices c))"
  defines "c1 \<equiv> c\<lparr>rcr_memory_usage_bytes := m,
      rcr_slices := hm_insert (sl_message_id sl) sc' (rcr_slices c)\<rparr>"
  shows "rcr_inv c1" and "slice_effect c sl sc' (Inr None) c1"
proof -
  have hm: "hm_ok (rcr_slices c)" using c by (simp add: rcr_inv_def)
  have arr: "rcr_arrived c1 = rcr_arrived c" by (simp add: c1_def)
  have "\<forall>s \<in> snd ` set (hm_insert (sl_message_id sl) sc' (rcr_slices c)). sc_wf s"
    using c sc hm by (auto simp: hm.set_insert rcr_inv_def)
  with c hm arr m show "rcr_inv c1"
    by (simp add: rcr_inv_def c1_def total_constructor_insert)
  show "slice_effect c sl sc' (Inr None) c1"
    using arr by (simp add: c1_def rcr_frame_def)
qed

text \<open>The slice completes a message: the constructor is dropped and the message processed.\<close>

lemma processed_Some:
  assumes c: "rcr_inv c" and n: "sc_num_slices sc' = sl_num_slices sl"
      "sl_num_slices sl * SLICE_SIZE < 2 ^ 63" "length msg \<le> sl_num_slices sl * SLICE_SIZE"
    and m: "m \<le> rcr_max_memory_usage_bytes c"
    "m = total_of length (rcr_messages c) + constructor_bytes sc'
      + total_of constructor_bytes (hm_remove (sl_message_id sl) (rcr_slices c))"
    and old: "\<not> sl_message_id sl < rcr_oldest_pending_message_id c"
  defines "c1 \<equiv> c\<lparr>rcr_memory_usage_bytes := m,
      rcr_slices := hm_insert (sl_message_id sl) sc' (rcr_slices c)\<rparr>"
  shows "(\<exists>c'. rcr_slice_processed c1 sl (Inr (Some msg)) = Some (c', Inl ReliableChannelMaxMemoryReached))
    \<or> (\<exists>c'. rcr_slice_processed c1 sl (Inr (Some msg)) = Some (c', Inr ())
       \<and> rcr_inv c' \<and> slice_effect c sl sc' (Inr (Some msg)) c')"
proof -
  let ?i = "sl_message_id sl" and ?len = "sl_num_slices sl * SLICE_SIZE"
  let ?m = "m - ?len"
  let ?c = "c1\<lparr>rcr_memory_usage_bytes := ?m\<rparr>"
  have hm: "hm_ok (rcr_slices c)" and mx: "rcr_max_memory_usage_bytes c \<le> 2 ^ 63"
    using c by (simp_all add: rcr_inv_def)
  have m': "?m = total_of length (rcr_messages c)
      + total_of constructor_bytes (hm_remove ?i (rcr_slices c))" "?len \<le> m"
    using m(2) n(1) by (simp_all add: constructor_bytes_def)
  have arr: "rcr_arrived ?c = rcr_arrived c" by (simp add: c1_def)
  have "rcr_memory_usage_bytes ?c + length msg < 2 ^ 64" using m(1) mx n by simp
  from process_message_run[OF this, of ?i] obtain c2 r where
    run: "rcr_process_message ?c msg ?i = Some (c2, r)" and
    c2: "rcr_slices c2 = hm_insert ?i sc' (rcr_slices c)" "rcr_frame c c2"
      "if ?i \<in> rcr_arrived c then r = Inr () \<and> rcr_messages c2 = rcr_messages c
         \<and> rcr_memory_usage_bytes c2 = ?m \<and> rcr_arrived c2 = rcr_arrived c
       else if ?m + length msg > rcr_max_memory_usage_bytes c
       then r = Inl ReliableChannelMaxMemoryReached
       else r = Inr () \<and> rcr_messages c2 = bt_insert ?i msg (rcr_messages c)
         \<and> rcr_memory_usage_bytes c2 = ?m + length msg \<and> rcr_arrived c2 = insert ?i (rcr_arrived c)"
    unfolding arr by (auto simp: c1_def rcr_frame_def)
  have out: "rcr_slice_processed c1 sl (Inr (Some msg)) = (case r of Inl e \<Rightarrow> Some (c2, Inl e)
      | Inr _ \<Rightarrow> Some (c2\<lparr>rcr_slices := hm_remove ?i (rcr_slices c)\<rparr>, Inr ()))"
    using run n(2) m'(2) hm c2(1)
    by (simp add: rcr_slice_processed_def umul_def usub_def c1_def hm_remove_insert split: sum.splits)
  show ?thesis
  proof (cases r)
    case (Inl e)
    with c2(3) out show ?thesis by (auto split: if_splits)
  next
    case (Inr u)
    let ?c' = "c2\<lparr>rcr_slices := hm_remove ?i (rcr_slices c)\<rparr>"
    have msgs: "rcr_messages c2 = (if ?i \<in> rcr_arrived c then rcr_messages c
        else bt_insert ?i msg (rcr_messages c))" and arr2: "rcr_arrived c2 = insert ?i (rcr_arrived c)"
      and mem: "rcr_memory_usage_bytes c2 = total_of length (rcr_messages c2)
        + total_of constructor_bytes (hm_remove ?i (rcr_slices c))"
      and lim: "rcr_memory_usage_bytes c2 \<le> rcr_max_memory_usage_bytes c"
      using c2(3) Inr m' m(1) c bt.total_insert_new[of "rcr_messages c" ?i length msg]
        bt.get_None_iff[of "rcr_messages c" ?i] by (auto simp: rcr_inv_def split: if_splits)
    have arr': "rcr_arrived ?c' = insert ?i (rcr_arrived c)" using arr2 by simp
    have eff: "slice_effect c sl sc' (Inr (Some msg)) ?c'"
      using msgs arr' c2(2) by (simp add: rcr_frame_def)
    have "rcr_inv ?c'"
      unfolding rcr_inv_def arr'
      using c c2(2) msgs mem lim old hm
      by (auto simp: rcr_inv_def rcr_frame_def bt.set_insert hm.set_remove split: if_splits)
    with Inr out eff show ?thesis by auto
  qed
qed

lemma process_slice_run:
  assumes c: "rcr_inv c" and sl: "rcr_slice_fits c sl"
  shows "((bt_get (rcr_messages c) (sl_message_id sl) \<noteq> None
        \<or> sl_message_id sl < rcr_oldest_pending_message_id c) \<and> rcr_process_slice c sl = Some (c, Inr ()))
    \<or> (\<exists>c' e. rcr_process_slice c sl = Some (c', Inl e))
    \<or> (\<exists>sc sc' r c'. bt_get (rcr_messages c) (sl_message_id sl) = None
        \<and> rcr_oldest_pending_message_id c \<le> sl_message_id sl
        \<and> (case hm_get (rcr_slices c) (sl_message_id sl) of
             None \<Rightarrow> sc_received sc = replicate (sl_num_slices sl) False
               \<and> sc_new (sl_message_id sl) (sl_num_slices sl) = Some sc
           | Some sc1 \<Rightarrow> sc = sc1)
        \<and> sc_wf sc \<and> sc_num_slices sc = sl_num_slices sl
        \<and> sc_process_slice sc (sl_slice_index sl) (sl_payload sl) = Some (sc', r)
        \<and> rcr_process_slice c sl = Some (c', Inr ()) \<and> rcr_inv c' \<and> slice_effect c sl sc' r c')"
proof (cases "bt_get (rcr_messages c) (sl_message_id sl) \<noteq> None
    \<or> sl_message_id sl < rcr_oldest_pending_message_id c")
  case True
  then show ?thesis by (simp add: rcr_process_slice_def)
next
  case False
  let ?i = "sl_message_id sl" and ?n = "sl_num_slices sl"
  have fits: "sl_slice_index sl < ?n" "?n * SLICE_SIZE < 2 ^ 63"
    using sl by (simp_all add: rcr_slice_fits_def)
  consider (full) "rcr_reserve_slice c sl = Some (Inl ReliableChannelMaxMemoryReached)"
    | (some) m sc where "rcr_reserve_slice c sl = Some (Inr (c\<lparr>rcr_memory_usage_bytes := m\<rparr>, sc))"
      "sc_wf sc" "sc_num_slices sc = ?n" "m \<le> rcr_max_memory_usage_bytes c"
      "m = total_of length (rcr_messages c) + ?n * SLICE_SIZE
           + total_of constructor_bytes (hm_remove ?i (rcr_slices c))"
      "case hm_get (rcr_slices c) ?i of
            None \<Rightarrow> sc_received sc = replicate ?n False \<and> sc_new ?i ?n = Some sc
          | Some sc' \<Rightarrow> sc = sc'"
    using reserve_run[OF c sl] by blast
  then show ?thesis
  proof cases
    case full
    with False show ?thesis by (simp add: rcr_process_slice_def)
  next
    case some
    from sc_process_slice_wf[OF some(2), of "sl_slice_index sl" "sl_payload sl"] fits(1) some(3)
    obtain sc' r where sc': "sc_process_slice sc (sl_slice_index sl) (sl_payload sl) = Some (sc', r)"
      "sc_num_slices sc' = ?n" "sc_outcome_ok sc (slice_size_ok ?n (sl_slice_index sl) (sl_payload sl)) sc' r"
      by auto
    let ?c1 = "c\<lparr>rcr_memory_usage_bytes := m, rcr_slices := hm_insert ?i sc' (rcr_slices c)\<rparr>"
    have m: "m = total_of length (rcr_messages c) + constructor_bytes sc'
        + total_of constructor_bytes (hm_remove ?i (rcr_slices c))"
      using some(5) sc'(2) by (simp add: constructor_bytes_def)
    have run: "rcr_process_slice c sl = rcr_slice_processed ?c1 sl r"
      using False some(1) sc'(1) by (simp add: rcr_process_slice_def)
    consider e where "r = Inl e" | "r = Inr None" | msg where "r = Inr (Some msg)"
      by (metis sum.exhaust option.exhaust)
    then show ?thesis
    proof cases
      case 1
      then show ?thesis using run by (simp add: rcr_slice_processed_def)
    next
      case 2
      then have "sc_wf sc'" using sc'(3) by simp
      from processed_None[OF c this some(4) m] have "rcr_inv ?c1" "slice_effect c sl sc' r ?c1"
        unfolding 2 .
      moreover have "rcr_process_slice c sl = Some (?c1, Inr ())"
        using run 2 by (simp add: rcr_slice_processed_def)
      ultimately show ?thesis using False some(2,3,6) sc'(1) by (metis not_less)
    next
      case 3
      then have "length msg \<le> ?n * SLICE_SIZE" using sc'(3) some(3) by simp
      from processed_Some[OF c sc'(2) fits(2) this some(4) m] False run 3 sc'(1) some(2,3,6)
      show ?thesis by (metis not_less)
    qed
  qed
qed

lemma receive_run:
  assumes c: "rcr_inv c" and b: "rcr_arrived c \<subseteq> {..<b}" "b < 2 ^ 64"
  shows "(rcr_receive_message c = Some (c, None) \<and> (if rcr_ordered c
        then bt_get (rcr_messages c) (rcr_oldest_pending_message_id c) = None else rcr_messages c = []))
    \<or> (\<exists>i m c'. rcr_receive_message c = Some (c', Some m)
        \<and> bt_get (rcr_messages c) i = Some m \<and> rcr_messages c' = bt_remove i (rcr_messages c)
        \<and> rcr_slices c' = rcr_slices c \<and> rcr_arrived c' = rcr_arrived c \<and> rcr_inv c'
        \<and> rcr_max_memory_usage_bytes c' = rcr_max_memory_usage_bytes c
        \<and> (rcr_ordered c' \<longleftrightarrow> rcr_ordered c)
        \<and> (rcr_ordered c \<longrightarrow> i = rcr_oldest_pending_message_id c
            \<and> rcr_oldest_pending_message_id c' = rcr_oldest_pending_message_id c + 1))"
proof (cases "rcr_reliable_order c")
  case Ordered
  let ?i = "rcr_oldest_pending_message_id c"
  show ?thesis
  proof (cases "bt_get (rcr_messages c) ?i")
    case None
    with Ordered show ?thesis by (simp add: rcr_receive_message_def)
  next
    case (Some m)
    have ok: "bt_ok (rcr_messages c)" using c by (simp add: rcr_inv_def)
    have mem: "(?i, m) \<in> set (rcr_messages c)" using Some bt.get_in_set[OF ok] by blast
    then have "?i \<in> rcr_arrived c" using c by (force simp: rcr_inv_def)
    then have "uadd ?i 1 = Some (?i + 1)" using b by (auto simp: uadd_def)
    moreover have len: "length m \<le> rcr_memory_usage_bytes c"
      using bt.weight_le_total[OF ok Some, of length] c by (simp add: rcr_inv_def)
    ultimately have run: "rcr_receive_message c = Some (c\<lparr>rcr_messages := bt_remove ?i (rcr_messages c),
        rcr_oldest_pending_message_id := ?i + 1,
        rcr_memory_usage_bytes := rcr_memory_usage_bytes c - length m\<rparr>, Some m)" (is "_ = Some (?c', _)")
      using Ordered Some by (simp add: rcr_receive_message_def usub_def)
    have arr: "rcr_arrived ?c' = rcr_arrived c"
      using Ordered mem ok by (force simp: rcr_arrived_def bt.set_remove image_iff less_Suc_eq)
    have "rcr_inv ?c'"
      unfolding rcr_inv_def arr using c Ordered bt.total_remove[OF ok Some, of length] ok
      by (auto simp: rcr_inv_def bt.set_remove less_eq_Suc_le[symmetric] nat_less_le)
    with run arr Some Ordered show ?thesis by auto
  qed
next
  case (Unordered mr received)
  show ?thesis
  proof (cases "rcr_messages c")
    case Nil
    with Unordered show ?thesis by (simp add: rcr_receive_message_def)
  next
    case (Cons e ms)
    obtain i m where e: "e = (i, m)" by (cases e)
    let ?o = "rcr_oldest_pending_message_id c"
    have arrived: "rcr_arrived c = {..<?o} \<union> set received"
      using Unordered by (auto simp: rcr_arrived_def)
    have "?o \<le> b" using b(1) arrived by (metis le_sup_iff lessThan_subset_iff)
    moreover have "\<forall>j \<in> set received. j < b" using b(1) arrived by auto
    ultimately obtain received' o' where skip: "(if ?o = i then skip_received received ?o
        else Some (received, ?o)) = Some (received', o')"
      "{..<o'} \<union> set received' = {..<?o} \<union> set received"
      using skip_received_returns[of received b ?o] skip_received_arrived[of received ?o] b(2)
      by (cases "?o = i") auto
    have ok: "bt_ok (rcr_messages c)" using c by (simp add: rcr_inv_def)
    have get: "bt_get (rcr_messages c) i = Some m" by (simp add: Cons e bt_get_def)
    have rem: "bt_remove i (rcr_messages c) = ms"
      using ok by (auto simp: Cons e bt_ok_Cons bt_remove_def filter_id_conv)
    have len: "length m \<le> rcr_memory_usage_bytes c"
      using bt.weight_le_total[OF ok get, of length] c by (simp add: rcr_inv_def)
    with skip(1) have run: "rcr_receive_message c = Some (c\<lparr>rcr_messages := ms,
        rcr_oldest_pending_message_id := o', rcr_reliable_order := Unordered mr received',
        rcr_memory_usage_bytes := rcr_memory_usage_bytes c - length m\<rparr>, Some m)" (is "_ = Some (?c', _)")
      using Unordered Cons e by (simp add: rcr_receive_message_def usub_def)
    have arr: "rcr_arrived ?c' = rcr_arrived c"
      using skip(2) unfolding arrived by (simp add: rcr_arrived_def lessThan_def)
    have ms: "set ms = {e \<in> set (rcr_messages c). fst e \<noteq> i}" "bt_ok ms"
      using bt.set_remove[OF ok, of i] bt.ok_remove[OF ok, of i] unfolding rem by simp_all
    have "rcr_inv ?c'"
      unfolding rcr_inv_def arr using c Unordered bt.total_remove[OF ok get, of length] ms
      unfolding rem by (auto simp: rcr_inv_def)
    with run arr get rem Unordered show ?thesis by auto
  qed
qed

section \<open>Delivery\<close>

text \<open>The messages that a peer sent are \<open>sent\<close>, the message with id \<open>i\<close> being \<open>sent ! i\<close>. What
  arrives is a message of the peer, or a slice of one, any number of times and in any order.\<close>

datatype rcr_op = OpMessage bytes u64 | OpSlice slice | OpReceive

definition slice_of_sent :: "bytes list \<Rightarrow> u64 \<Rightarrow> nat \<Rightarrow> slice" where
  "slice_of_sent sent i k =
     nth_slice i (sent ! i) (div_ceil (length (sent ! i)) SLICE_SIZE) k"

fun authentic :: "bytes list \<Rightarrow> rcr_op \<Rightarrow> bool" where
  "authentic sent (OpMessage m i) \<longleftrightarrow> i < length sent \<and> m = sent ! i \<and> length m \<le> SLICE_SIZE"
| "authentic sent (OpSlice sl) \<longleftrightarrow>
     (\<exists>i < length sent. SLICE_SIZE < length (sent ! i)
        \<and> (\<exists>k < div_ceil (length (sent ! i)) SLICE_SIZE. sl = slice_of_sent sent i k))"
| "authentic sent OpReceive \<longleftrightarrow> True"

fun rcr_exec :: "receive_channel_reliable \<Rightarrow> rcr_op
    \<Rightarrow> (receive_channel_reliable \<times> (channel_error + bytes option)) option" where
  "rcr_exec c (OpMessage m i) = do {
     (c', r) \<leftarrow> rcr_process_message c m i; Some (c', map_sum id (\<lambda>_. None) r) }"
| "rcr_exec c (OpSlice sl) = do {
     (c', r) \<leftarrow> rcr_process_slice c sl; Some (c', map_sum id (\<lambda>_. None) r) }"
| "rcr_exec c OpReceive = do { (c', m) \<leftarrow> rcr_receive_message c; Some (c', Inr m) }"

text \<open>A run stops at the first error, as the connection does; its result is the channel, the
  messages that were handed out, and the error.\<close>

fun rcr_run :: "receive_channel_reliable \<Rightarrow> rcr_op list
    \<Rightarrow> (receive_channel_reliable \<times> bytes list \<times> channel_error option) option" where
  "rcr_run c [] = Some (c, [], None)"
| "rcr_run c (op # ops) = do {
     (c', r) \<leftarrow> rcr_exec c op;
     (case r of
        Inl e \<Rightarrow> Some (c', [], Some e)
      | Inr m \<Rightarrow> do {
          (c'', delivered, e) \<leftarrow> rcr_run c' ops;
          Some (c'', (case m of None \<Rightarrow> delivered | Some m \<Rightarrow> m # delivered), e)
        })
   }"

text \<open>All of the message with id \<open>i\<close> is among \<open>ops\<close>.\<close>

definition arrives :: "bytes list \<Rightarrow> rcr_op list \<Rightarrow> u64 \<Rightarrow> bool" where
  "arrives sent ops i \<longleftrightarrow>
     (if length (sent ! i) \<le> SLICE_SIZE then OpMessage (sent ! i) i \<in> set ops
      else \<forall>k < div_ceil (length (sent ! i)) SLICE_SIZE. OpSlice (slice_of_sent sent i k) \<in> set ops)"

definition sent_ok :: "bytes list \<Rightarrow> bool" where
  "sent_ok sent \<longleftrightarrow> length sent < 2 ^ 64 \<and> (\<forall>m \<in> set sent. length m < 2 ^ 62)"

text \<open>The relation between the channel, the operations \<open>h\<close> so far, and the ids \<open>ids\<close> of the
  messages handed out.\<close>

definition rcr_rel ::
    "bytes list \<Rightarrow> rcr_op list \<Rightarrow> u64 list \<Rightarrow> receive_channel_reliable \<Rightarrow> bool" where
  "rcr_rel sent h ids c \<longleftrightarrow>
     rcr_inv c \<and> rcr_arrived c = set ids \<union> fst ` set (rcr_messages c)
     \<and> distinct ids \<and> set ids \<inter> fst ` set (rcr_messages c) = {}
     \<and> (rcr_ordered c \<longrightarrow> ids = [0..<rcr_oldest_pending_message_id c])
     \<and> (\<forall>(i, m) \<in> set (rcr_messages c). m = sent ! i)
     \<and> rcr_arrived c \<subseteq> {..<length sent}
     \<and> (\<forall>i < length sent. i \<in> rcr_arrived c \<longleftrightarrow> arrives sent h i)
     \<and> (\<forall>(i, s) \<in> set (rcr_slices c). sc_inv (sent ! i) s
          \<and> sc_num_slices s = div_ceil (length (sent ! i)) SLICE_SIZE)
     \<and> (\<forall>i < length sent. SLICE_SIZE < length (sent ! i) \<longrightarrow> i \<notin> rcr_arrived c \<longrightarrow>
          (\<forall>k < div_ceil (length (sent ! i)) SLICE_SIZE. OpSlice (slice_of_sent sent i k) \<in> set h \<longleftrightarrow>
             (case hm_get (rcr_slices c) i of None \<Rightarrow> False | Some s \<Rightarrow> sc_received s ! k)))"

lemma sliced_count:
  assumes "SLICE_SIZE < length m" and "length m < 2 ^ 62"
  shows "slices_of m (div_ceil (length m) SLICE_SIZE)"
    and "div_ceil (length m) SLICE_SIZE * SLICE_SIZE < 2 ^ 63"
proof -
  have "unacked_ok 0 (new_sliced m)" using assms by (intro new_sliced_ok) auto
  then show s: "slices_of m (div_ceil (length m) SLICE_SIZE)"
    unfolding new_sliced_def Let_def by (rule sliced_slices_of(1))
  show "div_ceil (length m) SLICE_SIZE * SLICE_SIZE < 2 ^ 63"
    using s assms(2) by (cases "div_ceil (length m) SLICE_SIZE") (auto simp: slices_of_def SLICE_SIZE_def)
qed

lemma slice_of_sent_inject: "slice_of_sent sent i k = slice_of_sent sent j l \<longleftrightarrow> i = j \<and> k = l"
  by (auto simp: slice_of_sent_def nth_slice_def)

lemma slice_of_sent_simps [simp]:
  "sl_message_id (slice_of_sent sent i k) = i" "sl_slice_index (slice_of_sent sent i k) = k"
  "sl_num_slices (slice_of_sent sent i k) = div_ceil (length (sent ! i)) SLICE_SIZE"
  "sl_payload (slice_of_sent sent i k) = msg_chunk (sent ! i) k"
  by (simp_all add: slice_of_sent_def nth_slice_def)

lemma arrives_mono: "arrives sent h i \<Longrightarrow> arrives sent (h @ h') i"
  by (auto simp: arrives_def split: if_splits)

lemma arrives_message:
  "arrives sent (h @ [OpMessage m i]) j \<longleftrightarrow>
     arrives sent h j \<or> (j = i \<and> m = sent ! i \<and> length m \<le> SLICE_SIZE)"
  by (auto simp: arrives_def)

lemma arrives_slice_other:
  "j \<noteq> i \<Longrightarrow> arrives sent (h @ [OpSlice (slice_of_sent sent i k)]) j \<longleftrightarrow> arrives sent h j"
  by (auto simp: arrives_def slice_of_sent_inject)

lemma arrives_receive: "arrives sent (h @ [OpReceive]) j \<longleftrightarrow> arrives sent h j"
  by (auto simp: arrives_def)

lemma rcr_rel_new: "mx \<le> 2 ^ 63 \<Longrightarrow> sent_ok sent \<Longrightarrow> rcr_rel sent [] [] (rcr_new mx ordered)"
proof -
  assume mx: "mx \<le> 2 ^ 63" and ok: "sent_ok sent"
  have "\<not> arrives sent [] i" if "i < length sent" for i
  proof -
    have "0 < div_ceil (length (sent ! i)) SLICE_SIZE" if "SLICE_SIZE < length (sent ! i)"
      using that by (intro div_ceil_pos) (auto simp: SLICE_SIZE_def)
    then show ?thesis by (auto simp: arrives_def)
  qed
  with mx show ?thesis
    by (cases ordered) (auto simp: rcr_rel_def rcr_inv_def rcr_new_def rcr_arrived_def)
qed

text \<open>The parts of the relation, for the proofs of its preservation.\<close>

lemma rcr_relD:
  assumes "rcr_rel sent h ids c"
  shows "rcr_inv c" "rcr_arrived c = set ids \<union> fst ` set (rcr_messages c)" "distinct ids"
    "set ids \<inter> fst ` set (rcr_messages c) = {}"
    "rcr_ordered c \<Longrightarrow> ids = [0..<rcr_oldest_pending_message_id c]"
    "(i, m) \<in> set (rcr_messages c) \<Longrightarrow> m = sent ! i"
    "rcr_arrived c \<subseteq> {..<length sent}"
    "i < length sent \<Longrightarrow> i \<in> rcr_arrived c \<longleftrightarrow> arrives sent h i"
    "(i, s) \<in> set (rcr_slices c) \<Longrightarrow> sc_inv (sent ! i) s
       \<and> sc_num_slices s = div_ceil (length (sent ! i)) SLICE_SIZE"
    "i < length sent \<Longrightarrow> SLICE_SIZE < length (sent ! i) \<Longrightarrow> i \<notin> rcr_arrived c \<Longrightarrow>
       k < div_ceil (length (sent ! i)) SLICE_SIZE \<Longrightarrow> OpSlice (slice_of_sent sent i k) \<in> set h \<longleftrightarrow>
         (case hm_get (rcr_slices c) i of None \<Rightarrow> False | Some s \<Rightarrow> sc_received s ! k)"
  using assms unfolding rcr_rel_def by auto

lemma rcr_relI:
  assumes "rcr_inv c" "rcr_arrived c = set ids \<union> fst ` set (rcr_messages c)" "distinct ids"
    "set ids \<inter> fst ` set (rcr_messages c) = {}"
    "rcr_ordered c \<Longrightarrow> ids = [0..<rcr_oldest_pending_message_id c]"
    "\<And>i m. (i, m) \<in> set (rcr_messages c) \<Longrightarrow> m = sent ! i"
    "rcr_arrived c \<subseteq> {..<length sent}"
    "\<And>i. i < length sent \<Longrightarrow> i \<in> rcr_arrived c \<longleftrightarrow> arrives sent h i"
    "\<And>i s. (i, s) \<in> set (rcr_slices c) \<Longrightarrow> sc_inv (sent ! i) s
       \<and> sc_num_slices s = div_ceil (length (sent ! i)) SLICE_SIZE"
    "\<And>i k. i < length sent \<Longrightarrow> SLICE_SIZE < length (sent ! i) \<Longrightarrow> i \<notin> rcr_arrived c \<Longrightarrow>
       k < div_ceil (length (sent ! i)) SLICE_SIZE \<Longrightarrow> OpSlice (slice_of_sent sent i k) \<in> set h \<longleftrightarrow>
         (case hm_get (rcr_slices c) i of None \<Rightarrow> False | Some s \<Rightarrow> sc_received s ! k)"
  shows "rcr_rel sent h ids c"
  unfolding rcr_rel_def using assms by auto

lemma process_message_inv:
  assumes c: "rcr_inv c" and m: "length m < 2 ^ 62"
  shows "\<exists>c' r. rcr_process_message c m i = Some (c', r)
    \<and> rcr_slices c' = rcr_slices c \<and> (rcr_ordered c' \<longleftrightarrow> rcr_ordered c)
    \<and> rcr_oldest_pending_message_id c' = rcr_oldest_pending_message_id c
    \<and> (r = Inr () \<longrightarrow> rcr_inv c' \<and> rcr_arrived c' = insert i (rcr_arrived c)
       \<and> rcr_messages c' = (if i \<in> rcr_arrived c then rcr_messages c else bt_insert i m (rcr_messages c)))"
proof -
  have inv: "bt_ok (rcr_messages c)" "rcr_memory_usage_bytes c \<le> 2 ^ 63"
    using c by (auto simp: rcr_inv_def)
  then have "rcr_memory_usage_bytes c + length m < 2 ^ 64" using m by simp
  from process_message_run[OF this, of i] obtain c' r where run: "rcr_process_message c m i = Some (c', r)"
    and fr: "rcr_slices c' = rcr_slices c" "rcr_ordered c' \<longleftrightarrow> rcr_ordered c"
      "rcr_oldest_pending_message_id c' = rcr_oldest_pending_message_id c"
      "rcr_max_memory_usage_bytes c' = rcr_max_memory_usage_bytes c"
    and eff: "if i \<in> rcr_arrived c
       then r = Inr () \<and> rcr_messages c' = rcr_messages c
         \<and> rcr_memory_usage_bytes c' = rcr_memory_usage_bytes c \<and> rcr_arrived c' = rcr_arrived c
       else if rcr_memory_usage_bytes c + length m > rcr_max_memory_usage_bytes c
       then r = Inl ReliableChannelMaxMemoryReached
       else r = Inr () \<and> rcr_messages c' = bt_insert i m (rcr_messages c)
         \<and> rcr_memory_usage_bytes c' = rcr_memory_usage_bytes c + length m
         \<and> rcr_arrived c' = insert i (rcr_arrived c)" by blast
  have "rcr_inv c' \<and> rcr_arrived c' = insert i (rcr_arrived c)
       \<and> rcr_messages c' = (if i \<in> rcr_arrived c then rcr_messages c else bt_insert i m (rcr_messages c))"
    if ok: "r = Inr ()"
  proof -
    have msgs: "rcr_messages c' = (if i \<in> rcr_arrived c then rcr_messages c
        else bt_insert i m (rcr_messages c))" and arr: "rcr_arrived c' = insert i (rcr_arrived c)"
      and mem: "rcr_memory_usage_bytes c' = rcr_memory_usage_bytes c
        + (if i \<in> rcr_arrived c then 0 else length m)"
      and lim: "rcr_memory_usage_bytes c' \<le> rcr_max_memory_usage_bytes c"
      using eff ok c by (auto simp: rcr_inv_def split: if_splits)
    have new: "i \<notin> rcr_arrived c \<Longrightarrow> bt_get (rcr_messages c) i = None"
      using c by (auto simp: rcr_inv_def bt.get_None_iff)
    have keys: "fst ` set (rcr_messages c') = fst ` set (rcr_messages c) \<union> ({i} - rcr_arrived c)"
      using msgs by (auto simp: set_bt_insert_keys)
    have "rcr_inv c'"
      unfolding rcr_inv_def fr arr
    proof (intro conjI impI)
      show "bt_ok (rcr_messages c')" "hm_ok (rcr_slices c)" using msgs inv(1) c by (auto simp: rcr_inv_def)
      show "fst ` set (rcr_messages c') \<subseteq> insert i (rcr_arrived c)"
        using c keys by (auto simp: rcr_inv_def)
      show "\<forall>s\<in>snd ` set (rcr_slices c). sc_wf s" using c by (auto simp: rcr_inv_def)
      show "rcr_memory_usage_bytes c' = total_of length (rcr_messages c')
          + total_of constructor_bytes (rcr_slices c)"
        using c mem msgs new bt.total_insert_new[OF inv(1), of i length m] by (auto simp: rcr_inv_def)
      show "rcr_memory_usage_bytes c' \<le> rcr_max_memory_usage_bytes c" by (rule lim)
      show "rcr_max_memory_usage_bytes c \<le> 2 ^ 63" using c by (simp add: rcr_inv_def)
      assume o: "rcr_ordered c"
      show "\<forall>j\<in>fst ` set (rcr_messages c'). rcr_oldest_pending_message_id c \<le> j"
        using c o unfolding keys by (auto simp: rcr_inv_def rcr_arrived_def)
    qed
    with arr msgs show ?thesis by simp
  qed
  with run fr show ?thesis by blast
qed

lemma rcr_rel_message:
  assumes rel: "rcr_rel sent h ids c" and op: "authentic sent (OpMessage m i)"
  shows "\<exists>c' r. rcr_process_message c m i = Some (c', r)
    \<and> (r = Inr () \<longrightarrow> rcr_rel sent (h @ [OpMessage m i]) ids c' \<and> (rcr_ordered c' \<longleftrightarrow> rcr_ordered c))"
proof -
  note D = rcr_relD[OF rel]
  have i: "i < length sent" "m = sent ! i" "length m \<le> SLICE_SIZE" using op by auto
  have ok: "bt_ok (rcr_messages c)" using D(1) by (simp add: rcr_inv_def)
  have "length m < 2 ^ 62" using i(3) by (simp add: SLICE_SIZE_def)
  from process_message_inv[OF D(1) this, of i] obtain c' r where run: "rcr_process_message c m i = Some (c', r)"
    and fr: "rcr_slices c' = rcr_slices c" "rcr_ordered c' \<longleftrightarrow> rcr_ordered c"
      "rcr_oldest_pending_message_id c' = rcr_oldest_pending_message_id c"
    and eff: "r = Inr () \<Longrightarrow> rcr_inv c' \<and> rcr_arrived c' = insert i (rcr_arrived c)
       \<and> rcr_messages c' = (if i \<in> rcr_arrived c then rcr_messages c else bt_insert i m (rcr_messages c))"
    by blast
  have "rcr_rel sent (h @ [OpMessage m i]) ids c'" if "r = Inr ()"
  proof -
    from eff[OF that] have inv: "rcr_inv c'" and arr: "rcr_arrived c' = insert i (rcr_arrived c)"
      and msgs: "rcr_messages c' = (if i \<in> rcr_arrived c then rcr_messages c
        else bt_insert i m (rcr_messages c))" by simp_all
    have keys: "fst ` set (rcr_messages c') = fst ` set (rcr_messages c) \<union> ({i} - rcr_arrived c)"
      using msgs by (auto simp: set_bt_insert_keys)
    from inv show ?thesis
    proof (rule rcr_relI)
      show "rcr_arrived c' = set ids \<union> fst ` set (rcr_messages c')"
        "set ids \<inter> fst ` set (rcr_messages c') = {}" "rcr_arrived c' \<subseteq> {..<length sent}"
        using arr keys D(2,4,7) i(1) by auto
      show "distinct ids" "rcr_ordered c' \<Longrightarrow> ids = [0..<rcr_oldest_pending_message_id c']"
        using D(3,5) fr by auto
      show "m' = sent ! j" if "(j, m') \<in> set (rcr_messages c')" for j m'
        using that D(6) i(2) msgs ok by (auto simp: bt.set_insert split: if_splits)
      show "j \<in> rcr_arrived c' \<longleftrightarrow> arrives sent (h @ [OpMessage m i]) j" if "j < length sent" for j
        using D(8)[OF that] i unfolding arr arrives_message by auto
      show "sc_inv (sent ! j) s \<and> sc_num_slices s = div_ceil (length (sent ! j)) SLICE_SIZE"
        if "(j, s) \<in> set (rcr_slices c')" for j s using that D(9) fr by auto
      show "OpSlice (slice_of_sent sent j k) \<in> set (h @ [OpMessage m i]) \<longleftrightarrow>
          (case hm_get (rcr_slices c') j of None \<Rightarrow> False | Some s \<Rightarrow> sc_received s ! k)"
        if "j < length sent" "SLICE_SIZE < length (sent ! j)" "j \<notin> rcr_arrived c'"
          "k < div_ceil (length (sent ! j)) SLICE_SIZE" for j k
        using D(10)[OF that(1,2) _ that(4)] that(3) arr fr by auto
    qed
  qed
  with run fr(2) show ?thesis by auto
qed

lemma rcr_rel_receive:
  assumes rel: "rcr_rel sent h ids c" and sent: "sent_ok sent"
  shows "\<exists>c' r ids'. rcr_receive_message c = Some (c', r)
    \<and> rcr_rel sent (h @ [OpReceive]) (ids @ ids') c' \<and> (rcr_ordered c' \<longleftrightarrow> rcr_ordered c)
    \<and> (case r of None \<Rightarrow> ids' = [] | Some m \<Rightarrow> \<exists>i. ids' = [i] \<and> m = sent ! i)"
proof -
  note D = rcr_relD[OF rel]
  have len: "length sent < 2 ^ 64" using sent by (simp add: sent_ok_def)
  have ok: "bt_ok (rcr_messages c)" using D(1) by (simp add: rcr_inv_def)
  have none: "rcr_rel sent (h @ [OpReceive]) ids c"
    using rel unfolding rcr_rel_def arrives_receive by auto
  from receive_run[OF D(1,7) len] show ?thesis
  proof (elim disjE exE conjE)
    assume "rcr_receive_message c = Some (c, None)"
    with none show ?thesis by (intro exI[of _ c] exI[of _ None] exI[of _ "[]"]) auto
  next
    fix i m c'
    assume run: "rcr_receive_message c = Some (c', Some m)" and get: "bt_get (rcr_messages c) i = Some m"
      and c': "rcr_messages c' = bt_remove i (rcr_messages c)" "rcr_slices c' = rcr_slices c"
        "rcr_arrived c' = rcr_arrived c" "rcr_inv c'" "rcr_ordered c' \<longleftrightarrow> rcr_ordered c"
        "rcr_ordered c \<longrightarrow> i = rcr_oldest_pending_message_id c
            \<and> rcr_oldest_pending_message_id c' = rcr_oldest_pending_message_id c + 1"
    have mem: "(i, m) \<in> set (rcr_messages c)" using get bt.get_in_set[OF ok] by blast
    then have key: "i \<in> fst ` set (rcr_messages c)" by force
    have keys: "fst ` set (rcr_messages c') = fst ` set (rcr_messages c) - {i}"
      unfolding c'(1) bt.set_remove[OF ok] by force
    have "rcr_rel sent (h @ [OpReceive]) (ids @ [i]) c'"
    proof (rule rcr_relI[OF c'(4)])
      show "rcr_arrived c' = set (ids @ [i]) \<union> fst ` set (rcr_messages c')"
        "set (ids @ [i]) \<inter> fst ` set (rcr_messages c') = {}" "distinct (ids @ [i])"
        "rcr_arrived c' \<subseteq> {..<length sent}"
        using D(2,3,4,7) key unfolding keys c'(3) by auto
      show "ids @ [i] = [0..<rcr_oldest_pending_message_id c']" if "rcr_ordered c'"
        using D(5) that c'(5,6) by auto
      show "m' = sent ! j" if "(j, m') \<in> set (rcr_messages c')" for j m'
        using that D(6) ok by (auto simp: c'(1) bt.set_remove)
      show "j \<in> rcr_arrived c' \<longleftrightarrow> arrives sent (h @ [OpReceive]) j" if "j < length sent" for j
        using D(8)[OF that] by (simp add: c'(3) arrives_receive)
      show "sc_inv (sent ! j) s \<and> sc_num_slices s = div_ceil (length (sent ! j)) SLICE_SIZE"
        if "(j, s) \<in> set (rcr_slices c')" for j s using that D(9) c'(2) by auto
      show "OpSlice (slice_of_sent sent j k) \<in> set (h @ [OpReceive]) \<longleftrightarrow>
          (case hm_get (rcr_slices c') j of None \<Rightarrow> False | Some s \<Rightarrow> sc_received s ! k)"
        if "j < length sent" "SLICE_SIZE < length (sent ! j)" "j \<notin> rcr_arrived c'"
          "k < div_ceil (length (sent ! j)) SLICE_SIZE" for j k
        using D(10)[OF that(1,2) _ that(4)] that(3) c'(2,3) by auto
    qed
    with run D(6)[OF mem] c'(5) show ?thesis by auto
  qed
qed

text \<open>The constructor of an authentic slice is assembling the message that was sent.\<close>

lemma rcr_rel_constructor:
  assumes rel: "rcr_rel sent h ids c" and sent: "sent_ok sent"
    and i: "i < length sent" "SLICE_SIZE < length (sent ! i)"
  defines "n \<equiv> div_ceil (length (sent ! i)) SLICE_SIZE"
  assumes sc: "case hm_get (rcr_slices c) i of
      None \<Rightarrow> sc_received sc = replicate n False \<and> sc_new i n = Some sc | Some sc1 \<Rightarrow> sc = sc1"
  shows "sc_inv (sent ! i) sc" and "sc_num_slices sc = n"
    and "i \<notin> rcr_arrived c \<Longrightarrow> k < n \<Longrightarrow> sc_received sc ! k \<longleftrightarrow> OpSlice (slice_of_sent sent i k) \<in> set h"
proof -
  note D = rcr_relD[OF rel]
  have len: "length (sent ! i) < 2 ^ 62" using sent i(1) by (auto simp: sent_ok_def)
  have hm: "hm_ok (rcr_slices c)" using D(1) by (simp add: rcr_inv_def)
  have "sc_inv (sent ! i) sc \<and> sc_num_slices sc = n"
  proof (cases "hm_get (rcr_slices c) i")
    case None
    with sc sc_new_inv[OF sliced_count(1)[OF i(2) len], of i] show ?thesis by (auto simp: n_def)
  next
    case (Some sc1)
    with hm.get_in_set[OF hm, of i sc1] D(9) sc show ?thesis by (auto simp: n_def)
  qed
  then show "sc_inv (sent ! i) sc" "sc_num_slices sc = n" by blast+
  show "sc_received sc ! k \<longleftrightarrow> OpSlice (slice_of_sent sent i k) \<in> set h"
    if "i \<notin> rcr_arrived c" "k < n"
    using D(10)[OF i that(1)] that(2) sc by (auto simp: n_def split: option.splits)
qed

lemma rcr_rel_slice_effect:
  assumes rel: "rcr_rel sent h ids c" and sent: "sent_ok sent"
    and i: "i < length sent" "SLICE_SIZE < length (sent ! i)"
    and k0: "k < div_ceil (length (sent ! i)) SLICE_SIZE"
  defines "n \<equiv> div_ceil (length (sent ! i)) SLICE_SIZE" and "sl \<equiv> slice_of_sent sent i k"
  assumes sc: "case hm_get (rcr_slices c) i of
      None \<Rightarrow> sc_received sc = replicate n False \<and> sc_new i n = Some sc | Some sc1 \<Rightarrow> sc = sc1"
    and run: "sc_process_slice sc k (msg_chunk (sent ! i) k) = Some (sc', r)"
    and eff: "slice_effect c sl sc' r c'" "rcr_inv c'"
  shows "rcr_rel sent (h @ [OpSlice sl]) ids c'"
proof -
  note D = rcr_relD[OF rel]
  note k = k0[folded n_def]
  note C = rcr_rel_constructor[OF rel sent i sc[unfolded n_def], folded n_def]
  have ok: "bt_ok (rcr_messages c)" "hm_ok (rcr_slices c)" using D(1) by (auto simp: rcr_inv_def)
  have lr: "length (sc_received sc) = n" using C(1,2) by (simp add: sc_inv_def)
  from sc_process_slice_step[OF C(1), of k] k C(2) run
  have sc': "sc_received sc' = (sc_received sc)[k := True]" "sc_num_slices sc' = n"
    "r = Inr (if \<forall>j < n. (sc_received sc)[k := True] ! j then Some (sent ! i) else None)"
    "\<not> (\<forall>j < n. (sc_received sc)[k := True] ! j) \<Longrightarrow> sc_inv (sent ! i) sc'" by auto
  have flag: "sc_received sc' ! j \<longleftrightarrow> OpSlice (slice_of_sent sent i j) \<in> set (h @ [OpSlice sl])"
    if "i \<notin> rcr_arrived c" "j < n" for j
    using C(3)[OF that] that(2) lr unfolding sc'(1) sl_def
    by (cases "j = k") (auto simp: slice_of_sent_inject)
  define full where "full \<longleftrightarrow> (\<forall>j < n. sc_received sc' ! j)"
  have r: "r = Inr (if full then Some (sent ! i) else None)" using sc'(1,3) by (simp add: full_def)
  have fr: "rcr_frame c c'" and arr: "rcr_arrived c' = (if full then insert i (rcr_arrived c) else rcr_arrived c)"
    and msgs: "rcr_messages c' = (if full \<and> i \<notin> rcr_arrived c
        then bt_insert i (sent ! i) (rcr_messages c) else rcr_messages c)"
    and sls: "rcr_slices c' = (if full then hm_remove i (rcr_slices c) else hm_insert i sc' (rcr_slices c))"
    by (cases full; use eff(1) in \<open>simp add: r sl_def\<close>)+
  have keys: "fst ` set (rcr_messages c') =
      fst ` set (rcr_messages c) \<union> (if full then {i} - rcr_arrived c else {})"
    using msgs by (auto simp: set_bt_insert_keys)
  have arrive: "i \<in> rcr_arrived c' \<longleftrightarrow> arrives sent (h @ [OpSlice sl]) i"
  proof (cases "i \<in> rcr_arrived c")
    case True
    then show ?thesis using D(8)[OF i(1)] arrives_mono arr by auto
  next
    case False
    then have "full \<longleftrightarrow> arrives sent (h @ [OpSlice sl]) i"
      using flag i(2) by (auto simp: full_def arrives_def n_def)
    with False arr show ?thesis by auto
  qed
  show ?thesis
  proof (rule rcr_relI[OF eff(2)])
    show "rcr_arrived c' = set ids \<union> fst ` set (rcr_messages c')"
      "set ids \<inter> fst ` set (rcr_messages c') = {}" "rcr_arrived c' \<subseteq> {..<length sent}"
      using D(2,4,7) i(1) unfolding arr keys by auto
    show "distinct ids" "rcr_ordered c' \<Longrightarrow> ids = [0..<rcr_oldest_pending_message_id c']"
      using D(3,5) fr by (auto simp: rcr_frame_def)
    show "m' = sent ! j" if "(j, m') \<in> set (rcr_messages c')" for j m'
      using that D(6) ok(1) unfolding msgs by (auto simp: bt.set_insert split: if_splits)
    show "j \<in> rcr_arrived c' \<longleftrightarrow> arrives sent (h @ [OpSlice sl]) j" if "j < length sent" for j
      using D(8)[OF that] arrive arr by (cases "j = i") (auto simp: sl_def arrives_slice_other)
    show "sc_inv (sent ! j) s \<and> sc_num_slices s = div_ceil (length (sent ! j)) SLICE_SIZE"
      if "(j, s) \<in> set (rcr_slices c')" for j s
      using that D(9) ok(2) sc'(1,2,4) unfolding sls
      by (auto simp: hm.set_insert hm.set_remove n_def full_def split: if_splits)
    show "OpSlice (slice_of_sent sent j l) \<in> set (h @ [OpSlice sl]) \<longleftrightarrow>
        (case hm_get (rcr_slices c') j of None \<Rightarrow> False | Some s \<Rightarrow> sc_received s ! l)"
      if j: "j < length sent" "SLICE_SIZE < length (sent ! j)" "j \<notin> rcr_arrived c'"
        "l < div_ceil (length (sent ! j)) SLICE_SIZE" for j l
    proof (cases "j = i")
      case True
      then have "\<not> full" "i \<notin> rcr_arrived c" using j(3) arr by (auto split: if_splits)
      with True flag[of l] j(4) ok(2) sls show ?thesis by (simp add: hm.get_insert n_def)
    next
      case False
      have "j \<notin> rcr_arrived c" using j(3) arr by (auto split: if_splits)
      moreover have "hm_get (rcr_slices c') j = hm_get (rcr_slices c) j"
        using False sls ok(2) by (auto simp: hm.get_insert hm.get_remove)
      ultimately show ?thesis
        using D(10)[OF j(1,2) _ j(4)] False by (simp add: sl_def slice_of_sent_inject)
    qed
  qed
qed

lemma rcr_rel_slice:
  assumes rel: "rcr_rel sent h ids c" and sent: "sent_ok sent" and op: "authentic sent (OpSlice sl)"
  shows "\<exists>c' r. rcr_process_slice c sl = Some (c', r)
    \<and> (r = Inr () \<longrightarrow> rcr_rel sent (h @ [OpSlice sl]) ids c' \<and> (rcr_ordered c' \<longleftrightarrow> rcr_ordered c))"
proof -
  note D = rcr_relD[OF rel]
  from op obtain i k where i: "i < length sent" "SLICE_SIZE < length (sent ! i)"
    and k: "k < div_ceil (length (sent ! i)) SLICE_SIZE" and sl: "sl = slice_of_sent sent i k" by auto
  have len: "length (sent ! i) < 2 ^ 62" using sent i(1) by (auto simp: sent_ok_def)
  have hm: "hm_ok (rcr_slices c)" using D(1) by (simp add: rcr_inv_def)
  have "rcr_slice_fits c sl"
    using k sliced_count(2)[OF i(2) len] D(9) hm.get_in_set[OF hm] by (auto simp: rcr_slice_fits_def sl)
  from process_slice_run[OF D(1) this] consider
    (skip) "bt_get (rcr_messages c) (sl_message_id sl) \<noteq> None
        \<or> sl_message_id sl < rcr_oldest_pending_message_id c" "rcr_process_slice c sl = Some (c, Inr ())"
    | (err) c' e where "rcr_process_slice c sl = Some (c', Inl e)"
    | (go) sc sc' r c' where "case hm_get (rcr_slices c) (sl_message_id sl) of
             None \<Rightarrow> sc_received sc = replicate (sl_num_slices sl) False
               \<and> sc_new (sl_message_id sl) (sl_num_slices sl) = Some sc
           | Some sc1 \<Rightarrow> sc = sc1"
      "sc_process_slice sc (sl_slice_index sl) (sl_payload sl) = Some (sc', r)"
      "rcr_process_slice c sl = Some (c', Inr ())" "rcr_inv c'" "slice_effect c sl sc' r c'" by blast
  then show ?thesis
  proof cases
    case skip
    have arr: "i \<in> rcr_arrived c"
      using skip(1) D(1) bt.get_None_iff[of "rcr_messages c" i]
      by (auto simp: sl rcr_inv_def rcr_arrived_def)
    have "rcr_rel sent (h @ [OpSlice sl]) ids c"
    proof (rule rcr_relI[OF D(1-4)])
      show "j \<in> rcr_arrived c \<longleftrightarrow> arrives sent (h @ [OpSlice sl]) j" if "j < length sent" for j
        using D(8)[OF that] arr arrives_mono by (cases "j = i") (auto simp: sl arrives_slice_other)
      show "OpSlice (slice_of_sent sent j l) \<in> set (h @ [OpSlice sl]) \<longleftrightarrow>
          (case hm_get (rcr_slices c) j of None \<Rightarrow> False | Some s \<Rightarrow> sc_received s ! l)"
        if "j < length sent" "SLICE_SIZE < length (sent ! j)" "j \<notin> rcr_arrived c"
          "l < div_ceil (length (sent ! j)) SLICE_SIZE" for j l
        using D(10)[OF that] that(3) arr by (auto simp: sl slice_of_sent_inject)
    qed (use D in auto)
    with skip(2) show ?thesis by auto
  next
    case err
    then show ?thesis by auto
  next
    case go
    have "rcr_rel sent (h @ [OpSlice sl]) ids c'"
      unfolding sl
      by (rule rcr_rel_slice_effect[OF rel sent i k go(1,2)[unfolded sl slice_of_sent_simps]
            go(5)[unfolded sl] go(4)])
    moreover have "rcr_frame c c'" using go(5) by (cases "(c, sl, sc', r, c')" rule: slice_effect.cases) auto
    ultimately show ?thesis using go(3) by (auto simp: rcr_frame_def)
  qed
qed

lemma rcr_rel_exec:
  assumes "rcr_rel sent h ids c" and "sent_ok sent" and "authentic sent op"
  shows "\<exists>c' r. rcr_exec c op = Some (c', r) \<and> (\<forall>m. r = Inr m \<longrightarrow>
    (\<exists>ids'. rcr_rel sent (h @ [op]) (ids @ ids') c' \<and> (rcr_ordered c' \<longleftrightarrow> rcr_ordered c)
      \<and> (case m of None \<Rightarrow> ids' = [] | Some m \<Rightarrow> \<exists>i. ids' = [i] \<and> m = sent ! i)))"
proof (cases op)
  case (OpMessage m i)
  with rcr_rel_message[OF assms(1), of m i] assms(3) obtain c' r where
    "rcr_process_message c m i = Some (c', r)"
    "r = Inr () \<Longrightarrow> rcr_rel sent (h @ [op]) ids c' \<and> (rcr_ordered c' \<longleftrightarrow> rcr_ordered c)" by blast
  with OpMessage show ?thesis by (cases r) auto
next
  case (OpSlice sl)
  with rcr_rel_slice[OF assms(1,2), of sl] assms(3) obtain c' r where
    "rcr_process_slice c sl = Some (c', r)"
    "r = Inr () \<Longrightarrow> rcr_rel sent (h @ [op]) ids c' \<and> (rcr_ordered c' \<longleftrightarrow> rcr_ordered c)" by blast
  with OpSlice show ?thesis by (cases r) auto
next
  case OpReceive
  with rcr_rel_receive[OF assms(1,2)] show ?thesis by fastforce
qed

lemma rcr_rel_run:
  assumes "rcr_rel sent h ids c" and "sent_ok sent" and "\<forall>op \<in> set ops. authentic sent op"
  shows "\<exists>c' ids' e h' rest. rcr_run c ops = Some (c', map (nth sent) ids', e)
    \<and> ops = h' @ rest \<and> (\<exists>c1. (e = None \<longrightarrow> rest = [] \<and> c1 = c')
        \<and> rcr_rel sent (h @ h') (ids @ ids') c1 \<and> (rcr_ordered c1 \<longleftrightarrow> rcr_ordered c))"
  using assms
proof (induction ops arbitrary: c h ids)
  case Nil
  then show ?case by (auto intro!: exI[of _ c])
next
  case (Cons op ops)
  from Cons.prems(3) have op: "authentic sent op" and ops: "\<forall>op \<in> set ops. authentic sent op" by auto
  from rcr_rel_exec[OF Cons.prems(1,2) op] obtain c1 r where ex: "rcr_exec c op = Some (c1, r)"
    and ok: "\<And>m. r = Inr m \<Longrightarrow> \<exists>ids'. rcr_rel sent (h @ [op]) (ids @ ids') c1
      \<and> (rcr_ordered c1 \<longleftrightarrow> rcr_ordered c)
      \<and> (case m of None \<Rightarrow> ids' = [] | Some m \<Rightarrow> \<exists>i. ids' = [i] \<and> m = sent ! i)" by blast
  show ?case
  proof (cases r)
    case (Inl e)
    with ex Cons.prems(1) show ?thesis
      by (intro exI[of _ c1] exI[of _ "[]"] exI[of _ "Some e"] exI[of _ "[]"] exI[of _ "op # ops"]) auto
  next
    case (Inr m)
    from ok[OF Inr] obtain ids1 where ids1: "rcr_rel sent (h @ [op]) (ids @ ids1) c1"
      "rcr_ordered c1 \<longleftrightarrow> rcr_ordered c"
      "case m of None \<Rightarrow> ids1 = [] | Some m \<Rightarrow> \<exists>i. ids1 = [i] \<and> m = sent ! i" by blast
    from Cons.IH[OF ids1(1) Cons.prems(2) ops] obtain c' ids' e h' rest c2 where IH:
      "rcr_run c1 ops = Some (c', map (nth sent) ids', e)" "ops = h' @ rest"
      "e = None \<longrightarrow> rest = [] \<and> c2 = c'"
      "rcr_rel sent ((h @ [op]) @ h') ((ids @ ids1) @ ids') c2" "rcr_ordered c2 \<longleftrightarrow> rcr_ordered c1" by blast
    have "(case m of None \<Rightarrow> map (nth sent) ids' | Some m \<Rightarrow> m # map (nth sent) ids') =
        map (nth sent) (ids1 @ ids')"
      using ids1(3) by (auto split: option.splits)
    then have "rcr_run c (op # ops) = Some (c', map (nth sent) (ids1 @ ids'), e)"
      using ex Inr IH(1) by simp
    with IH ids1(2) show ?thesis
      by (intro exI[of _ c'] exI[of _ "ids1 @ ids'"] exI[of _ e] exI[of _ "op # h'"] exI[of _ rest]) auto
  qed
qed

section \<open>Properties\<close>

text \<open>C1. Ordered delivery. Let a peer send the messages \<open>sent\<close>, and let them and their slices
  arrive in any order, any number of times, interleaved in any way with calls of
  \<open>receive_message\<close>. An ordered channel never panics; what it hands out is a prefix of
  \<open>sent\<close> (no message is lost, repeated, reordered or altered); and unless it has reported an
  error, the next message is handed out as soon as all of it has arrived.\<close>

theorem ordered_delivery:
  assumes "sent_ok sent" and "mx \<le> 2 ^ 63" and "\<forall>op \<in> set ops. authentic sent op"
  shows "\<exists>c delivered e. rcr_run (rcr_new mx True) ops = Some (c, delivered, e)
    \<and> delivered = take (length delivered) sent
    \<and> (e = None \<longrightarrow> length delivered < length sent \<longrightarrow> arrives sent ops (length delivered) \<longrightarrow>
        (\<exists>c'. rcr_receive_message c = Some (c', Some (sent ! length delivered))))"
proof -
  from rcr_rel_run[OF rcr_rel_new[OF assms(2,1)] assms(1,3), of True, unfolded append_Nil]
  obtain c ids e h rest c1 where
    r: "rcr_run (rcr_new mx True) ops = Some (c, map (nth sent) ids, e)" "ops = h @ rest"
      "e = None \<longrightarrow> rest = [] \<and> c1 = c" "rcr_rel sent h ids c1"
      "rcr_ordered c1 \<longleftrightarrow> rcr_ordered (rcr_new mx True)" by blast
  note D = rcr_relD[OF r(4)]
  have ids: "ids = [0..<length ids]" using D(5) r(5) by (simp add: rcr_new_def)
  have le: "length ids \<le> length sent"
  proof -
    have "set ids \<subseteq> {..<length sent}" using D(2,7) by auto
    then show ?thesis by (subst (asm) ids) (auto simp: subset_iff not_less[symmetric])
  qed
  have pre: "map (nth sent) ids = take (length ids) sent"
  proof -
    have "map (nth sent) [0..<length ids] = take (length ids) sent"
      using le by (auto intro: nth_equalityI)
    then show ?thesis using arg_cong[OF ids, of "map (nth sent)"] by simp
  qed
  have next_one: "\<exists>c'. rcr_receive_message c = Some (c', Some (sent ! length ids))"
    if e: "e = None" and nx: "length ids < length sent" "arrives sent ops (length ids)"
  proof -
    have rel: "rcr_rel sent ops ids c" and ord: "rcr_ordered c"
      using r e by (auto simp: rcr_new_def)
    note E = rcr_relD[OF rel]
    have "length ids \<in> rcr_arrived c" using E(8)[OF nx(1)] nx(2) by simp
    moreover have "length ids \<notin> set ids" by (subst ids) simp
    ultimately have key: "length ids \<in> fst ` set (rcr_messages c)" using E(2) by auto
    have ok: "bt_ok (rcr_messages c)" using E(1) by (simp add: rcr_inv_def)
    from key obtain m where m: "(length ids, m) \<in> set (rcr_messages c)" by auto
    then have get: "bt_get (rcr_messages c) (length ids) = Some m" using bt.get_in_set[OF ok] by blast
    have "length sent < 2 ^ 64" using assms(1) by (simp add: sent_ok_def)
    moreover have "rcr_oldest_pending_message_id c = length ids"
      using arg_cong[OF E(5)[OF ord], of length] by simp
    ultimately show ?thesis using receive_run[OF E(1,7)] get ord E(6)[OF m] by fastforce
  qed
  show ?thesis
    by (rule exI[of _ c], rule exI[of _ "map (nth sent) ids"], rule exI[of _ e], unfold length_map)
      (use r(1) pre next_one in blast)
qed

theorem ordered_delivery_witness:
  "\<exists>c c'. rcr_run (rcr_new 100 True) [OpMessage [2] 1, OpReceive, OpMessage [1] 0, OpMessage [1] 0,
      OpReceive] = Some (c, [[1]], None)
    \<and> rcr_receive_message c = Some (c', Some [2])"
proof -
  let ?sent = "[[1], [2]]" and ?ops = "[OpMessage [2] 1, OpReceive, OpMessage [1] 0, OpMessage [1] 0,
      OpReceive]"
  have "sent_ok ?sent" "\<forall>op \<in> set ?ops. authentic ?sent op" "arrives ?sent ?ops 1"
    by (auto simp: sent_ok_def SLICE_SIZE_def arrives_def)
  moreover have "map_option (\<lambda>(c, d, e). (d, e)) (rcr_run (rcr_new 100 True) ?ops) = Some ([[1]], None)"
    by code_simp
  ultimately show ?thesis using ordered_delivery[of ?sent 100 ?ops] by fastforce
qed

text \<open>C2. Unordered delivery. In the same setting an unordered channel never panics and hands
  out every message at most once, unaltered, and only after all of it has arrived; unless it
  has reported an error, every message that has arrived was handed out or is waiting.\<close>

theorem unordered_delivery:
  assumes "sent_ok sent" and "mx \<le> 2 ^ 63" and "\<forall>op \<in> set ops. authentic sent op"
  shows "\<exists>c ids e. rcr_run (rcr_new mx False) ops = Some (c, map (nth sent) ids, e)
    \<and> distinct ids \<and> set ids \<subseteq> {i. i < length sent \<and> arrives sent ops i}
    \<and> (e = None \<longrightarrow> (\<forall>i < length sent. arrives sent ops i \<longrightarrow>
        i \<in> set ids \<or> bt_get (rcr_messages c) i = Some (sent ! i)))"
proof -
  from rcr_rel_run[OF rcr_rel_new[OF assms(2,1)] assms(1,3), of False, unfolded append_Nil]
  obtain c ids e h rest c1 where
    r: "rcr_run (rcr_new mx False) ops = Some (c, map (nth sent) ids, e)" "ops = h @ rest"
      "e = None \<longrightarrow> rest = [] \<and> c1 = c" "rcr_rel sent h ids c1" by blast
  note D = rcr_relD[OF r(4)]
  have "set ids \<subseteq> {i. i < length sent \<and> arrives sent ops i}"
    using D(2,7,8) arrives_mono[of sent h _ rest] r(2) by auto
  moreover have "i \<in> set ids \<or> bt_get (rcr_messages c) i = Some (sent ! i)"
    if e: "e = None" and i: "i < length sent" "arrives sent ops i" for i
  proof -
    have c: "c1 = c" "h = ops" using r(2,3) e by auto
    have ok: "bt_ok (rcr_messages c)" using D(1) c by (simp add: rcr_inv_def)
    have "i \<in> set ids \<union> fst ` set (rcr_messages c)" using D(2) D(8)[OF i(1)] i(2) c by simp
    then show ?thesis using D(6) c bt.get_in_set[OF ok] by force
  qed
  ultimately show ?thesis using r(1) D(3) by blast
qed

theorem unordered_delivery_witness:
  "\<exists>c ids. rcr_run (rcr_new 100 False) [OpMessage [2] 1, OpReceive, OpMessage [2] 1, OpReceive]
      = Some (c, map (nth [[1], [2]]) ids, None) \<and> distinct ids \<and> 1 \<in> set ids"
proof -
  let ?sent = "[[1], [2]]" and ?ops = "[OpMessage [2] 1, OpReceive, OpMessage [2] 1, OpReceive]"
  have "sent_ok ?sent" "\<forall>op \<in> set ?ops. authentic ?sent op" "arrives ?sent ?ops 1"
    by (auto simp: sent_ok_def SLICE_SIZE_def arrives_def)
  moreover have "map_option (\<lambda>(c, d, e). (rcr_messages c, e)) (rcr_run (rcr_new 100 False) ?ops)
      = Some ([], None)"
    by code_simp
  ultimately show ?thesis using unordered_delivery[of ?sent 100 ?ops] by fastforce
qed

text \<open>C3. Memory accounting of the reliable receiver, for any messages and for slices with an index in
  range and a number of slices that agrees with the constructor's: no operation panics, and
  unless it reports an error it keeps the counter equal to the bytes of the waiting messages
  and the buffers being assembled, and below the limit.\<close>

theorem reliable_receive_memory:
  assumes "rcr_inv c" and "length m < 2 ^ 62" and "rcr_slice_fits c sl"
    and "rcr_arrived c \<subseteq> {..<b}" and "b < 2 ^ 64"
  shows "(\<exists>c' r. rcr_process_message c m i = Some (c', r) \<and> (r = Inr () \<longrightarrow> rcr_inv c'))
    \<and> (\<exists>c' r. rcr_process_slice c sl = Some (c', r) \<and> (r = Inr () \<longrightarrow> rcr_inv c'))
    \<and> (\<exists>c' r. rcr_receive_message c = Some (c', r) \<and> rcr_inv c'
        \<and> rcr_memory_usage_bytes c' + (case r of None \<Rightarrow> 0 | Some m \<Rightarrow> length m) = rcr_memory_usage_bytes c)"
proof (intro conjI)
  show "\<exists>c' r. rcr_process_message c m i = Some (c', r) \<and> (r = Inr () \<longrightarrow> rcr_inv c')"
    using process_message_inv[OF assms(1)] assms(2) by fastforce
  show "\<exists>c' r. rcr_process_slice c sl = Some (c', r) \<and> (r = Inr () \<longrightarrow> rcr_inv c')"
    using process_slice_run[OF assms(1,3)] assms(1) by auto
  from receive_run[OF assms(1,4,5)] show "\<exists>c' r. rcr_receive_message c = Some (c', r) \<and> rcr_inv c'
        \<and> rcr_memory_usage_bytes c' + (case r of None \<Rightarrow> 0 | Some m \<Rightarrow> length m) = rcr_memory_usage_bytes c"
  proof (elim disjE exE conjE)
    fix i m c'
    assume run: "rcr_receive_message c = Some (c', Some m)" "bt_get (rcr_messages c) i = Some m"
      "rcr_messages c' = bt_remove i (rcr_messages c)" "rcr_slices c' = rcr_slices c" "rcr_inv c'"
    with assms(1) bt.total_remove[of "rcr_messages c" i m length] show ?thesis
      by (auto simp: rcr_inv_def)
  qed (use assms(1) in auto)
qed

theorem reliable_receive_memory_witness:
  "\<exists>c' r. rcr_process_slice (rcr_new 5000 True)
      \<lparr>sl_message_id = 0, sl_slice_index = 1, sl_num_slices = 2, sl_payload = [9]\<rparr> = Some (c', r)
    \<and> (r = Inr () \<longrightarrow> rcr_inv c')"
proof -
  have "rcr_inv (rcr_new 5000 True)" "rcr_arrived (rcr_new 5000 True) \<subseteq> {..<1}"
    by (simp_all add: rcr_inv_def rcr_new_def rcr_arrived_def)
  moreover have "rcr_slice_fits (rcr_new 5000 True)
      \<lparr>sl_message_id = 0, sl_slice_index = 1, sl_num_slices = 2, sl_payload = [9]\<rparr>"
    by (simp add: rcr_slice_fits_def rcr_new_def SLICE_SIZE_def)
  ultimately show ?thesis
    using reliable_receive_memory[of "rcr_new 5000 True" "[]" "\<lparr>sl_message_id = 0, sl_slice_index = 1,
      sl_num_slices = 2, sl_payload = [9]\<rparr>" 1 0] by simp
qed

end
