(* ===== verification/SendUnreliable.thy ===== *)
theory SendUnreliable
  imports SendReliable
begin

text \<open>
  The sending half of an unreliable channel, \<open>SendChannelUnreliable\<close> of
  \<open>src/renet/src/channel/unreliable.rs\<close>: a queue that every tick empties, dropping the
  messages that the budget does not cover. The specification of a tick is \<open>affordable\<close>, the
  messages that are sent, with \<open>big_slices\<close>, the slices of the large ones.
\<close>

section \<open>State and operations\<close>

record send_channel_unreliable =
  scu_channel_id :: u8
  scu_unreliable_messages :: "bytes list"
  scu_sliced_message_id :: u64
  scu_max_memory_usage_bytes :: usize
  scu_memory_usage_bytes :: usize

definition scu_new :: "u8 \<Rightarrow> usize \<Rightarrow> send_channel_unreliable" where
  "scu_new channel_id max_memory_usage_bytes =
     \<lparr>scu_channel_id = channel_id, scu_unreliable_messages = [], scu_sliced_message_id = 0,
      scu_max_memory_usage_bytes = max_memory_usage_bytes, scu_memory_usage_bytes = 0\<rparr>"

definition scu_can_send_message :: "send_channel_unreliable \<Rightarrow> usize \<Rightarrow> bool option" where
  "scu_can_send_message c size_bytes = do {
     total \<leftarrow> uadd size_bytes (scu_memory_usage_bytes c);
     Some (total \<le> scu_max_memory_usage_bytes c)
   }"

definition scu_available_memory :: "send_channel_unreliable \<Rightarrow> usize option" where
  "scu_available_memory c = usub (scu_max_memory_usage_bytes c) (scu_memory_usage_bytes c)"

text \<open>The local variables of \<open>get_packets_to_send\<close>, with the fields of \<open>self\<close> and the
  \<open>&mut u64\<close> arguments that its loop changes.\<close>

record unreliable_vars =
  uv_packets :: "packet list"
  uv_small_messages :: "bytes list"
  uv_small_messages_bytes :: usize
  uv_packet_sequence :: u64
  uv_available_bytes :: u64
  uv_sliced_message_id :: u64
  uv_memory_usage_bytes :: usize

definition push_unreliable :: "u8 \<Rightarrow> unreliable_vars \<Rightarrow> unreliable_vars option" where
  "push_unreliable channel_id v = do {
     sequence \<leftarrow> uadd (uv_packet_sequence v) 1;
     Some (v\<lparr>uv_packets := uv_packets v @
         [SmallUnreliable (uv_packet_sequence v) channel_id (uv_small_messages v)],
       uv_small_messages := [], uv_small_messages_bytes := 0, uv_packet_sequence := sequence\<rparr>)
   }"

definition push_unreliable_slice ::
    "u8 \<Rightarrow> bytes \<Rightarrow> usize \<Rightarrow> unreliable_vars \<Rightarrow> usize \<Rightarrow> unreliable_vars option" where
  "push_unreliable_slice channel_id message num_slices v slice_index = do {
     payload \<leftarrow> slice_payload message num_slices slice_index;
     sequence \<leftarrow> uadd (uv_packet_sequence v) 1;
     Some (v\<lparr>uv_packets := uv_packets v @
         [UnreliableSlice (uv_packet_sequence v) channel_id
           \<lparr>sl_message_id = uv_sliced_message_id v, sl_slice_index = slice_index,
            sl_num_slices = num_slices, sl_payload = payload\<rparr>],
       uv_packet_sequence := sequence\<rparr>)
   }"

text \<open>One iteration of the loop over the queue.\<close>

definition send_unreliable ::
    "octets_api \<Rightarrow> u8 \<Rightarrow> unreliable_vars \<Rightarrow> bytes \<Rightarrow> unreliable_vars option" where
  "send_unreliable oa channel_id v message = do {
     memory \<leftarrow> usub (uv_memory_usage_bytes v) (length message);
     let v = v\<lparr>uv_memory_usage_bytes := memory\<rparr>;
     (if uv_available_bytes v < length message then Some v
      else do {
        available_bytes \<leftarrow> usub (uv_available_bytes v) (length message);
        let v = v\<lparr>uv_available_bytes := available_bytes\<rparr>;
        (if length message > SLICE_SIZE then do {
           let num_slices = div_ceil (length message) SLICE_SIZE;
           v \<leftarrow> foldM (push_unreliable_slice channel_id message num_slices) v [0..<num_slices];
           sliced_message_id \<leftarrow> uadd (uv_sliced_message_id v) 1;
           Some (v\<lparr>uv_sliced_message_id := sliced_message_id\<rparr>)
         } else do {
           serialized_size \<leftarrow> uadd (length message) (varint_len oa (length message));
           total \<leftarrow> uadd (uv_small_messages_bytes v) serialized_size;
           v \<leftarrow> (if total > SLICE_SIZE then push_unreliable channel_id v else Some v);
           small_messages_bytes \<leftarrow> uadd (uv_small_messages_bytes v) serialized_size;
           Some (v\<lparr>uv_small_messages_bytes := small_messages_bytes,
             uv_small_messages := uv_small_messages v @ [message]\<rparr>)
         })
      })
   }"

definition scu_get_packets_to_send ::
    "octets_api \<Rightarrow> send_channel_unreliable \<Rightarrow> u64 \<Rightarrow> u64
     \<Rightarrow> (send_channel_unreliable \<times> packet list \<times> u64 \<times> u64) option" where
  "scu_get_packets_to_send oa c sequence available_bytes = do {
     v \<leftarrow> foldM (send_unreliable oa (scu_channel_id c))
       \<lparr>uv_packets = [], uv_small_messages = [], uv_small_messages_bytes = 0,
        uv_packet_sequence = sequence, uv_available_bytes = available_bytes,
        uv_sliced_message_id = scu_sliced_message_id c,
        uv_memory_usage_bytes = scu_memory_usage_bytes c\<rparr> (scu_unreliable_messages c);
     v \<leftarrow> (if uv_small_messages v \<noteq> [] then push_unreliable (scu_channel_id c) v else Some v);
     Some (c\<lparr>scu_unreliable_messages := [], scu_sliced_message_id := uv_sliced_message_id v,
         scu_memory_usage_bytes := uv_memory_usage_bytes v\<rparr>,
       uv_packets v, uv_packet_sequence v, uv_available_bytes v)
   }"

definition scu_send_message ::
    "send_channel_unreliable \<Rightarrow> bytes \<Rightarrow> send_channel_unreliable option" where
  "scu_send_message c message = do {
     total \<leftarrow> uadd (scu_memory_usage_bytes c) (length message);
     (if total > scu_max_memory_usage_bytes c then Some c
      else Some (c\<lparr>scu_memory_usage_bytes := total,
        scu_unreliable_messages := scu_unreliable_messages c @ [message]\<rparr>))
   }"

section \<open>Specification\<close>

text \<open>The messages a tick sends with a budget of \<open>a\<close> bytes: in the order of the queue, each one
  that the rest of the budget covers.\<close>

fun affordable :: "nat \<Rightarrow> bytes list \<Rightarrow> bytes list" where
  "affordable a [] = []"
| "affordable a (m # ms) =
     (if length m \<le> a then m # affordable (a - length m) ms else affordable a ms)"

text \<open>The slices of the messages longer than a slice, numbered from \<open>i\<close>.\<close>

definition is_big :: "bytes \<Rightarrow> bool" where
  "is_big m \<longleftrightarrow> length m > SLICE_SIZE"

fun big_slices :: "u64 \<Rightarrow> bytes list \<Rightarrow> slice list" where
  "big_slices i [] = []"
| "big_slices i (m # ms) =
     (if is_big m
      then map (nth_slice i m (div_ceil (length m) SLICE_SIZE))
             [0..<div_ceil (length m) SLICE_SIZE] @ big_slices (i + 1) ms
      else big_slices i ms)"

fun packet_payloads :: "packet \<Rightarrow> bytes list" where
  "packet_payloads (SmallUnreliable _ _ ms) = ms"
| "packet_payloads _ = []"

fun packet_unreliable_slices :: "packet \<Rightarrow> slice list" where
  "packet_unreliable_slices (UnreliableSlice _ _ s) = [s]"
| "packet_unreliable_slices _ = []"

definition payloads :: "packet list \<Rightarrow> bytes list" where
  "payloads ps = concat (map packet_payloads ps)"

definition unreliable_slices :: "packet list \<Rightarrow> slice list" where
  "unreliable_slices ps = concat (map packet_unreliable_slices ps)"

definition scu_inv :: "send_channel_unreliable \<Rightarrow> bool" where
  "scu_inv c \<longleftrightarrow>
     scu_memory_usage_bytes c = sum_list (map length (scu_unreliable_messages c))
     \<and> scu_memory_usage_bytes c \<le> scu_max_memory_usage_bytes c
     \<and> scu_max_memory_usage_bytes c \<le> 2 ^ 63
     \<and> (\<forall>m \<in> set (scu_unreliable_messages c). length m < 2 ^ 63)"

section \<open>The loop\<close>

definition payloads_size :: "octets_api \<Rightarrow> bytes list \<Rightarrow> nat" where
  "payloads_size oa ms = sum_list (map (\<lambda>m. length m + varint_len oa (length m)) ms)"

fun unreliable_shape :: "octets_api \<Rightarrow> u8 \<Rightarrow> packet \<Rightarrow> bool" where
  "unreliable_shape oa ch (SmallUnreliable _ c ms) \<longleftrightarrow>
     c = ch \<and> payloads_size oa ms \<le> SLICE_SIZE + 10 \<and> length ms \<le> payloads_size oa ms"
| "unreliable_shape oa ch (UnreliableSlice _ c s) \<longleftrightarrow> c = ch \<and> length (sl_payload s) \<le> SLICE_SIZE"
| "unreliable_shape oa ch _ \<longleftrightarrow> False"

definition uv_inv :: "octets_api \<Rightarrow> u8 \<Rightarrow> u64 \<Rightarrow> unreliable_vars \<Rightarrow> bool" where
  "uv_inv oa ch s0 v \<longleftrightarrow>
     s0 \<le> uv_packet_sequence v \<and> map packet_sequence (uv_packets v) = [s0..<uv_packet_sequence v]
     \<and> uv_small_messages_bytes v = payloads_size oa (uv_small_messages v)
     \<and> uv_small_messages_bytes v \<le> SLICE_SIZE + 10
     \<and> length (uv_small_messages v) \<le> uv_small_messages_bytes v
     \<and> (\<forall>p \<in> set (uv_packets v). unreliable_shape oa ch p)"

lemma payload_simps [simp]:
  "payloads [] = []" "unreliable_slices [] = []"
  "payloads (ps @ qs) = payloads ps @ payloads qs"
  "unreliable_slices (ps @ qs) = unreliable_slices ps @ unreliable_slices qs"
  "payloads [SmallUnreliable s ch ms] = ms" "unreliable_slices [SmallUnreliable s ch ms] = []"
  "payloads [UnreliableSlice s ch sl] = []" "unreliable_slices [UnreliableSlice s ch sl] = [sl]"
  by (simp_all add: payloads_def unreliable_slices_def)

definition unreliable_cost :: "bytes \<Rightarrow> nat" where
  "unreliable_cost m = (if is_big m then div_ceil (length m) SLICE_SIZE else 1)"

lemma push_unreliable_inv:
  assumes "uv_inv oa ch s0 v" and "uv_packet_sequence v + 1 < 2 ^ 64"
  shows "\<exists>v'. push_unreliable ch v = Some v' \<and> uv_inv oa ch s0 v'
    \<and> uv_small_messages v' = [] \<and> uv_small_messages_bytes v' = 0
    \<and> uv_available_bytes v' = uv_available_bytes v
    \<and> uv_sliced_message_id v' = uv_sliced_message_id v
    \<and> uv_memory_usage_bytes v' = uv_memory_usage_bytes v
    \<and> payloads (uv_packets v') = payloads (uv_packets v) @ uv_small_messages v
    \<and> unreliable_slices (uv_packets v') = unreliable_slices (uv_packets v)
    \<and> uv_packet_sequence v' = uv_packet_sequence v + 1"
  using assms by (auto simp: push_unreliable_def uadd_def uv_inv_def payloads_size_def)

lemma push_slices_inv:
  assumes "uv_inv oa ch s0 v" and "slices_of m n" and "uv_packet_sequence v + length ks < 2 ^ 64"
    and "\<forall>k \<in> set ks. k < n"
  shows "\<exists>v'. foldM (push_unreliable_slice ch m n) v ks = Some v' \<and> uv_inv oa ch s0 v'
    \<and> uv_small_messages v' = uv_small_messages v
    \<and> uv_available_bytes v' = uv_available_bytes v
    \<and> uv_sliced_message_id v' = uv_sliced_message_id v
    \<and> uv_memory_usage_bytes v' = uv_memory_usage_bytes v
    \<and> payloads (uv_packets v') = payloads (uv_packets v)
    \<and> unreliable_slices (uv_packets v') =
        unreliable_slices (uv_packets v) @ map (nth_slice (uv_sliced_message_id v) m n) ks
    \<and> uv_packet_sequence v' = uv_packet_sequence v + length ks"
  using assms
proof (induction ks arbitrary: v)
  case (Cons k ks)
  let ?v = "v\<lparr>uv_packets := uv_packets v @ [UnreliableSlice (uv_packet_sequence v) ch
      (nth_slice (uv_sliced_message_id v) m n k)], uv_packet_sequence := uv_packet_sequence v + 1\<rparr>"
  have run: "push_unreliable_slice ch m n v k = Some ?v"
    using slice_payload_chunk[OF Cons.prems(2), of k] Cons.prems
    by (simp add: push_unreliable_slice_def uadd_def nth_slice_def)
  have "uv_inv oa ch s0 ?v"
    using Cons.prems(1) by (simp add: uv_inv_def nth_slice_def msg_chunk_def)
  from Cons.IH[OF this Cons.prems(2)] Cons.prems(3,4) show ?case by (simp add: run)
qed auto

text \<open>The effect of one iteration, with \<open>sent\<close> telling whether the budget covered the message.\<close>

definition unreliable_step ::
    "bytes \<Rightarrow> unreliable_vars \<Rightarrow> unreliable_vars \<Rightarrow> bool" where
  "unreliable_step m v v' \<longleftrightarrow>
     uv_memory_usage_bytes v' = uv_memory_usage_bytes v - length m
     \<and> uv_packet_sequence v' \<le> uv_packet_sequence v + unreliable_cost m
     \<and> (let sent = length m \<le> uv_available_bytes v; i = uv_sliced_message_id v;
            n = div_ceil (length m) SLICE_SIZE in
        uv_available_bytes v' = (if sent then uv_available_bytes v - length m else uv_available_bytes v)
        \<and> uv_sliced_message_id v' = (if sent \<and> is_big m then i + 1 else i)
        \<and> payloads (uv_packets v') @ uv_small_messages v' =
            payloads (uv_packets v) @ uv_small_messages v @ (if sent \<and> \<not> is_big m then [m] else [])
        \<and> unreliable_slices (uv_packets v') = unreliable_slices (uv_packets v)
            @ (if sent \<and> is_big m then map (nth_slice i m n) [0..<n] else []))"

context octets_contract
begin

lemma send_unreliable_small:
  assumes v: "uv_inv oa ch s0 v" "uv_packet_sequence v + 1 < 2 ^ 64"
    and m: "\<not> is_big m" "length m \<le> uv_memory_usage_bytes v" "length m \<le> uv_available_bytes v"
  shows "\<exists>v'. send_unreliable oa ch v m = Some v' \<and> uv_inv oa ch s0 v' \<and> unreliable_step m v v'"
proof -
  let ?size = "length m + varint_len oa (length m)"
  let ?v = "v\<lparr>uv_memory_usage_bytes := uv_memory_usage_bytes v - length m,
    uv_available_bytes := uv_available_bytes v - length m\<rparr>"
  have small: "length m \<le> SLICE_SIZE" using m(1) by (simp add: is_big_def)
  then have l: "length m < 2 ^ 14" "length m < 2 ^ 62" by (simp_all add: SLICE_SIZE_def)
  have size: "?size \<le> SLICE_SIZE + 10" "1 \<le> ?size"
    using small varint_len_small[OF l(1)] varint_len_pos[OF l(2)] by auto
  define w0 where "w0 = (if uv_small_messages_bytes ?v + ?size > SLICE_SIZE
    then push_unreliable ch ?v else Some ?v)"
  have inv: "uv_inv oa ch s0 ?v" using v(1) by (simp add: uv_inv_def)
  have b: "uv_small_messages_bytes v \<le> SLICE_SIZE + 10" using v(1) by (simp add: uv_inv_def)
  obtain w where w: "w0 = Some w" "uv_inv oa ch s0 w"
    "uv_available_bytes w = uv_available_bytes v - length m"
    "uv_memory_usage_bytes w = uv_memory_usage_bytes v - length m"
    "uv_sliced_message_id w = uv_sliced_message_id v"
    "payloads (uv_packets w) @ uv_small_messages w = payloads (uv_packets v) @ uv_small_messages v"
    "unreliable_slices (uv_packets w) = unreliable_slices (uv_packets v)"
    "uv_packet_sequence w \<le> uv_packet_sequence v + 1"
    "uv_small_messages_bytes w + ?size \<le> SLICE_SIZE + 10"
    using push_unreliable_inv[OF inv] v(2) inv size unfolding w0_def
    by (cases "uv_small_messages_bytes ?v + ?size > SLICE_SIZE") auto
  let ?v' = "w\<lparr>uv_small_messages_bytes := uv_small_messages_bytes w + ?size,
      uv_small_messages := uv_small_messages w @ [m]\<rparr>"
  have "send_unreliable oa ch v m = Some ?v'"
    using m small size w(1,9) b unfolding w0_def
    by (auto simp: send_unreliable_def usub_def uadd_def Let_def SLICE_SIZE_def)
  moreover have "uv_inv oa ch s0 ?v'"
    using w(2,9) size by (auto simp: uv_inv_def payloads_size_def)
  moreover have "unreliable_step m v ?v'"
    using w m by (simp add: unreliable_step_def unreliable_cost_def)
  ultimately show ?thesis by blast
qed

lemma send_unreliable_big:
  assumes v: "uv_inv oa ch s0 v" "uv_packet_sequence v + unreliable_cost m < 2 ^ 64"
    "uv_sliced_message_id v + 1 < 2 ^ 64"
    and m: "is_big m" "length m \<le> uv_memory_usage_bytes v" "length m \<le> uv_available_bytes v"
    "length m < 2 ^ 63"
  shows "\<exists>v'. send_unreliable oa ch v m = Some v' \<and> uv_inv oa ch s0 v' \<and> unreliable_step m v v'"
proof -
  let ?n = "div_ceil (length m) SLICE_SIZE"
  let ?v = "v\<lparr>uv_memory_usage_bytes := uv_memory_usage_bytes v - length m,
    uv_available_bytes := uv_available_bytes v - length m\<rparr>"
  have big: "SLICE_SIZE < length m" using m(1) by (simp add: is_big_def)
  have "slices_of m ?n"
    using sliced_slices_of(1)[OF new_sliced_ok[OF big m(4), unfolded new_sliced_def Let_def]] .
  moreover have "uv_inv oa ch s0 ?v" using v(1) by (simp add: uv_inv_def)
  moreover have "uv_packet_sequence ?v + length [0..<?n] < 2 ^ 64"
    using v(2) m(1) by (simp add: unreliable_cost_def)
  ultimately obtain w where w: "foldM (push_unreliable_slice ch m ?n) ?v [0..<?n] = Some w"
    "uv_inv oa ch s0 w" "uv_small_messages w = uv_small_messages v"
    "uv_available_bytes w = uv_available_bytes v - length m"
    "uv_sliced_message_id w = uv_sliced_message_id v"
    "uv_memory_usage_bytes w = uv_memory_usage_bytes v - length m"
    "payloads (uv_packets w) = payloads (uv_packets v)"
    "unreliable_slices (uv_packets w) =
        unreliable_slices (uv_packets v) @ map (nth_slice (uv_sliced_message_id v) m ?n) [0..<?n]"
    "uv_packet_sequence w = uv_packet_sequence v + ?n"
    using push_slices_inv[of oa ch s0 ?v m ?n "[0..<?n]"] by auto
  let ?v' = "w\<lparr>uv_sliced_message_id := uv_sliced_message_id w + 1\<rparr>"
  have "send_unreliable oa ch v m = Some ?v'"
    using m v(3) big w(1,5) by (simp add: send_unreliable_def usub_def uadd_def Let_def)
  moreover have "uv_inv oa ch s0 ?v'" using w(2) by (simp add: uv_inv_def)
  moreover have "unreliable_step m v ?v'"
    using w m by (simp add: unreliable_step_def unreliable_cost_def Let_def)
  ultimately show ?thesis by blast
qed

lemma send_unreliable_spec:
  assumes v: "uv_inv oa ch s0 v" "uv_packet_sequence v + unreliable_cost m < 2 ^ 64"
    "uv_sliced_message_id v + 1 < 2 ^ 64"
    and m: "length m \<le> uv_memory_usage_bytes v" "length m < 2 ^ 63"
  shows "\<exists>v'. send_unreliable oa ch v m = Some v' \<and> uv_inv oa ch s0 v' \<and> unreliable_step m v v'"
proof (cases "length m \<le> uv_available_bytes v")
  case True
  with assms show ?thesis
    using send_unreliable_small[OF v(1)] send_unreliable_big[OF v]
    by (cases "is_big m") (auto simp: unreliable_cost_def)
next
  case False
  let ?v = "v\<lparr>uv_memory_usage_bytes := uv_memory_usage_bytes v - length m\<rparr>"
  have "send_unreliable oa ch v m = Some ?v"
    using False m(1) by (simp add: send_unreliable_def usub_def)
  moreover have "uv_inv oa ch s0 ?v" using v(1) by (simp add: uv_inv_def)
  moreover have "unreliable_step m v ?v" using False by (simp add: unreliable_step_def)
  ultimately show ?thesis by blast
qed

lemma send_unreliable_all:
  assumes "uv_inv oa ch s0 v" and "uv_packet_sequence v + sum_list (map unreliable_cost ms) < 2 ^ 64"
    and "uv_sliced_message_id v + length ms < 2 ^ 64"
    and "sum_list (map length ms) \<le> uv_memory_usage_bytes v" and "\<forall>m \<in> set ms. length m < 2 ^ 63"
  defines "out \<equiv> affordable (uv_available_bytes v) ms"
  shows "\<exists>v'. foldM (send_unreliable oa ch) v ms = Some v' \<and> uv_inv oa ch s0 v'
    \<and> uv_memory_usage_bytes v' = uv_memory_usage_bytes v - sum_list (map length ms)
    \<and> uv_packet_sequence v' \<le> uv_packet_sequence v + sum_list (map unreliable_cost ms)
    \<and> uv_available_bytes v' + sum_list (map length out) = uv_available_bytes v
    \<and> uv_sliced_message_id v' = uv_sliced_message_id v + length (filter is_big out)
    \<and> payloads (uv_packets v') @ uv_small_messages v' =
        (payloads (uv_packets v) @ uv_small_messages v) @ filter (\<lambda>m. \<not> is_big m) out
    \<and> unreliable_slices (uv_packets v') =
        unreliable_slices (uv_packets v) @ big_slices (uv_sliced_message_id v) out"
  using assms(1-5) unfolding out_def
proof (induction ms arbitrary: v)
  case (Cons m ms)
  from send_unreliable_spec[of ch s0 v m] Cons.prems obtain v1 where
    1: "send_unreliable oa ch v m = Some v1" "uv_inv oa ch s0 v1" and st: "unreliable_step m v v1" by auto
  have eq: "uv_memory_usage_bytes v1 = uv_memory_usage_bytes v - length m"
    "uv_packet_sequence v1 \<le> uv_packet_sequence v + unreliable_cost m"
    "uv_sliced_message_id v1 \<le> uv_sliced_message_id v + 1"
    using st by (simp_all add: unreliable_step_def Let_def)
  have "uv_packet_sequence v1 + sum_list (map unreliable_cost ms) < 2 ^ 64"
    "uv_sliced_message_id v1 + length ms < 2 ^ 64"
    "sum_list (map length ms) \<le> uv_memory_usage_bytes v1" "\<forall>m \<in> set ms. length m < 2 ^ 63"
    using Cons.prems eq by auto
  from Cons.IH[OF 1(2) this] obtain v2 where
    2: "foldM (send_unreliable oa ch) v1 ms = Some v2" "uv_inv oa ch s0 v2"
      "uv_memory_usage_bytes v2 = uv_memory_usage_bytes v1 - sum_list (map length ms)"
      "uv_packet_sequence v2 \<le> uv_packet_sequence v1 + sum_list (map unreliable_cost ms)"
      "uv_available_bytes v2 + sum_list (map length (affordable (uv_available_bytes v1) ms)) =
        uv_available_bytes v1"
      "uv_sliced_message_id v2 = uv_sliced_message_id v1
        + length (filter is_big (affordable (uv_available_bytes v1) ms))"
      "payloads (uv_packets v2) @ uv_small_messages v2 = (payloads (uv_packets v1) @ uv_small_messages v1)
        @ filter (\<lambda>m. \<not> is_big m) (affordable (uv_available_bytes v1) ms)"
      "unreliable_slices (uv_packets v2) = unreliable_slices (uv_packets v1)
        @ big_slices (uv_sliced_message_id v1) (affordable (uv_available_bytes v1) ms)" by blast
  have parts: "uv_available_bytes v1 =
      (if length m \<le> uv_available_bytes v then uv_available_bytes v - length m else uv_available_bytes v)"
    "uv_sliced_message_id v1 = (if length m \<le> uv_available_bytes v \<and> is_big m
      then uv_sliced_message_id v + 1 else uv_sliced_message_id v)"
    "payloads (uv_packets v1) @ uv_small_messages v1 = payloads (uv_packets v) @ uv_small_messages v
      @ (if length m \<le> uv_available_bytes v \<and> \<not> is_big m then [m] else [])"
    "unreliable_slices (uv_packets v1) = unreliable_slices (uv_packets v)
      @ (if length m \<le> uv_available_bytes v \<and> is_big m
         then map (nth_slice (uv_sliced_message_id v) m (div_ceil (length m) SLICE_SIZE))
           [0..<div_ceil (length m) SLICE_SIZE] else [])"
    using st by (simp_all only: unreliable_step_def Let_def)
  show ?case
    using 1(1) 2(1-6,8) 2(7)[unfolded parts(3)] parts(1,2,4) eq
    by (cases "length m \<le> uv_available_bytes v"; cases "is_big m") auto
qed simp

end

section \<open>Properties\<close>

lemma unreliable_cost_le: "length m < 2 ^ 63 \<Longrightarrow> unreliable_cost m \<le> 1 + length m"
proof (cases "is_big m")
  case True
  assume "length m < 2 ^ 63"
  with True have "div_ceil (length m) SLICE_SIZE \<le> length m"
    using sliced_slices_of(3)[OF new_sliced_ok[of m, unfolded new_sliced_def Let_def]]
    by (simp add: is_big_def)
  then show ?thesis by (simp add: unreliable_cost_def)
qed (simp add: unreliable_cost_def)

lemma unreliable_costs_le:
  "\<forall>m \<in> set ms. length m < 2 ^ 63 \<Longrightarrow>
   sum_list (map unreliable_cost ms) \<le> length ms + sum_list (map length ms)"
proof (induction ms)
  case (Cons m ms)
  then show ?case using unreliable_cost_le[of m] by simp
qed simp

lemma scu_new_inv: "mx \<le> 2 ^ 63 \<Longrightarrow> scu_inv (scu_new ch mx)"
  by (simp add: scu_inv_def scu_new_def)

lemma scu_send_message_inv:
  assumes "scu_inv c" and "length m < 2 ^ 63"
  shows "scu_send_message c m = Some (
      if scu_memory_usage_bytes c + length m > scu_max_memory_usage_bytes c then c
      else c\<lparr>scu_memory_usage_bytes := scu_memory_usage_bytes c + length m,
        scu_unreliable_messages := scu_unreliable_messages c @ [m]\<rparr>)"
    and "\<exists>c'. scu_send_message c m = Some c' \<and> scu_inv c'"
proof -
  have "scu_memory_usage_bytes c + length m < 2 ^ 64" using assms by (auto simp: scu_inv_def)
  then show run: "scu_send_message c m = Some (
      if scu_memory_usage_bytes c + length m > scu_max_memory_usage_bytes c then c
      else c\<lparr>scu_memory_usage_bytes := scu_memory_usage_bytes c + length m,
        scu_unreliable_messages := scu_unreliable_messages c @ [m]\<rparr>)"
    by (simp add: scu_send_message_def uadd_def)
  show "\<exists>c'. scu_send_message c m = Some c' \<and> scu_inv c'"
    unfolding run using assms by (auto simp: scu_inv_def)
qed

context octets_contract
begin

lemma unreliable_packets_ok:
  fixes a :: u64
  assumes c: "scu_inv c" and s: "s + length (scu_unreliable_messages c) + scu_memory_usage_bytes c + 1 < 2 ^ 64"
    "scu_sliced_message_id c + length (scu_unreliable_messages c) < 2 ^ 64"
  defines "out \<equiv> affordable a (scu_unreliable_messages c)"
  shows "\<exists>ps s' a'. scu_get_packets_to_send oa c s a = Some (c\<lparr>scu_unreliable_messages := [],
        scu_sliced_message_id := scu_sliced_message_id c + length (filter is_big out),
        scu_memory_usage_bytes := 0\<rparr>, ps, s', a')
    \<and> s \<le> s' \<and> map packet_sequence ps = [s..<s']
    \<and> s' \<le> s + length (scu_unreliable_messages c) + scu_memory_usage_bytes c + 1
    \<and> a' + sum_list (map length out) = a
    \<and> payloads ps = filter (\<lambda>m. \<not> is_big m) out
    \<and> unreliable_slices ps = big_slices (scu_sliced_message_id c) out
    \<and> (\<forall>p \<in> set ps. unreliable_shape oa (scu_channel_id c) p)"
proof -
  let ?ms = "scu_unreliable_messages c" and ?ch = "scu_channel_id c"
  let ?v = "\<lparr>uv_packets = [], uv_small_messages = [], uv_small_messages_bytes = 0,
        uv_packet_sequence = s, uv_available_bytes = a,
        uv_sliced_message_id = scu_sliced_message_id c,
        uv_memory_usage_bytes = scu_memory_usage_bytes c\<rparr>"
  have mem: "scu_memory_usage_bytes c = sum_list (map length ?ms)" and len: "\<forall>m \<in> set ?ms. length m < 2 ^ 63"
    using c by (auto simp: scu_inv_def)
  note cost = unreliable_costs_le[OF len]
  have "uv_inv oa ?ch s ?v" by (simp add: uv_inv_def payloads_size_def)
  moreover have "uv_packet_sequence ?v + sum_list (map unreliable_cost ?ms) < 2 ^ 64"
    using s(1) cost mem by simp
  ultimately obtain v where v: "foldM (send_unreliable oa ?ch) ?v ?ms = Some v" "uv_inv oa ?ch s v"
    "uv_memory_usage_bytes v = 0" "uv_packet_sequence v \<le> s + sum_list (map unreliable_cost ?ms)"
    "uv_available_bytes v + sum_list (map length out) = a"
    "uv_sliced_message_id v = scu_sliced_message_id c + length (filter is_big out)"
    "payloads (uv_packets v) @ uv_small_messages v = filter (\<lambda>m. \<not> is_big m) out"
    "unreliable_slices (uv_packets v) = big_slices (scu_sliced_message_id c) out"
    using send_unreliable_all[of ?ch s ?v ?ms] s(2) mem len by (auto simp: out_def)
  then obtain w where w: "(if uv_small_messages v \<noteq> [] then push_unreliable ?ch v else Some v) = Some w"
    "uv_inv oa ?ch s w" "payloads (uv_packets w) = filter (\<lambda>m. \<not> is_big m) out"
    "unreliable_slices (uv_packets w) = big_slices (scu_sliced_message_id c) out"
    "uv_packet_sequence w \<le> s + sum_list (map unreliable_cost ?ms) + 1"
    "uv_memory_usage_bytes w = 0" "uv_available_bytes w = uv_available_bytes v"
    "uv_sliced_message_id w = uv_sliced_message_id v"
    using push_unreliable_inv[OF v(2)] s(1) cost mem by (cases "uv_small_messages v = []") auto
  have "scu_get_packets_to_send oa c s a = Some (c\<lparr>scu_unreliable_messages := [],
        scu_sliced_message_id := scu_sliced_message_id c + length (filter is_big out),
        scu_memory_usage_bytes := 0\<rparr>, uv_packets w, uv_packet_sequence w, uv_available_bytes w)"
    using v(1,6) w(1,6,8) by (simp add: scu_get_packets_to_send_def)
  with v(5) w cost mem show ?thesis by (auto simp: uv_inv_def)
qed

end

text \<open>C4. A tick of an unreliable channel never panics and empties the queue. In the order of
  the queue it sends, whole, exactly the messages that the rest of the budget covers: the
  small ones collected into packets, the large ones cut into all their slices under
  consecutive message ids. The packets are numbered consecutively and the budget is charged
  exactly the bytes of the messages sent.\<close>

theorem unreliable_tick:
  assumes "octets_contract oa venc u16enc" and "scu_inv c"
    and "s + length (scu_unreliable_messages c) + scu_memory_usage_bytes c + 1 < 2 ^ 64"
    and "scu_sliced_message_id c + length (scu_unreliable_messages c) < 2 ^ 64"
  shows "\<exists>c' ps s' a'. scu_get_packets_to_send oa c s a = Some (c', ps, s', a')
    \<and> scu_inv c' \<and> scu_unreliable_messages c' = []
    \<and> map packet_sequence ps = [s..<s'] \<and> s' = s + length ps
    \<and> payloads ps = filter (\<lambda>m. \<not> is_big m) (affordable a (scu_unreliable_messages c))
    \<and> unreliable_slices ps = big_slices (scu_sliced_message_id c) (affordable a (scu_unreliable_messages c))
    \<and> a' + sum_list (map length (affordable a (scu_unreliable_messages c))) = a"
proof -
  from octets_contract.unreliable_packets_ok[OF assms, where a = a] obtain c' ps s' a' where
    r: "scu_get_packets_to_send oa c s a = Some (c', ps, s', a')"
    "c' = c\<lparr>scu_unreliable_messages := [],
        scu_sliced_message_id := scu_sliced_message_id c
          + length (filter is_big (affordable a (scu_unreliable_messages c))),
        scu_memory_usage_bytes := 0\<rparr>"
    "s \<le> s'" "map packet_sequence ps = [s..<s']"
    "a' + sum_list (map length (affordable a (scu_unreliable_messages c))) = a"
    "payloads ps = filter (\<lambda>m. \<not> is_big m) (affordable a (scu_unreliable_messages c))"
    "unreliable_slices ps = big_slices (scu_sliced_message_id c) (affordable a (scu_unreliable_messages c))"
    by blast
  have "s' = s + length ps" using r(3) arg_cong[OF r(4), of length] by simp
  moreover have "scu_inv c'" using assms(2) r(2) by (auto simp: scu_inv_def)
  ultimately show ?thesis using r by auto
qed

theorem unreliable_tick_witness:
  "\<exists>c' ps s' a'. scu_get_packets_to_send quic_octets
      (scu_new 3 1000\<lparr>scu_unreliable_messages := [[1], [2, 3, 4], [5]], scu_memory_usage_bytes := 5\<rparr>) 7 2
      = Some (c', ps, s', a') \<and> payloads ps = [[1], [5]] \<and> a' = 0"
proof -
  let ?c = "scu_new 3 1000\<lparr>scu_unreliable_messages := [[1], [2, 3, 4], [5]], scu_memory_usage_bytes := 5\<rparr>"
  have "scu_inv ?c" by (simp add: scu_inv_def scu_new_def)
  moreover have "affordable 2 (scu_unreliable_messages ?c) = [[1], [5]]" by simp
  ultimately show ?thesis
    using unreliable_tick[OF quic.octets_contract_axioms, of ?c 7 2]
    by (auto simp: scu_new_def is_big_def SLICE_SIZE_def)
qed

end
