(* ===== verification/ReceiveUnreliable.thy ===== *)
theory ReceiveUnreliable
  imports ReceiveReliable
begin

text \<open>
  The receiving half of an unreliable channel, \<open>ReceiveChannelUnreliable\<close> of
  \<open>src/renet/src/channel/unreliable.rs\<close>: a queue of received messages, and the
  constructors of the sliced ones with the time of the last slice, so that a message whose
  slices stop coming is discarded.
\<close>

section \<open>State and operations\<close>

record receive_channel_unreliable =
  rcu_channel_id :: u8
  rcu_messages :: "bytes list"
  rcu_slices :: "(u64 \<times> slice_constructor) list"
  rcu_slices_last_received :: "(u64 \<times> duration) list"
  rcu_max_memory_usage_bytes :: usize
  rcu_memory_usage_bytes :: usize

definition rcu_new :: "u8 \<Rightarrow> usize \<Rightarrow> receive_channel_unreliable" where
  "rcu_new channel_id max_memory_usage_bytes =
     \<lparr>rcu_channel_id = channel_id, rcu_messages = [], rcu_slices = [],
      rcu_slices_last_received = [], rcu_max_memory_usage_bytes = max_memory_usage_bytes,
      rcu_memory_usage_bytes = 0\<rparr>"

definition rcu_process_message ::
    "receive_channel_unreliable \<Rightarrow> bytes \<Rightarrow> receive_channel_unreliable option" where
  "rcu_process_message c message = do {
     total \<leftarrow> uadd (rcu_memory_usage_bytes c) (length message);
     (if total > rcu_max_memory_usage_bytes c then Some c
      else Some (c\<lparr>rcu_memory_usage_bytes := total, rcu_messages := rcu_messages c @ [message]\<rparr>))
   }"

text \<open>The constructor of the slice's message, with its memory reserved when it is new; \<open>None\<close>
  inside is the early return of a channel that is memory limited.\<close>

definition rcu_reserve_slice ::
    "receive_channel_unreliable \<Rightarrow> slice
     \<Rightarrow> (receive_channel_unreliable \<times> slice_constructor) option option" where
  "rcu_reserve_slice c sl = (case bt_get (rcu_slices c) (sl_message_id sl) of
     Some slice_constructor \<Rightarrow> Some (Some (c, slice_constructor))
   | None \<Rightarrow> do {
       message_len \<leftarrow> umul (sl_num_slices sl) SLICE_SIZE;
       total \<leftarrow> uadd (rcu_memory_usage_bytes c) message_len;
       (if total > rcu_max_memory_usage_bytes c then Some None
        else do {
          slice_constructor \<leftarrow> sc_new (sl_message_id sl) (sl_num_slices sl);
          Some (Some (c\<lparr>rcu_memory_usage_bytes := total\<rparr>, slice_constructor))
        })
     })"

definition rcu_slice_processed ::
    "receive_channel_unreliable \<Rightarrow> slice \<Rightarrow> duration \<Rightarrow> channel_error + bytes option
     \<Rightarrow> (receive_channel_unreliable \<times> (channel_error + unit)) option" where
  "rcu_slice_processed c sl current_time r = (case r of
     Inl e \<Rightarrow> Some (c, Inl e)
   | Inr None \<Rightarrow>
       Some (c\<lparr>rcu_slices_last_received :=
         bt_insert (sl_message_id sl) current_time (rcu_slices_last_received c)\<rparr>, Inr ())
   | Inr (Some message) \<Rightarrow> do {
       message_len \<leftarrow> umul (sl_num_slices sl) SLICE_SIZE;
       memory \<leftarrow> usub (rcu_memory_usage_bytes c) message_len;
       memory \<leftarrow> uadd memory (length message);
       Some (c\<lparr>rcu_slices := bt_remove (sl_message_id sl) (rcu_slices c),
         rcu_slices_last_received := bt_remove (sl_message_id sl) (rcu_slices_last_received c),
         rcu_memory_usage_bytes := memory, rcu_messages := rcu_messages c @ [message]\<rparr>, Inr ())
     })"

definition rcu_process_slice ::
    "receive_channel_unreliable \<Rightarrow> slice \<Rightarrow> duration
     \<Rightarrow> (receive_channel_unreliable \<times> (channel_error + unit)) option" where
  "rcu_process_slice c sl current_time = do {
     reserved \<leftarrow> rcu_reserve_slice c sl;
     (case reserved of
        None \<Rightarrow> Some (c, Inr ())
      | Some (c, slice_constructor) \<Rightarrow> do {
          (slice_constructor, r) \<leftarrow>
            sc_process_slice slice_constructor (sl_slice_index sl) (sl_payload sl);
          rcu_slice_processed (c\<lparr>rcu_slices :=
            bt_insert (sl_message_id sl) slice_constructor (rcu_slices c)\<rparr>) sl current_time r
        })
   }"

definition DISCARD_AFTER :: duration where
  "DISCARD_AFTER = from_secs 3"

text \<open>The first loop of \<open>discard_incomplete_old_slices\<close>, which stops at the first message that is
  not old.\<close>

fun rcu_lost_messages :: "duration \<Rightarrow> (u64 \<times> duration) list \<Rightarrow> u64 list option" where
  "rcu_lost_messages current_time [] = Some []"
| "rcu_lost_messages current_time ((message_id, last_received) # es) = do {
     d \<leftarrow> dsub current_time last_received;
     (if d \<ge> DISCARD_AFTER then do {
        lost_messages \<leftarrow> rcu_lost_messages current_time es;
        Some (message_id # lost_messages)
      } else Some [])
   }"

definition rcu_discard :: "receive_channel_unreliable \<Rightarrow> u64 \<Rightarrow> receive_channel_unreliable option" where
  "rcu_discard c message_id = do {
     sc \<leftarrow> bt_get (rcu_slices c) message_id;
     message_len \<leftarrow> umul (sc_num_slices sc) SLICE_SIZE;
     memory \<leftarrow> usub (rcu_memory_usage_bytes c) message_len;
     Some (c\<lparr>rcu_slices_last_received := bt_remove message_id (rcu_slices_last_received c),
       rcu_slices := bt_remove message_id (rcu_slices c), rcu_memory_usage_bytes := memory\<rparr>)
   }"

definition rcu_discard_incomplete_old_slices ::
    "receive_channel_unreliable \<Rightarrow> duration \<Rightarrow> receive_channel_unreliable option" where
  "rcu_discard_incomplete_old_slices c current_time = do {
     lost_messages \<leftarrow> rcu_lost_messages current_time (rcu_slices_last_received c);
     foldM rcu_discard c lost_messages
   }"

definition rcu_receive_message ::
    "receive_channel_unreliable \<Rightarrow> (receive_channel_unreliable \<times> bytes option) option" where
  "rcu_receive_message c = (case rcu_messages c of
     [] \<Rightarrow> Some (c, None)
   | message # messages \<Rightarrow> do {
       memory \<leftarrow> usub (rcu_memory_usage_bytes c) (length message);
       Some (c\<lparr>rcu_messages := messages, rcu_memory_usage_bytes := memory\<rparr>, Some message)
     })"

section \<open>The invariant\<close>

text \<open>Every constructor has the time of its last slice, not in the future; the counter is what the
  waiting messages and the constructors take. \<open>sent i\<close> is the large message that the peer
  sends under the id \<open>i\<close>, and \<open>small\<close> holds of the small messages it sends.\<close>

definition rcu_inv :: "duration \<Rightarrow> receive_channel_unreliable \<Rightarrow> bool" where
  "rcu_inv now c \<longleftrightarrow>
     bt_ok (rcu_slices c) \<and> bt_ok (rcu_slices_last_received c)
     \<and> fst ` set (rcu_slices_last_received c) = fst ` set (rcu_slices c)
     \<and> (\<forall>t \<in> snd ` set (rcu_slices_last_received c). t \<le> now)
     \<and> (\<forall>s \<in> snd ` set (rcu_slices c). sc_wf s)
     \<and> rcu_memory_usage_bytes c = sum_list (map length (rcu_messages c))
         + total_of constructor_bytes (rcu_slices c)
     \<and> rcu_memory_usage_bytes c \<le> rcu_max_memory_usage_bytes c
     \<and> rcu_max_memory_usage_bytes c \<le> 2 ^ 63"

lemma rcu_new_inv: "mx \<le> 2 ^ 63 \<Longrightarrow> rcu_inv now (rcu_new ch mx)"
  by (simp add: rcu_inv_def rcu_new_def)

lemma rcu_inv_later: "rcu_inv now c \<Longrightarrow> now \<le> now' \<Longrightarrow> rcu_inv now' c"
  by (auto simp: rcu_inv_def)

lemma rcu_process_message_inv:
  assumes "rcu_inv now c" and "length m < 2 ^ 63"
  shows "\<exists>c'. rcu_process_message c m = Some c' \<and> rcu_inv now c'
    \<and> rcu_slices c' = rcu_slices c \<and> rcu_messages c' \<in> {rcu_messages c, rcu_messages c @ [m]}"
proof -
  have "rcu_memory_usage_bytes c + length m < 2 ^ 64" using assms by (auto simp: rcu_inv_def)
  with assms(1) show ?thesis by (auto simp: rcu_process_message_def uadd_def rcu_inv_def)
qed

lemma rcu_receive_inv:
  assumes "rcu_inv now c"
  shows "\<exists>c' r. rcu_receive_message c = Some (c', r) \<and> rcu_inv now c' \<and> rcu_slices c' = rcu_slices c
    \<and> (case r of None \<Rightarrow> c' = c \<and> rcu_messages c = [] | Some m \<Rightarrow> rcu_messages c = m # rcu_messages c')"
  using assms by (cases "rcu_messages c") (auto simp: rcu_receive_message_def usub_def rcu_inv_def)

lemma bt_remove_insert: "bt_ok m \<Longrightarrow> bt_remove k (bt_insert k v m) = bt_remove k m"
proof (induction k v m rule: bt_insert.induct)
  case (2 k v a b m)
  then show ?case by (auto simp: bt_remove_def bt_ok_Cons)
qed (simp add: bt_remove_def)

lemma bt_remove_new: "bt_get m k = None \<Longrightarrow> bt_remove k m = m"
  by (auto simp: bt_remove_def bt.get_None_iff filter_id_conv)

lemma total_bt_insert:
  assumes "bt_ok m"
  shows "total_of w (bt_insert i v m) = w v + total_of w (bt_remove i m)"
proof -
  have "bt_get (bt_insert i v m) i = Some v" using assms by (simp add: bt.get_insert)
  from bt.total_remove[OF bt.ok_insert[OF assms] this, of w] assms
  show ?thesis by (simp add: bt_remove_insert)
qed

lemma keys_bt_remove: "fst ` set (bt_remove k m) = fst ` set m - {k}"
  by (auto simp: bt_remove_def)

definition rcu_slice_fits :: "receive_channel_unreliable \<Rightarrow> slice \<Rightarrow> bool" where
  "rcu_slice_fits c sl \<longleftrightarrow> sl_slice_index sl < sl_num_slices sl
     \<and> sl_num_slices sl * SLICE_SIZE < 2 ^ 63
     \<and> (\<forall>s. bt_get (rcu_slices c) (sl_message_id sl) = Some s \<longrightarrow> sc_num_slices s = sl_num_slices sl)"

lemma rcu_reserve_run:
  assumes c: "rcu_inv now c" and sl: "rcu_slice_fits c sl"
  defines "i \<equiv> sl_message_id sl" and "n \<equiv> sl_num_slices sl"
  shows "rcu_reserve_slice c sl = Some None
    \<or> (\<exists>m sc. rcu_reserve_slice c sl = Some (Some (c\<lparr>rcu_memory_usage_bytes := m\<rparr>, sc))
       \<and> sc_wf sc \<and> sc_num_slices sc = n \<and> m \<le> rcu_max_memory_usage_bytes c
       \<and> m = sum_list (map length (rcu_messages c)) + n * SLICE_SIZE
           + total_of constructor_bytes (bt_remove i (rcu_slices c))
       \<and> (case bt_get (rcu_slices c) i of None \<Rightarrow> sc_new i n = Some sc | Some sc' \<Rightarrow> sc = sc'))"
proof (cases "bt_get (rcu_slices c) i")
  case None
  let ?total = "rcu_memory_usage_bytes c + n * SLICE_SIZE"
  have n: "0 < n" "n * SLICE_SIZE < 2 ^ 63" using sl by (auto simp: rcu_slice_fits_def n_def)
  have "rcu_memory_usage_bytes c \<le> 2 ^ 63" using c by (simp add: rcu_inv_def)
  with n have ops: "umul n SLICE_SIZE = Some (n * SLICE_SIZE)"
    "uadd (rcu_memory_usage_bytes c) (n * SLICE_SIZE) = Some ?total"
    by (auto simp: umul_def uadd_def)
  have "n * SLICE_SIZE < 2 ^ 64" using n(2) by simp
  with sc_new_fresh[OF n(1)] obtain sc where sc: "sc_new i n = Some sc" "sc_wf sc"
    "sc_num_slices sc = n" by blast
  with None ops bt_remove_new[OF None] c show ?thesis
    by (auto simp: rcu_reserve_slice_def i_def n_def rcu_inv_def)
next
  case (Some sc)
  have ok: "bt_ok (rcu_slices c)" using c by (simp add: rcu_inv_def)
  have "sc_num_slices sc = n" using sl Some by (simp add: rcu_slice_fits_def n_def i_def)
  moreover have "(i, sc) \<in> set (rcu_slices c)" using Some bt.get_in_set[OF ok] by blast
  then have "sc_wf sc" using c by (force simp: rcu_inv_def)
  moreover have "total_of constructor_bytes (bt_remove i (rcu_slices c)) + n * SLICE_SIZE =
      total_of constructor_bytes (rcu_slices c)"
    using bt.total_remove[OF ok Some, of constructor_bytes] calculation(1)
    by (simp add: constructor_bytes_def)
  ultimately show ?thesis
    using Some c by (auto simp: rcu_reserve_slice_def i_def rcu_inv_def intro!: exI[of _ "rcu_memory_usage_bytes c"])
qed

fun rcu_effect :: "receive_channel_unreliable \<Rightarrow> slice \<Rightarrow> slice_constructor
    \<Rightarrow> channel_error + bytes option \<Rightarrow> receive_channel_unreliable \<Rightarrow> bool" where
  "rcu_effect c sl sc' (Inl e) c' \<longleftrightarrow> False"
| "rcu_effect c sl sc' (Inr None) c' \<longleftrightarrow> rcu_messages c' = rcu_messages c
     \<and> rcu_slices c' = bt_insert (sl_message_id sl) sc' (rcu_slices c)"
| "rcu_effect c sl sc' (Inr (Some m)) c' \<longleftrightarrow> rcu_messages c' = rcu_messages c @ [m]
     \<and> rcu_slices c' = bt_remove (sl_message_id sl) (rcu_slices c)"

lemma rcu_processed:
  assumes c: "rcu_inv now c" and n: "sc_num_slices sc = n" "sc_num_slices sc' = n"
      "n = sl_num_slices sl" "n * SLICE_SIZE < 2 ^ 63" and out: "sc_outcome_ok sc size_ok sc' r"
    and m: "m \<le> rcu_max_memory_usage_bytes c"
    "m = sum_list (map length (rcu_messages c)) + n * SLICE_SIZE
      + total_of constructor_bytes (bt_remove (sl_message_id sl) (rcu_slices c))"
  defines "c1 \<equiv> c\<lparr>rcu_memory_usage_bytes := m,
      rcu_slices := bt_insert (sl_message_id sl) sc' (rcu_slices c)\<rparr>"
  shows "(\<exists>c' e. rcu_slice_processed c1 sl now r = Some (c', Inl e))
    \<or> (\<exists>c'. rcu_slice_processed c1 sl now r = Some (c', Inr ()) \<and> rcu_inv now c' \<and> rcu_effect c sl sc' r c')"
proof -
  let ?i = "sl_message_id sl"
  have ok: "bt_ok (rcu_slices c)" "bt_ok (rcu_slices_last_received c)"
    and keys: "fst ` set (rcu_slices_last_received c) = fst ` set (rcu_slices c)"
    and mx: "rcu_max_memory_usage_bytes c \<le> 2 ^ 63"
    using c by (simp_all add: rcu_inv_def)
  consider e where "r = Inl e" | "r = Inr None" | msg where "r = Inr (Some msg)"
    by (metis sum.exhaust option.exhaust)
  then show ?thesis
  proof cases
    case 1
    then show ?thesis by (simp add: rcu_slice_processed_def)
  next
    case 2
    let ?c' = "c1\<lparr>rcu_slices_last_received := bt_insert ?i now (rcu_slices_last_received c)\<rparr>"
    have "sc_wf sc'" using out 2 by simp
    then have "\<forall>s \<in> snd ` set (bt_insert ?i sc' (rcu_slices c)). sc_wf s"
      using c ok by (auto simp: bt.set_insert rcu_inv_def)
    moreover have "\<forall>t \<in> snd ` set (bt_insert ?i now (rcu_slices_last_received c)). t \<le> now"
      using c ok by (auto simp: bt.set_insert rcu_inv_def)
    ultimately have "rcu_inv now ?c'"
      using c ok m n keys mx
      by (simp add: rcu_inv_def c1_def set_bt_insert_keys total_bt_insert constructor_bytes_def)
    with 2 show ?thesis by (simp add: rcu_slice_processed_def c1_def)
  next
    case 3
    let ?m = "m - n * SLICE_SIZE + length msg"
    let ?c' = "c1\<lparr>rcu_slices := bt_remove ?i (rcu_slices c),
      rcu_slices_last_received := bt_remove ?i (rcu_slices_last_received c),
      rcu_memory_usage_bytes := ?m, rcu_messages := rcu_messages c @ [msg]\<rparr>"
    have len: "length msg \<le> n * SLICE_SIZE" using out 3 n(1) by simp
    then have m': "?m = sum_list (map length (rcu_messages c @ [msg]))
        + total_of constructor_bytes (bt_remove ?i (rcu_slices c))" "n * SLICE_SIZE \<le> m" "?m \<le> m"
      using m(2) by simp_all
    have "rcu_slice_processed c1 sl now r = Some (?c', Inr ())"
      using 3 n(3,4) m'(2,3) m(1) mx ok
      by (simp add: rcu_slice_processed_def umul_def usub_def uadd_def c1_def bt_remove_insert)
    moreover have "rcu_inv now ?c'"
    proof -
      have "fst ` set (bt_remove ?i (rcu_slices_last_received c)) = fst ` set (bt_remove ?i (rcu_slices c))"
        by (simp add: keys_bt_remove keys)
      moreover have "\<forall>t \<in> snd ` set (bt_remove ?i (rcu_slices_last_received c)). t \<le> now"
        "\<forall>s \<in> snd ` set (bt_remove ?i (rcu_slices c)). sc_wf s"
        using c by (auto simp: rcu_inv_def bt_remove_def)
      ultimately show ?thesis using ok m' m(1) mx by (simp add: rcu_inv_def c1_def)
    qed
    ultimately show ?thesis using 3 by simp
  qed
qed

lemma rcu_process_slice_run:
  assumes c: "rcu_inv now c" and sl: "rcu_slice_fits c sl"
  shows "rcu_process_slice c sl now = Some (c, Inr ())
    \<or> (\<exists>c' e. rcu_process_slice c sl now = Some (c', Inl e))
    \<or> (\<exists>sc sc' r c'. (case bt_get (rcu_slices c) (sl_message_id sl) of
             None \<Rightarrow> sc_new (sl_message_id sl) (sl_num_slices sl) = Some sc
           | Some sc1 \<Rightarrow> sc = sc1)
        \<and> sc_process_slice sc (sl_slice_index sl) (sl_payload sl) = Some (sc', r)
        \<and> rcu_process_slice c sl now = Some (c', Inr ()) \<and> rcu_inv now c' \<and> rcu_effect c sl sc' r c')"
proof -
  let ?i = "sl_message_id sl" and ?n = "sl_num_slices sl"
  have fits: "sl_slice_index sl < ?n" "?n * SLICE_SIZE < 2 ^ 63"
    using sl by (simp_all add: rcu_slice_fits_def)
  consider (drop) "rcu_reserve_slice c sl = Some None"
    | (some) m sc where "rcu_reserve_slice c sl = Some (Some (c\<lparr>rcu_memory_usage_bytes := m\<rparr>, sc))"
      "sc_wf sc" "sc_num_slices sc = ?n" "m \<le> rcu_max_memory_usage_bytes c"
      "m = sum_list (map length (rcu_messages c)) + ?n * SLICE_SIZE
           + total_of constructor_bytes (bt_remove ?i (rcu_slices c))"
      "case bt_get (rcu_slices c) ?i of None \<Rightarrow> sc_new ?i ?n = Some sc | Some sc' \<Rightarrow> sc = sc'"
    using rcu_reserve_run[OF c sl] by blast
  then show ?thesis
  proof cases
    case drop
    then show ?thesis by (simp add: rcu_process_slice_def)
  next
    case some
    from sc_process_slice_wf[OF some(2), of "sl_slice_index sl" "sl_payload sl"] fits(1) some(3)
    obtain sc' r where sc': "sc_process_slice sc (sl_slice_index sl) (sl_payload sl) = Some (sc', r)"
      "sc_num_slices sc' = ?n" "sc_outcome_ok sc (slice_size_ok ?n (sl_slice_index sl) (sl_payload sl)) sc' r"
      by auto
    have "rcu_process_slice c sl now = rcu_slice_processed (c\<lparr>rcu_memory_usage_bytes := m,
        rcu_slices := bt_insert ?i sc' (rcu_slices c)\<rparr>) sl now r"
      using some(1) sc'(1) by (simp add: rcu_process_slice_def)
    with rcu_processed[OF c some(3) sc'(2) refl fits(2) sc'(3) some(4,5)] some(6) sc'(1)
    show ?thesis by metis
  qed
qed

section \<open>Discarding\<close>

definition old_slice :: "duration \<Rightarrow> u64 \<times> duration \<Rightarrow> bool" where
  "old_slice now e \<longleftrightarrow> DISCARD_AFTER \<le> now - snd e"

lemma rcu_lost_messages_run:
  "\<forall>t \<in> snd ` set es. t \<le> now \<Longrightarrow>
   rcu_lost_messages now es = Some (map fst (takeWhile (old_slice now) es))"
  by (induction now es rule: rcu_lost_messages.induct) (auto simp: dsub_def old_slice_def)

lemma bt_remove_head: "bt_ok ((k, v) # m) \<Longrightarrow> bt_remove k ((k, v) # m) = m"
  by (auto simp: bt_ok_Cons bt_remove_def filter_id_conv)

lemma same_keys:
  assumes "bt_ok m" and "bt_ok m'" and "fst ` set m = fst ` set m'"
  shows "map fst m = map fst m'"
  using assms by (auto simp: bt_ok_def strict_sorted_iff intro: sorted_distinct_set_unique)

text \<open>Discarding the first entries, one after the other.\<close>

lemma rcu_discard_prefix:
  assumes "rcu_inv now c" and "rcu_slices_last_received c = es @ rest"
  shows "\<exists>c'. foldM rcu_discard c (map fst es) = Some c' \<and> rcu_inv now c'
    \<and> rcu_slices_last_received c' = rest \<and> rcu_slices c' = drop (length es) (rcu_slices c)
    \<and> rcu_messages c' = rcu_messages c \<and> rcu_max_memory_usage_bytes c' = rcu_max_memory_usage_bytes c"
  using assms
proof (induction es arbitrary: c)
  case (Cons e es)
  obtain i t where e: "e = (i, t)" by (cases e)
  have ok: "bt_ok (rcu_slices c)" "bt_ok (rcu_slices_last_received c)"
    and keys: "map fst (rcu_slices_last_received c) = map fst (rcu_slices c)"
    using Cons.prems(1) same_keys by (auto simp: rcu_inv_def)
  from keys Cons.prems(2) e obtain s ss where ss: "rcu_slices c = (i, s) # ss"
    by (cases "rcu_slices c") auto
  have get: "bt_get (rcu_slices c) i = Some s" by (simp add: ss bt_get_def)
  have le: "sc_num_slices s * SLICE_SIZE \<le> rcu_memory_usage_bytes c"
    using bt.weight_le_total[OF ok(1) get, of constructor_bytes] Cons.prems(1)
    by (simp add: rcu_inv_def constructor_bytes_def)
  moreover have "rcu_memory_usage_bytes c \<le> 2 ^ 63" using Cons.prems(1) by (simp add: rcu_inv_def)
  ultimately have mul: "umul (sc_num_slices s) SLICE_SIZE = Some (sc_num_slices s * SLICE_SIZE)"
    by (simp add: umul_def)
  let ?c = "c\<lparr>rcu_slices_last_received := es @ rest, rcu_slices := ss,
    rcu_memory_usage_bytes := rcu_memory_usage_bytes c - sc_num_slices s * SLICE_SIZE\<rparr>"
  have tails: "bt_remove i (rcu_slices c) = ss" "bt_remove i (rcu_slices_last_received c) = es @ rest"
    using ok by (auto simp: ss e Cons.prems(2) bt_remove_head)
  then have run: "rcu_discard c i = Some ?c"
    using get mul le by (simp add: rcu_discard_def usub_def)
  have "rcu_inv now ?c"
    using Cons.prems ok e unfolding rcu_inv_def ss
    by (auto simp: bt_ok_Cons constructor_bytes_def)
  from Cons.IH[OF this] run show ?case by (auto simp: e ss)
qed simp

text \<open>C5. \<open>discard_incomplete_old_slices\<close> never panics (every message it discards has a
  constructor), keeps the memory accounting, and discards exactly the messages with the
  smallest ids up to the first one that had a slice within the last three seconds.\<close>

theorem discard_old_slices:
  assumes "rcu_inv now c"
  shows "\<exists>c'. rcu_discard_incomplete_old_slices c now = Some c' \<and> rcu_inv now c'
    \<and> rcu_slices_last_received c' = dropWhile (old_slice now) (rcu_slices_last_received c)
    \<and> rcu_slices c' = drop (length (takeWhile (old_slice now) (rcu_slices_last_received c))) (rcu_slices c)
    \<and> rcu_messages c' = rcu_messages c"
proof -
  let ?es = "rcu_slices_last_received c"
  have "\<forall>t \<in> snd ` set ?es. t \<le> now" using assms by (simp add: rcu_inv_def)
  then have "rcu_lost_messages now ?es = Some (map fst (takeWhile (old_slice now) ?es))"
    by (rule rcu_lost_messages_run)
  with rcu_discard_prefix[OF assms, of "takeWhile (old_slice now) ?es" "dropWhile (old_slice now) ?es"]
  show ?thesis by (auto simp: rcu_discard_incomplete_old_slices_def)
qed


theorem discard_old_slices_witness:
  "\<exists>s c'. sc_new 4 2 = Some s
    \<and> rcu_discard_incomplete_old_slices (rcu_new 0 5000\<lparr>rcu_slices := [(4, s)],
        rcu_slices_last_received := [(4, 1)], rcu_memory_usage_bytes := 2400\<rparr>) 3000000001 = Some c'
    \<and> rcu_slices c' = [] \<and> rcu_memory_usage_bytes c' = 0"
proof -
  obtain s where s: "sc_new 4 2 = Some s" "sc_wf s" "sc_num_slices s = 2"
    using sc_new_fresh[of 2 4] by (auto simp: SLICE_SIZE_def)
  let ?c = "rcu_new 0 5000\<lparr>rcu_slices := [(4, s)],
        rcu_slices_last_received := [(4, 1)], rcu_memory_usage_bytes := 2400\<rparr>"
  have "rcu_inv 3000000001 ?c"
    using s by (simp add: rcu_inv_def rcu_new_def bt_ok_def constructor_bytes_def SLICE_SIZE_def)
  from discard_old_slices[OF this] obtain c' where
    "rcu_discard_incomplete_old_slices ?c 3000000001 = Some c'" "rcu_slices c' = []"
    "rcu_messages c' = []" "rcu_inv 3000000001 c'"
    by (auto simp: old_slice_def DISCARD_AFTER_def from_secs_def rcu_new_def)
  with s(1) show ?thesis by (auto simp: rcu_inv_def)
qed

section \<open>Integrity\<close>

text \<open>The peer sends small messages, those with \<open>small m\<close>, and the large message \<open>big i\<close> under
  the id \<open>i\<close>.\<close>

datatype rcu_op = UMessage bytes | USlice slice | UReceive | UDiscard

fun rcu_authentic :: "(bytes \<Rightarrow> bool) \<Rightarrow> (u64 \<Rightarrow> bytes) \<Rightarrow> rcu_op \<Rightarrow> bool" where
  "rcu_authentic small big (UMessage m) \<longleftrightarrow> small m \<and> length m < 2 ^ 63"
| "rcu_authentic small big (USlice sl) \<longleftrightarrow>
     (\<exists>i. SLICE_SIZE < length (big i) \<and> length (big i) < 2 ^ 62 \<and>
        (\<exists>k < div_ceil (length (big i)) SLICE_SIZE.
           sl = nth_slice i (big i) (div_ceil (length (big i)) SLICE_SIZE) k))"
| "rcu_authentic small big UReceive \<longleftrightarrow> True"
| "rcu_authentic small big UDiscard \<longleftrightarrow> True"

fun rcu_exec :: "duration \<Rightarrow> receive_channel_unreliable \<Rightarrow> rcu_op
    \<Rightarrow> (receive_channel_unreliable \<times> (channel_error + bytes option)) option" where
  "rcu_exec now c (UMessage m) = do { c' \<leftarrow> rcu_process_message c m; Some (c', Inr None) }"
| "rcu_exec now c (USlice sl) = do {
     (c', r) \<leftarrow> rcu_process_slice c sl now; Some (c', map_sum id (\<lambda>_. None) r) }"
| "rcu_exec now c UReceive = do { (c', m) \<leftarrow> rcu_receive_message c; Some (c', Inr m) }"
| "rcu_exec now c UDiscard = do {
     c' \<leftarrow> rcu_discard_incomplete_old_slices c now; Some (c', Inr None) }"

text \<open>A run up to the first error; every operation comes with the time at which it happens.\<close>

fun rcu_run :: "receive_channel_unreliable \<Rightarrow> (duration \<times> rcu_op) list
    \<Rightarrow> (receive_channel_unreliable \<times> bytes list \<times> channel_error option) option" where
  "rcu_run c [] = Some (c, [], None)"
| "rcu_run c ((now, op) # ops) = do {
     (c', r) \<leftarrow> rcu_exec now c op;
     (case r of
        Inl e \<Rightarrow> Some (c', [], Some e)
      | Inr m \<Rightarrow> do {
          (c'', delivered, e) \<leftarrow> rcu_run c' ops;
          Some (c'', (case m of None \<Rightarrow> delivered | Some m \<Rightarrow> m # delivered), e)
        })
   }"

definition rcu_genuine :: "(bytes \<Rightarrow> bool) \<Rightarrow> (u64 \<Rightarrow> bytes) \<Rightarrow> bytes \<Rightarrow> bool" where
  "rcu_genuine small big m \<longleftrightarrow> small m \<or> (\<exists>i. m = big i)"

definition rcu_rel ::
    "(bytes \<Rightarrow> bool) \<Rightarrow> (u64 \<Rightarrow> bytes) \<Rightarrow> duration \<Rightarrow> receive_channel_unreliable \<Rightarrow> bool" where
  "rcu_rel small big now c \<longleftrightarrow> rcu_inv now c
     \<and> (\<forall>(i, s) \<in> set (rcu_slices c). sc_inv (big i) s
          \<and> sc_num_slices s = div_ceil (length (big i)) SLICE_SIZE)
     \<and> (\<forall>m \<in> set (rcu_messages c). rcu_genuine small big m)"

lemma rcu_rel_slice:
  assumes rel: "rcu_rel small big now c" and op: "rcu_authentic small big (USlice sl)"
  shows "\<exists>c' r. rcu_process_slice c sl now = Some (c', r) \<and> (r = Inr () \<longrightarrow> rcu_rel small big now c')"
proof -
  from op obtain i k where big: "SLICE_SIZE < length (big i)" "length (big i) < 2 ^ 62"
    and k: "k < div_ceil (length (big i)) SLICE_SIZE"
    and sl: "sl = nth_slice i (big i) (div_ceil (length (big i)) SLICE_SIZE) k" by auto
  let ?n = "div_ceil (length (big i)) SLICE_SIZE"
  have inv: "rcu_inv now c" and ok: "bt_ok (rcu_slices c)"
    and sls: "\<And>j s. (j, s) \<in> set (rcu_slices c) \<Longrightarrow> sc_inv (big j) s
      \<and> sc_num_slices s = div_ceil (length (big j)) SLICE_SIZE"
    using rel by (auto simp: rcu_rel_def rcu_inv_def)
  have f: "sl_message_id sl = i" "sl_slice_index sl = k" "sl_num_slices sl = ?n"
    "sl_payload sl = msg_chunk (big i) k" by (simp_all add: sl nth_slice_def)
  have "rcu_slice_fits c sl"
    using k sliced_count(2)[OF big] sls bt.get_in_set[OF ok] by (auto simp: rcu_slice_fits_def f)
  from rcu_process_slice_run[OF inv this, unfolded f] consider
      "rcu_process_slice c sl now = Some (c, Inr ())"
    | c' e where "rcu_process_slice c sl now = Some (c', Inl e)"
    | (go) sc sc' r c' where
      "case bt_get (rcu_slices c) i of None \<Rightarrow> sc_new i ?n = Some sc | Some sc1 \<Rightarrow> sc = sc1"
      "sc_process_slice sc k (msg_chunk (big i) k) = Some (sc', r)"
      "rcu_process_slice c sl now = Some (c', Inr ())" "rcu_inv now c'" "rcu_effect c sl sc' r c'"
    by blast
  then show ?thesis
  proof cases
    case go
    have sc: "sc_inv (big i) sc \<and> sc_num_slices sc = ?n"
    proof (cases "bt_get (rcu_slices c) i")
      case None
      with go(1) sc_new_inv[OF sliced_count(1)[OF big], of i] show ?thesis by auto
    next
      case (Some sc1)
      with bt.get_in_set[OF ok, of i sc1] sls go(1) show ?thesis by auto
    qed
    from sc_process_slice_step[of "big i" sc k] sc k go(2)
    have sc': "sc_num_slices sc' = ?n"
      "r = Inr (if \<forall>j < ?n. sc_received sc' ! j then Some (big i) else None)"
      "\<not> (\<forall>j < ?n. sc_received sc' ! j) \<Longrightarrow> sc_inv (big i) sc'" by auto
    have "rcu_rel small big now c'"
      using go(4,5) rel sc' ok unfolding rcu_rel_def
      by (cases "\<forall>j < ?n. sc_received sc' ! j")
        (auto simp: f bt.set_insert bt.set_remove rcu_genuine_def)
    with go(3) show ?thesis by auto
  qed (use rel in auto)
qed

lemma rcu_rel_exec:
  assumes rel: "rcu_rel small big now c" and op: "rcu_authentic small big op"
  shows "\<exists>c' r. rcu_exec now c op = Some (c', r) \<and> (\<forall>m. r = Inr m \<longrightarrow>
    rcu_rel small big now c' \<and> (\<forall>x. m = Some x \<longrightarrow> rcu_genuine small big x))"
proof (cases op)
  case (UMessage m)
  with op rcu_process_message_inv[of now c m] rel show ?thesis
    by (force simp: rcu_rel_def rcu_genuine_def)
next
  case (USlice sl)
  with rcu_rel_slice[OF rel, of sl] op obtain c' r where
    "rcu_process_slice c sl now = Some (c', r)" "r = Inr () \<Longrightarrow> rcu_rel small big now c'" by auto
  with USlice show ?thesis by (cases r) auto
next
  case UReceive
  from rcu_receive_inv[of now c] rel obtain c' r where
    "rcu_receive_message c = Some (c', r)" "rcu_inv now c'" "rcu_slices c' = rcu_slices c"
    "case r of None \<Rightarrow> c' = c \<and> rcu_messages c = [] | Some m \<Rightarrow> rcu_messages c = m # rcu_messages c'"
    by (auto simp: rcu_rel_def)
  with UReceive rel show ?thesis by (cases r) (auto simp: rcu_rel_def)
next
  case UDiscard
  let ?es = "rcu_slices_last_received c"
  have inv: "rcu_inv now c" using rel by (simp add: rcu_rel_def)
  have "rcu_lost_messages now ?es = Some (map fst (takeWhile (old_slice now) ?es))"
    using inv by (intro rcu_lost_messages_run) (simp add: rcu_inv_def)
  with rcu_discard_prefix[OF inv, of "takeWhile (old_slice now) ?es" "dropWhile (old_slice now) ?es"]
    UDiscard rel show ?thesis
    by (fastforce simp: rcu_discard_incomplete_old_slices_def rcu_rel_def dest: in_set_dropD)
qed

text \<open>C6. Integrity of unreliable delivery: when everything that arrives was sent by the peer, and
  the clock does not go back, the channel never panics, and it hands out only messages that
  the peer sent, whole and unaltered, whatever is lost, repeated, reordered or discarded.\<close>

theorem unreliable_integrity:
  assumes "mx \<le> 2 ^ 63" and "sorted (map fst ops)" and "\<forall>(t, op) \<in> set ops. rcu_authentic small big op"
  shows "\<exists>c delivered e. rcu_run (rcu_new ch mx) ops = Some (c, delivered, e)
    \<and> (\<forall>m \<in> set delivered. small m \<or> (\<exists>i. m = big i))"
proof -
  have "\<exists>c' delivered e. rcu_run c ops = Some (c', delivered, e)
      \<and> (\<forall>m \<in> set delivered. rcu_genuine small big m)"
    if "rcu_rel small big t0 c" "\<forall>t \<in> fst ` set ops. t0 \<le> t" for t0 c
    using that assms(2,3)
  proof (induction ops arbitrary: c t0)
    case (Cons e ops)
    obtain t op where e: "e = (t, op)" by (cases e)
    have "rcu_rel small big t c"
      using Cons.prems(1,2) rcu_inv_later by (auto simp: e rcu_rel_def)
    from rcu_rel_exec[OF this, of op] Cons.prems(4) e obtain c1 r where
      1: "rcu_exec t c op = Some (c1, r)" "\<And>m. r = Inr m \<Longrightarrow> rcu_rel small big t c1"
        "\<And>x. r = Inr (Some x) \<Longrightarrow> rcu_genuine small big x" by auto
    show ?case
    proof (cases r)
      case (Inl x)
      with 1(1) e show ?thesis by simp
    next
      case (Inr m)
      from Cons.IH[OF 1(2)[OF Inr]] Cons.prems(3,4) e obtain c' delivered x where
        "rcu_run c1 ops = Some (c', delivered, x)" "\<forall>m \<in> set delivered. rcu_genuine small big m" by auto
      with 1 Inr e show ?thesis by (auto split: option.splits)
    qed
  qed simp
  moreover have "rcu_rel small big 0 (rcu_new ch mx)"
    using rcu_new_inv[OF assms(1)] by (simp add: rcu_rel_def rcu_new_def)
  ultimately show ?thesis unfolding rcu_genuine_def by blast
qed

theorem unreliable_integrity_witness:
  "\<exists>c delivered e. rcu_run (rcu_new 0 1000) [(1, UMessage [1]), (2, UMessage [2]), (2, UReceive)]
      = Some (c, delivered, e) \<and> (\<forall>m \<in> set delivered. m \<in> {[1], [2]} \<or> m = [])"
  using unreliable_integrity[of 1000 "[(1, UMessage [1]), (2, UMessage [2]), (2, UReceive)]"
      "\<lambda>m. m \<in> {[1], [2]}" "\<lambda>_. []" 0]
  by simp

end
