(* ===== verification/PendingAcks.thy ===== *)
theory PendingAcks
  imports RenetPacket
begin

text \<open>
  The pending acknowledgements of a connection, the field \<open>pending_acks\<close> of \<open>RenetClient\<close> with
  \<open>add_pending_ack\<close> and \<open>acked_largest\<close> of \<open>src/renet/src/remote_connection.rs\<close>: a set of
  sequence numbers kept as a list of ranges. The interface is the locale \<open>ack_log\<close>; the list
  refines the set, and its invariant is what the packet codec needs of an \<open>Ack\<close> packet.
\<close>

section \<open>Operations\<close>

text \<open>The loop of \<open>add_pending_ack\<close> over the ranges; \<open>None\<close> inside when it ends without returning.\<close>

fun add_to_ranges :: "u64 \<Rightarrow> range list \<Rightarrow> range list option option" where
  "add_to_ranges sequence [] = Some None"
| "add_to_ranges sequence ((start, stop) # ranges) =
     (if start \<le> sequence \<and> sequence < stop then Some (Some ((start, stop) # ranges))
      else do {
        next \<leftarrow> uadd sequence 1;
        (if start = next then Some (Some ((sequence, stop) # ranges))
         else if stop = sequence then
           Some (Some (case ranges of
               [] \<Rightarrow> [(start, next)]
             | (start', stop') # ranges' \<Rightarrow>
                 (if next = start' then (start, stop') # ranges'
                  else (start, next) # (start', stop') # ranges')))
         else if start > next then Some (Some ((sequence, next) # (start, stop) # ranges))
         else do {
           r \<leftarrow> add_to_ranges sequence ranges;
           Some (map_option (\<lambda>ranges'. (start, stop) # ranges') r)
         })
      })"

definition add_pending_ack :: "range list \<Rightarrow> u64 \<Rightarrow> range list option" where
  "add_pending_ack pending_acks sequence =
     (if pending_acks = [] then do {
        next \<leftarrow> uadd sequence 1;
        Some [(sequence, next)]
      } else do {
        r \<leftarrow> add_to_ranges sequence pending_acks;
        (case r of
           Some pending_acks \<Rightarrow> Some pending_acks
         | None \<Rightarrow> do {
             next \<leftarrow> uadd sequence 1;
             let pending_acks = pending_acks @ [(sequence, next)];
             Some (if length pending_acks > 64 then tl pending_acks else pending_acks)
           })
      })"

fun acked_largest :: "range list \<Rightarrow> u64 \<Rightarrow> range list option" where
  "acked_largest [] largest_ack = Some []"
| "acked_largest ((start, stop) # ranges) largest_ack =
     (if largest_ack < start then Some ((start, stop) # ranges)
      else if stop \<le> largest_ack then acked_largest ranges largest_ack
      else do {
        start \<leftarrow> uadd largest_ack 1;
        Some (if \<not> start < stop then ranges else (start, stop) # ranges)
      })"

section \<open>The set of pending acknowledgements\<close>

definition acks_set :: "range list \<Rightarrow> u64 set" where
  "acks_set rs = (\<Union>(a, b) \<in> set rs. {a..<b})"

lemma acks_set_simps [simp]:
  "acks_set [] = {}" "acks_set ((a, b) # rs) = {a..<b} \<union> acks_set rs"
  "acks_set (rs @ qs) = acks_set rs \<union> acks_set qs"
  by (auto simp: acks_set_def)

lemma ack_ranges_ok_Nil [simp]: "ack_ranges_ok []"
  by (simp add: ack_ranges_ok_def)

lemma ack_ranges_ok_Cons:
  "ack_ranges_ok ((a, b) # rs) \<longleftrightarrow>
     a < b \<and> b \<le> 2 ^ 62 \<and> (\<forall>(c, d) \<in> set rs. b < c) \<and> ack_ranges_ok rs"
  by (auto simp: ack_ranges_ok_def)

lemma ack_ranges_ok_append_last:
  "ack_ranges_ok rs \<Longrightarrow> \<forall>(c, d) \<in> set rs. d < a \<Longrightarrow> a < b \<Longrightarrow> b \<le> 2 ^ 62 \<Longrightarrow> ack_ranges_ok (rs @ [(a, b)])"
  by (auto simp: ack_ranges_ok_def sorted_wrt_append)

lemma ack_ranges_ok_tl: "ack_ranges_ok rs \<Longrightarrow> ack_ranges_ok (tl rs)"
  by (cases rs) (auto simp: ack_ranges_ok_def)

text \<open>A range starting above a bound stays above it.\<close>

lemma add_to_ranges_above:
  "add_to_ranges s rs = Some (Some rs') \<Longrightarrow> \<forall>(c, d) \<in> set rs. m < c \<Longrightarrow> m < s \<Longrightarrow>
   \<forall>(c, d) \<in> set rs'. m < c"
proof (induction s rs arbitrary: rs' rule: add_to_ranges.induct)
  case (2 s a b rs)
  then show ?case
    by (auto simp: rust_simps split: if_splits list.splits)
qed simp

lemma add_to_ranges_ok:
  assumes "ack_ranges_ok rs" and "s < 2 ^ 62"
  shows "(add_to_ranges s rs = Some None \<and> (\<forall>(c, d) \<in> set rs. d < s))
    \<or> (\<exists>rs'. add_to_ranges s rs = Some (Some rs') \<and> ack_ranges_ok rs' \<and> rs' \<noteq> []
        \<and> acks_set rs' = insert s (acks_set rs) \<and> length rs' \<le> Suc (length rs))"
  using assms
proof (induction s rs rule: add_to_ranges.induct)
  case (2 s a b rs)
  have ok: "a < b" "b \<le> 2 ^ 62" "\<And>c d. (c, d) \<in> set rs \<Longrightarrow> b < c" "ack_ranges_ok rs"
    using 2(2) by (auto simp: ack_ranges_ok_Cons)
  have u: "uadd s 1 = Some (s + 1)" using 2(3) by (simp add: uadd_def)
  consider (inside) "a \<le> s" "s < b" | (left) "a = s + 1" | (right) "b = s"
    | (before) "s + 1 < a" | (beyond) "b < s" by linarith
  then show ?case
  proof cases
    case inside
    then show ?thesis using 2(2) by (auto simp: insert_absorb)
  next
    case left
    then have "ack_ranges_ok ((s, b) # rs)" using ok by (auto simp: ack_ranges_ok_Cons)
    moreover have "acks_set ((s, b) # rs) = insert s (acks_set ((a, b) # rs))" using left ok(1) by auto
    ultimately show ?thesis using left u by (auto simp del: acks_set_simps One_nat_def)
  next
    case right
    show ?thesis
    proof (cases rs)
      case Nil
      have "ack_ranges_ok [(a, s + 1)]" using right ok(1) 2(3) by (auto simp: ack_ranges_ok_Cons)
      moreover have "acks_set [(a, s + 1)] = insert s (acks_set ((a, b) # rs))"
        using right ok(1) Nil by auto
      ultimately show ?thesis using right u ok(1) Nil by (auto simp del: acks_set_simps One_nat_def)
    next
      case (Cons r rs')
      obtain c d where r: "r = (c, d)" by (cases r)
      have cd: "b < c" "c < d" "d \<le> 2 ^ 62" "\<And>x y. (x, y) \<in> set rs' \<Longrightarrow> d < x" "ack_ranges_ok rs'"
        using ok(3,4) by (auto simp: Cons r ack_ranges_ok_Cons)
      show ?thesis
      proof (cases "s + 1 = c")
        case True
        have "ack_ranges_ok ((a, d) # rs')" using cd ok(1) by (auto simp: ack_ranges_ok_Cons)
        moreover have "acks_set ((a, d) # rs') = insert s (acks_set ((a, b) # rs))"
          using right True ok(1) cd(2) by (auto simp: Cons r)
        ultimately show ?thesis
          using right True u ok(1) Cons r by (auto simp del: acks_set_simps One_nat_def)
      next
        case False
        have "\<forall>(x, y) \<in> set rs. s + 1 < x"
          using right False cd(1,2) by (auto simp: Cons r dest!: cd(4))
        then have "ack_ranges_ok ((a, s + 1) # rs)"
          using right ok cd(1-3) by (auto simp: ack_ranges_ok_Cons)
        moreover have "acks_set ((a, s + 1) # rs) = insert s (acks_set ((a, b) # rs))"
          using right ok(1) by auto
        ultimately show ?thesis
          using right False u ok(1) Cons r by (auto simp del: acks_set_simps One_nat_def)
      qed
    qed
  next
    case before
    have "\<forall>(x, y) \<in> set rs. s + 1 < x" using before ok(1) by (auto dest!: ok(3))
    then have "ack_ranges_ok ((s, s + 1) # (a, b) # rs)"
      using before 2(2,3) by (simp add: ack_ranges_ok_Cons)
    moreover have "acks_set ((s, s + 1) # (a, b) # rs) = insert s (acks_set ((a, b) # rs))" by auto
    ultimately show ?thesis using before u ok(1) by (auto simp del: acks_set_simps One_nat_def)
  next
    case beyond
    have run: "add_to_ranges s ((a, b) # rs) =
        do { r \<leftarrow> add_to_ranges s rs; Some (map_option (\<lambda>ranges'. (a, b) # ranges') r) }"
      using beyond u ok(1) by (auto simp del: One_nat_def)
    have IH: "(add_to_ranges s rs = Some None \<and> (\<forall>(c, d) \<in> set rs. d < s))
      \<or> (\<exists>rs'. add_to_ranges s rs = Some (Some rs') \<and> ack_ranges_ok rs' \<and> rs' \<noteq> []
          \<and> acks_set rs' = insert s (acks_set rs) \<and> length rs' \<le> Suc (length rs))"
      by (rule 2(1)[OF _ u]) (use beyond ok 2(3) in auto)
    then show ?thesis
    proof (elim disjE exE conjE)
      assume "add_to_ranges s rs = Some None" "\<forall>(c, d) \<in> set rs. d < s"
      then show ?thesis using run beyond by simp
    next
      fix rs' assume rs': "add_to_ranges s rs = Some (Some rs')" "ack_ranges_ok rs'"
        "acks_set rs' = insert s (acks_set rs)" "length rs' \<le> Suc (length rs)"
      have "\<forall>(c, d) \<in> set rs'. b < c"
        using add_to_ranges_above[OF rs'(1), of b] ok(3) beyond by auto
      with ok rs'(2) have "ack_ranges_ok ((a, b) # rs')" by (simp add: ack_ranges_ok_Cons)
      with run rs' show ?thesis by auto
    qed
  qed
qed simp

lemma add_pending_ack_ok:
  assumes "ack_ranges_ok rs" and "s < 2 ^ 62"
  shows "\<exists>rs'. add_pending_ack rs s = Some rs' \<and> ack_ranges_ok rs' \<and> rs' \<noteq> []
    \<and> length rs' \<le> Suc (length rs)
    \<and> acks_set rs' = (if 64 \<le> length rs \<and> (\<forall>(a, b) \<in> set rs. b < s)
        then insert s (acks_set (tl rs)) else insert s (acks_set rs))"
proof (cases "rs = []")
  case True
  with assms(2) show ?thesis
    by (auto simp: add_pending_ack_def uadd_def ack_ranges_ok_Cons)
next
  case False
  have u: "uadd s 1 = Some (s + 1)" using assms(2) by (simp add: uadd_def)
  from add_to_ranges_ok[OF assms] show ?thesis
  proof (elim disjE exE conjE)
    assume none: "add_to_ranges s rs = Some None" and above: "\<forall>(c, d) \<in> set rs. d < s"
    let ?rs = "rs @ [(s, s + 1)]"
    have "add_pending_ack rs s = Some (if length ?rs > 64 then tl ?rs else ?rs)"
      using False none u by (simp add: add_pending_ack_def Let_def)
    moreover have "ack_ranges_ok ?rs"
      using ack_ranges_ok_append_last[OF assms(1) above, of "s + 1"] assms(2) by simp
    ultimately show ?thesis
      using False above ack_ranges_ok_tl[of ?rs] by (cases rs) auto
  next
    fix rs' assume rs': "add_to_ranges s rs = Some (Some rs')" "ack_ranges_ok rs'" "rs' \<noteq> []"
      "acks_set rs' = insert s (acks_set rs)" "length rs' \<le> Suc (length rs)"
    have "\<not> (\<forall>(a, b) \<in> set rs. b < s)"
    proof
      assume "\<forall>(a, b) \<in> set rs. b < s"
      then have "add_to_ranges s rs = Some None"
        using assms u by (induction rs) (auto simp: ack_ranges_ok_Cons)
      with rs'(1) show False by simp
    qed
    with rs' False show ?thesis by (auto simp: add_pending_ack_def)
  qed
qed

lemma acked_largest_ok:
  assumes "ack_ranges_ok rs" and "largest < 2 ^ 62"
  shows "\<exists>rs'. acked_largest rs largest = Some rs' \<and> ack_ranges_ok rs'
    \<and> acks_set rs' = acks_set rs \<inter> {largest<..} \<and> length rs' \<le> length rs"
  using assms
proof (induction rs largest rule: acked_largest.induct)
  case (2 a b rs l)
  have ok: "a < b" "b \<le> 2 ^ 62" "\<And>c d. (c, d) \<in> set rs \<Longrightarrow> b < c" "ack_ranges_ok rs"
    using 2(2) by (auto simp: ack_ranges_ok_Cons)
  have above: "acks_set rs \<subseteq> {b<..}"
  proof
    fix x assume "x \<in> acks_set rs"
    then obtain c d where "(c, d) \<in> set rs" "c \<le> x" by (auto simp: acks_set_def)
    with ok(3)[of c d] show "x \<in> {b<..}" by simp
  qed
  consider (below) "l < a" | (beyond) "b \<le> l" | (within) "a \<le> l" "l < b" by linarith
  then show ?case
  proof cases
    case below
    then have "acks_set ((a, b) # rs) \<subseteq> {l<..}" using ok(1) above by auto
    then have "acks_set ((a, b) # rs) \<inter> {l<..} = acks_set ((a, b) # rs)" by (rule Int_absorb2)
    with below 2(2) show ?thesis by (simp del: acks_set_simps)
  next
    case beyond
    then have "acks_set ((a, b) # rs) \<inter> {l<..} = acks_set rs \<inter> {l<..}" by auto
    moreover have "\<exists>rs'. acked_largest rs l = Some rs' \<and> ack_ranges_ok rs'
        \<and> acks_set rs' = acks_set rs \<inter> {l<..} \<and> length rs' \<le> length rs"
      using beyond ok(1,4) 2(3) by (intro 2(1)) auto
    ultimately show ?thesis using beyond ok(1) by (auto simp del: acks_set_simps)
  next
    case within
    have u: "uadd l 1 = Some (l + 1)" using 2(3) by (simp add: uadd_def)
    have rest: "acks_set rs \<inter> {l<..} = acks_set rs" using above within(2) by (intro Int_absorb2) auto
    show ?thesis
    proof (cases "l + 1 < b")
      case True
      then have "ack_ranges_ok ((l + 1, b) # rs)" using 2(2) by (auto simp: ack_ranges_ok_Cons)
      moreover have "acks_set ((l + 1, b) # rs) = acks_set ((a, b) # rs) \<inter> {l<..}"
      proof -
        have "{a..<b} \<inter> {l<..} = {l + 1..<b}" using within by auto
        then show ?thesis using rest by (simp add: Int_Un_distrib2)
      qed
      ultimately show ?thesis using within u True by (auto simp del: acks_set_simps One_nat_def)
    next
      case False
      have "{a..<b} \<inter> {l<..} = {}" using False by auto
      then have "acks_set ((a, b) # rs) \<inter> {l<..} = acks_set rs" using rest by (simp add: Int_Un_distrib2)
      then show ?thesis using within u False ok(4) by (auto simp del: acks_set_simps One_nat_def)
    qed
  qed
qed simp

section \<open>The interface\<close>

text \<open>The specification of a log of pending acknowledgements, over the set of its sequence
  numbers: receiving a packet (\<open>Inl\<close>) adds its number, and the acknowledgement of one of the
  peer's \<open>Ack\<close> packets (\<open>Inr\<close>) forgets every number up to the largest it covered.\<close>

definition ack_event :: "u64 + u64 \<Rightarrow> u64 set \<Rightarrow> u64 set" where
  "ack_event e S = (case e of Inl s \<Rightarrow> insert s S | Inr l \<Rightarrow> S \<inter> {l<..})"

lemma ack_event_mono: "S \<subseteq> T \<Longrightarrow> ack_event e S \<subseteq> ack_event e T"
  by (auto simp: ack_event_def split: sum.splits)

locale ack_log =
  fixes ok :: "'a \<Rightarrow> bool" and seqs :: "'a \<Rightarrow> u64 set" and ranges :: "'a \<Rightarrow> nat"
    and add :: "'a \<Rightarrow> u64 \<Rightarrow> 'a option" and forget :: "'a \<Rightarrow> u64 \<Rightarrow> 'a option"
  assumes add_returns: "ok l \<Longrightarrow> s < 2 ^ 62 \<Longrightarrow> \<exists>l'. add l s = Some l'"
    and add_ok: "ok l \<Longrightarrow> s < 2 ^ 62 \<Longrightarrow> add l s = Some l' \<Longrightarrow> ok l' \<and> ranges l' \<le> Suc (ranges l)"
    and add_sound: "ok l \<Longrightarrow> s < 2 ^ 62 \<Longrightarrow> add l s = Some l' \<Longrightarrow> s \<in> seqs l' \<and> seqs l' \<subseteq> insert s (seqs l)"
    and add_exact: "ok l \<Longrightarrow> s < 2 ^ 62 \<Longrightarrow> add l s = Some l' \<Longrightarrow> ranges l < 64 \<Longrightarrow> seqs l' = insert s (seqs l)"
    and forget_returns: "ok l \<Longrightarrow> s < 2 ^ 62 \<Longrightarrow> \<exists>l'. forget l s = Some l'"
    and forget_ok: "ok l \<Longrightarrow> s < 2 ^ 62 \<Longrightarrow> forget l s = Some l' \<Longrightarrow> ok l' \<and> ranges l' \<le> ranges l"
    and forget_seqs: "ok l \<Longrightarrow> s < 2 ^ 62 \<Longrightarrow> forget l s = Some l' \<Longrightarrow> seqs l' = seqs l \<inter> {s<..}"
begin

lemma event:
  assumes "ok l" and "case_sum id id e < 2 ^ 62"
  shows "\<exists>l'. (case e of Inl s \<Rightarrow> add l s | Inr s \<Rightarrow> forget l s) = Some l' \<and> ok l'
    \<and> seqs l' \<subseteq> ack_event e (seqs l) \<and> ranges l' \<le> ranges l + (if isl e then 1 else 0)
    \<and> (ranges l < 64 \<longrightarrow> seqs l' = ack_event e (seqs l))"
proof (cases e)
  case (Inl s)
  then show ?thesis
    using assms add_returns[of l s] add_ok[of l s] add_sound[of l s] add_exact[of l s]
    by (fastforce simp: ack_event_def)
next
  case (Inr s)
  then show ?thesis
    using assms forget_returns[of l s] forget_ok[of l s] forget_seqs[of l s]
    by (fastforce simp: ack_event_def)
qed

text \<open>Any history of the log runs to its end and never invents an acknowledgement; while at
  most 64 packets were received it loses none either.\<close>

lemma history:
  assumes "ok l" and "\<forall>e \<in> set es. case_sum id id e < 2 ^ 62"
  shows "\<exists>l'. foldM (\<lambda>l e. case e of Inl s \<Rightarrow> add l s | Inr s \<Rightarrow> forget l s) l es = Some l' \<and> ok l'
    \<and> ranges l' \<le> ranges l + length (filter isl es) \<and> seqs l' \<subseteq> fold ack_event es (seqs l)
    \<and> (ranges l + length (filter isl es) \<le> 64 \<longrightarrow> seqs l' = fold ack_event es (seqs l))"
  using assms
proof (induction es rule: rev_induct)
  case Nil
  then show ?case by simp
next
  case (snoc e es)
  then obtain l1 where l1: "foldM (\<lambda>l e. case e of Inl s \<Rightarrow> add l s | Inr s \<Rightarrow> forget l s) l es = Some l1"
    "ok l1" "ranges l1 \<le> ranges l + length (filter isl es)" "seqs l1 \<subseteq> fold ack_event es (seqs l)"
    "ranges l + length (filter isl es) \<le> 64 \<Longrightarrow> seqs l1 = fold ack_event es (seqs l)" by auto
  have "case_sum id id e < 2 ^ 62" using snoc.prems(2) by simp
  from event[OF l1(2) this] obtain l2 where
    l2: "(case e of Inl s \<Rightarrow> add l1 s | Inr s \<Rightarrow> forget l1 s) = Some l2" "ok l2"
    "seqs l2 \<subseteq> ack_event e (seqs l1)" "ranges l2 \<le> ranges l1 + (if isl e then 1 else 0)"
    "ranges l1 < 64 \<Longrightarrow> seqs l2 = ack_event e (seqs l1)" by blast
  have sub: "seqs l2 \<subseteq> ack_event e (fold ack_event es (seqs l))"
    using l2(3) ack_event_mono[OF l1(4), of e] by blast
  have eq: "seqs l2 = ack_event e (fold ack_event es (seqs l))"
    if "ranges l + length (filter isl (es @ [e])) \<le> 64"
  proof (cases e)
    case (Inl s)
    with that l1(3,5) l2(5) show ?thesis by simp
  next
    case (Inr s)
    with that l1(5) l2(1) forget_seqs[OF l1(2), of s l2] snoc.prems(2) show ?thesis
      by (simp add: ack_event_def)
  qed
  have n: "ranges l2 \<le> ranges l + length (filter isl (es @ [e]))"
    using l1(3) l2(4) by (cases e) auto
  have "foldM (\<lambda>l e. case e of Inl s \<Rightarrow> add l s | Inr s \<Rightarrow> forget l s) l (es @ [e]) = Some l2"
    using l1(1) l2(1) by (simp add: foldM_append)
  with l2(2) sub eq n show ?case by simp
qed

end

interpretation acks: ack_log ack_ranges_ok acks_set length add_pending_ack acked_largest
proof
  fix l :: "range list" and s :: u64 and l' :: "range list"
  assume l: "ack_ranges_ok l" and s: "s < 2 ^ 62"
  from add_pending_ack_ok[OF l s] obtain r where r: "add_pending_ack l s = Some r" "ack_ranges_ok r"
    "length r \<le> Suc (length l)"
    "acks_set r = (if 64 \<le> length l \<and> (\<forall>(a, b) \<in> set l. b < s)
        then insert s (acks_set (tl l)) else insert s (acks_set l))" by blast
  show "\<exists>l'. add_pending_ack l s = Some l'" using r(1) by blast
  have tl: "acks_set (tl l) \<subseteq> acks_set l" by (cases l) (auto simp: acks_set_def)
  { assume "add_pending_ack l s = Some l'"
    with r show "ack_ranges_ok l' \<and> length l' \<le> Suc (length l)" by simp }
  { assume "add_pending_ack l s = Some l'"
    with r tl show "s \<in> acks_set l' \<and> acks_set l' \<subseteq> insert s (acks_set l)" by (auto split: if_splits) }
  { assume "add_pending_ack l s = Some l'" "length l < 64"
    with r show "acks_set l' = insert s (acks_set l)" by simp }
  from acked_largest_ok[OF l s] obtain q where q: "acked_largest l s = Some q" "ack_ranges_ok q"
    "acks_set q = acks_set l \<inter> {s<..}" "length q \<le> length l" by blast
  show "\<exists>l'. acked_largest l s = Some l'" using q(1) by blast
  { assume "acked_largest l s = Some l'"
    with q show "ack_ranges_ok l' \<and> length l' \<le> length l" by simp }
  { assume "acked_largest l s = Some l'"
    with q show "acks_set l' = acks_set l \<inter> {s<..}" by simp }
qed

section \<open>Properties\<close>

text \<open>C7. Any history of received packets (\<open>Inl\<close> their sequence number) and acknowledged
  \<open>Ack\<close> packets (\<open>Inr\<close> the largest sequence number one covered) runs without panic on the list
  of ranges, keeps the ranges sorted, disjoint and separated, as the packet codec needs them,
  and never acknowledges a packet that the set of the specification does not hold: one that was
  not received, or whose acknowledgement is known to have arrived. While at most 64 packets have
  been received, the ranges hold exactly that set.\<close>

theorem pending_acks_history:
  assumes "\<forall>e \<in> set es. case_sum id id e < 2 ^ 62"
  shows "\<exists>rs. foldM (\<lambda>rs e. case e of Inl s \<Rightarrow> add_pending_ack rs s | Inr l \<Rightarrow> acked_largest rs l) [] es
      = Some rs
    \<and> ack_ranges_ok rs \<and> acks_set rs \<subseteq> fold ack_event es {}
    \<and> (length (filter isl es) \<le> 64 \<longrightarrow> acks_set rs = fold ack_event es {})"
  using acks.history[of "[]" es] assms by auto

theorem pending_acks_history_witness:
  "\<exists>rs. foldM (\<lambda>rs e. case e of Inl s \<Rightarrow> add_pending_ack rs s | Inr l \<Rightarrow> acked_largest rs l) []
      [Inl 4, Inl 7, Inl 5, Inr 4, Inl 6] = Some rs
    \<and> acks_set rs = {5, 6, 7} \<and> rs = [(5, 8)]"
proof -
  let ?es = "[Inl 4, Inl 7, Inl 5, Inr 4, Inl 6] :: (u64 + u64) list"
  have run: "foldM (\<lambda>rs e. case e of Inl s \<Rightarrow> add_pending_ack rs s | Inr l \<Rightarrow> acked_largest rs l) [] ?es
    = Some [(5, 8)]" by code_simp
  have spec: "fold ack_event ?es {} = {5, 6, 7}" by (auto simp: ack_event_def)
  show ?thesis using pending_acks_history[of ?es] unfolding run spec by simp
qed

text \<open>C8. The effect of one reception on the ranges: without panic, the sequence number is
  added to the set, and nothing else changes, except that with 64 ranges or more a number
  beyond all of them pushes out the whole oldest range.\<close>

theorem add_pending_ack_refines:
  assumes "ack_ranges_ok rs" and "s < 2 ^ 62"
  shows "\<exists>rs'. add_pending_ack rs s = Some rs' \<and> ack_ranges_ok rs'
    \<and> acks_set rs' = insert s (acks_set
        (if 64 \<le> length rs \<and> (\<forall>(a, b) \<in> set rs. b < s) then tl rs else rs))"
  using add_pending_ack_ok[OF assms] by (auto split: if_splits)

theorem add_pending_ack_refines_witness:
  "\<exists>rs'. add_pending_ack [(1, 3), (4, 9)] 3 = Some rs' \<and> rs' = [(1, 9)] \<and> acks_set rs' = {1..<9}"
proof -
  have ok: "ack_ranges_ok [(1, 3), (4, 9)]" by (simp add: ack_ranges_ok_def)
  have run: "add_pending_ack [(1, 3), (4, 9)] 3 = Some [(1, 9)]" by code_simp
  have "insert 3 (acks_set [(1, 3), (4, 9)]) = {1..<9}" by auto
  then show ?thesis using add_pending_ack_refines[OF ok, of 3] unfolding run by simp
qed

section \<open>The limit of 64 ranges\<close>

text \<open>The limit is applied where a range is added at the end, not where one is inserted on the
  left: packets received in decreasing order, one in two lost, leave one range each.\<close>

lemma pending_acks_unlimited:
  "2 * (m + n) < 2 ^ 62 \<Longrightarrow>
   foldM add_pending_ack (map (\<lambda>i. (2 * i, 2 * i + 1)) [n..<n + m]) (map (\<lambda>i. 2 * i) (rev [0..<n]))
     = Some (map (\<lambda>i. (2 * i, 2 * i + 1)) [0..<n + m])"
proof (induction n arbitrary: m)
  case 0
  then show ?case by simp
next
  case (Suc n)
  have u: "uadd (2 * n) 1 = Some (2 * n + 1)" using Suc.prems by (simp add: uadd_def)
  have "add_pending_ack (map (\<lambda>i. (2 * i, 2 * i + 1)) [Suc n..<Suc n + m]) (2 * n)
      = Some (map (\<lambda>i. (2 * i, 2 * i + 1)) [n..<Suc n + m])"
    using u by (cases m) (auto simp: add_pending_ack_def upt_conv_Cons simp del: upt_Suc One_nat_def)
  with Suc.IH[of "Suc m"] Suc.prems show ?case by simp
qed

end
