(* ===== verification/F64.thy ===== *)
theory F64
  imports Prelude Complex_Main
begin

text \<open>
  The floating-point numbers of Rust's \<open>f64\<close> that the statistics of a connection are computed
  with: IEEE 754 binary64 with rounding to the nearest, ties to even. A finite number is its
  significand and its exponent, normalized (the two zeros are one value: no computation of the
  program tells them apart); an operation computes the exact result as a fraction and rounds
  it. \<open>as_secs_f64\<close> is the one of \<open>Duration\<close>.
\<close>

section \<open>Numbers and rounding\<close>

datatype f64 = Fin int int | PInf | NInf | NaN

function bits :: "int \<Rightarrow> int" where
  "bits a = (if a \<le> 0 then 0 else 1 + bits (a div 2))"
  by pat_completeness auto
termination
  by (relation "measure nat") auto

declare bits.simps [simp del]

text \<open>Powers of two, by squaring.\<close>

function p2 :: "int \<Rightarrow> int" where
  "p2 e = (if e \<le> 0 then 1 else let h = p2 (e div 2) in if even e then h * h else 2 * h * h)"
  by pat_completeness auto
termination
  by (relation "measure nat") auto

declare p2.simps [simp del]

text \<open>\<open>num * 2 ^ e \<le> den\<close>-style comparisons with an exponent of either sign: the fraction
  \<open>(a / b) / 2 ^ e\<close>.\<close>

definition scale :: "int \<Rightarrow> int \<Rightarrow> int \<Rightarrow> int \<times> int" where
  "scale a b e = (if 0 \<le> e then (a, b * p2 e) else (a * p2 (- e), b))"

text \<open>The binary exponent of a positive fraction.\<close>

definition binexp :: "int \<Rightarrow> int \<Rightarrow> int" where
  "binexp a b = (let e = bits a - bits b; (c, d) = scale a b e in if d \<le> c then e else e - 1)"

definition round_div :: "int \<Rightarrow> int \<Rightarrow> int" where
  "round_div c d =
     (let n = c div d; r = c mod d in
      if 2 * r < d then n else if d < 2 * r then n + 1 else if even n then n else n + 1)"

text \<open>The number nearest to \<open>a / b\<close>, for a positive \<open>b\<close>.\<close>

definition f64_round :: "int \<Rightarrow> int \<Rightarrow> f64" where
  "f64_round a b =
     (if a = 0 then Fin 0 0
      else let e = max (binexp \<bar>a\<bar> b) (- 1022) - 52; (c, d) = scale \<bar>a\<bar> b e; n = round_div c d;
               (n, e) = (if n = 2 ^ 53 then (2 ^ 52, e + 1) else (n, e)) in
        if 971 < e then (if 0 < a then PInf else NInf)
        else if n = 0 then Fin 0 0 else Fin (sgn a * n) e)"

section \<open>Operations\<close>

definition numer :: "int \<Rightarrow> int \<Rightarrow> int" where
  "numer m e = (if 0 \<le> e then m * p2 e else m)"

definition denom :: "int \<Rightarrow> int" where
  "denom e = (if 0 \<le> e then 1 else p2 (- e))"

fun f64_add :: "f64 \<Rightarrow> f64 \<Rightarrow> f64" where
  "f64_add (Fin m e) (Fin n f) =
     f64_round (numer m e * denom f + numer n f * denom e) (denom e * denom f)"
| "f64_add NaN _ = NaN"
| "f64_add _ NaN = NaN"
| "f64_add PInf NInf = NaN"
| "f64_add NInf PInf = NaN"
| "f64_add PInf _ = PInf"
| "f64_add _ PInf = PInf"
| "f64_add NInf _ = NInf"
| "f64_add _ NInf = NInf"

fun f64_neg :: "f64 \<Rightarrow> f64" where
  "f64_neg (Fin m e) = Fin (- m) e"
| "f64_neg PInf = NInf"
| "f64_neg NInf = PInf"
| "f64_neg NaN = NaN"

definition f64_sub :: "f64 \<Rightarrow> f64 \<Rightarrow> f64" where
  "f64_sub x y = f64_add x (f64_neg y)"

text \<open>The infinity with the sign of a number; \<open>NaN\<close> for zero.\<close>

definition signed_inf :: "int \<Rightarrow> f64" where
  "signed_inf m = (if 0 < m then PInf else if m < 0 then NInf else NaN)"

fun f64_mul :: "f64 \<Rightarrow> f64 \<Rightarrow> f64" where
  "f64_mul (Fin m e) (Fin n f) = f64_round (numer m e * numer n f) (denom e * denom f)"
| "f64_mul NaN _ = NaN"
| "f64_mul _ NaN = NaN"
| "f64_mul PInf (Fin n f) = signed_inf n"
| "f64_mul NInf (Fin n f) = signed_inf (- n)"
| "f64_mul (Fin m e) PInf = signed_inf m"
| "f64_mul (Fin m e) NInf = signed_inf (- m)"
| "f64_mul PInf PInf = PInf"
| "f64_mul NInf NInf = PInf"
| "f64_mul PInf NInf = NInf"
| "f64_mul NInf PInf = NInf"

fun f64_div :: "f64 \<Rightarrow> f64 \<Rightarrow> f64" where
  "f64_div (Fin m e) (Fin n f) =
     (if n = 0 then signed_inf m
      else f64_round (sgn n * numer m e * denom f) (\<bar>numer n f\<bar> * denom e))"
| "f64_div NaN _ = NaN"
| "f64_div _ NaN = NaN"
| "f64_div (Fin m e) _ = Fin 0 0"
| "f64_div PInf (Fin n f) = (if n < 0 then NInf else PInf)"
| "f64_div NInf (Fin n f) = (if n < 0 then PInf else NInf)"
| "f64_div _ _ = NaN"

fun f64_lt :: "f64 \<Rightarrow> f64 \<Rightarrow> bool" where
  "f64_lt (Fin m e) (Fin n f) = (numer m e * denom f < numer n f * denom e)"
| "f64_lt NInf (Fin n f) = True"
| "f64_lt NInf PInf = True"
| "f64_lt (Fin m e) PInf = True"
| "f64_lt _ _ = False"

definition f64_of_nat :: "nat \<Rightarrow> f64" where
  "f64_of_nat n = f64_round (int n) 1"

definition f64_EPSILON :: f64 where
  "f64_EPSILON = f64_round 1 (2 ^ 52)"

definition as_secs_f64 :: "duration \<Rightarrow> f64" where
  "as_secs_f64 d =
     f64_add (f64_of_nat (as_secs d)) (f64_div (f64_of_nat (d mod 1000000000)) (f64_of_nat 1000000000))"

section \<open>The value of a number\<close>

definition f64_val :: "f64 \<Rightarrow> rat" where
  "f64_val x = (case x of Fin m e \<Rightarrow> of_int m * 2 powi e | _ \<Rightarrow> 0)"

definition f64_finite :: "f64 \<Rightarrow> bool" where
  "f64_finite x = (case x of Fin m e \<Rightarrow> True | _ \<Rightarrow> False)"

lemma powi_pos [simp]: "0 < (2::rat) powi e"
  by simp

lemma powi_2_mono: "a \<le> b \<Longrightarrow> (2::rat) powi a \<le> 2 powi b"
  by (simp add: power_int_increasing)

lemma p2_power: "p2 e = 2 ^ nat e"
proof (induction e rule: p2.induct)
  case (1 e)
  show ?case
  proof (cases "e \<le> 0")
    case False
    have k: "nat e = (if even e then nat (e div 2) + nat (e div 2) else Suc (nat (e div 2) + nat (e div 2)))"
      using False by (auto elim!: evenE oddE)
    show ?thesis using 1 False k by (subst p2.simps) (auto simp: Let_def power_add)
  qed (simp add: p2.simps)
qed

lemma numer_denom: "of_int (numer m e) / of_int (denom e) = (of_int m * 2 powi e :: rat)"
  by (simp add: numer_def denom_def p2_power power_int_def inverse_eq_divide power_one_over)

lemma denom_pos: "0 < denom e"
  by (simp add: denom_def p2_power)

lemma scale_value:
  assumes "scale a b e = (c, d)" and "0 < b"
  shows "0 < d" "of_int c / of_int d = of_int a / of_int b / (2 powi e :: rat)"
  using assms
  by (auto simp: scale_def p2_power power_int_def inverse_eq_divide power_one_over split: if_splits)

lemma scale_pos: "scale a b e = (c, d) \<Longrightarrow> 0 < a \<Longrightarrow> 0 < c"
  by (auto simp: scale_def p2_power split: if_splits)

lemma bits_bounds:
  assumes "0 < a"
  shows "2 powi (bits a - 1) \<le> (of_int a :: rat)" "(of_int a :: rat) < 2 powi bits a"
proof -
  have "0 < bits a \<and> 2 ^ nat (bits a - 1) \<le> a \<and> a < 2 ^ nat (bits a)"
    using assms
  proof (induction a rule: bits.induct)
    case (1 a)
    show ?case
    proof (cases "a = 1")
      case True
      then show ?thesis by (simp add: bits.simps)
    next
      case False
      with 1 have IH: "0 < bits (a div 2)" "2 ^ nat (bits (a div 2) - 1) \<le> a div 2"
        "a div 2 < 2 ^ nat (bits (a div 2))" by auto
      have b: "bits a = 1 + bits (a div 2)" using 1(2) by (subst bits.simps) simp
      have "nat (bits a) = Suc (nat (bits (a div 2)))" "nat (bits a - 1) = Suc (nat (bits (a div 2) - 1))"
        using b IH(1) by (simp_all add: Suc_nat_eq_nat_zadd1)
      then show ?thesis using b IH by (simp del: nat_diff_distrib') linarith
    qed
  qed
  then have k: "0 < bits a" "2 ^ nat (bits a - 1) \<le> a" "a < 2 ^ nat (bits a)" by auto
  have "of_int (2 ^ nat (bits a - 1)) \<le> (of_int a :: rat)" "(of_int a :: rat) < of_int (2 ^ nat (bits a))"
    using k(2,3) by (simp_all only: of_int_le_iff of_int_less_iff)
  then show "2 powi (bits a - 1) \<le> (of_int a :: rat)" "(of_int a :: rat) < 2 powi bits a"
    using k(1) by (simp_all add: power_int_def)
qed

lemma binexp_bounds:
  assumes "0 < a" and "0 < b"
  shows "2 powi binexp a b \<le> (of_int a / of_int b :: rat)"
    "(of_int a / of_int b :: rat) < 2 powi (binexp a b + 1)"
proof -
  let ?q = "of_int a / of_int b :: rat" and ?e = "bits a - bits b"
  obtain c d where s: "scale a b ?e = (c, d)" by fastforce
  have be: "binexp a b = (if d \<le> c then ?e else ?e - 1)" by (simp add: binexp_def s)
  note v = scale_value[OF s assms(2)]
  have cd: "d \<le> c \<longleftrightarrow> 2 powi ?e \<le> ?q"
  proof -
    have "d \<le> c \<longleftrightarrow> 1 \<le> (of_int c / of_int d :: rat)" using v(1) by (simp add: le_divide_eq)
    also have "\<dots> \<longleftrightarrow> 2 powi ?e \<le> ?q" unfolding v(2) by (simp only: le_divide_eq_1_pos[OF powi_pos])
    finally show ?thesis .
  qed
  note A = bits_bounds[OF assms(1)] and B = bits_bounds[OF assms(2)]
  have b': "(0::rat) < of_int b" using assms(2) by simp
  have upper: "?q < 2 powi (?e + 1)"
  proof -
    have "of_int a < (2 powi (?e + 1) * 2 powi (bits b - 1) :: rat)"
      using A(2) by (simp flip: power_int_add)
    also have "\<dots> \<le> 2 powi (?e + 1) * of_int b" using B(1) by simp
    finally show ?thesis using b' by (simp add: divide_less_eq)
  qed
  have lower: "2 powi (?e - 1) \<le> ?q"
  proof -
    have "2 powi (?e - 1) * of_int b \<le> (2 powi (?e - 1) * 2 powi bits b :: rat)" using B(2) by simp
    also have "\<dots> \<le> of_int a" using A(1) by (simp flip: power_int_add)
    finally show ?thesis using b' by (simp add: le_divide_eq)
  qed
  show "2 powi binexp a b \<le> ?q" "?q < 2 powi (binexp a b + 1)"
    using upper lower cd by (auto simp: be)
qed

text \<open>Two rational powers of two around the same number have the same exponent.\<close>

lemma powi_2_less: "(2::rat) powi a < 2 powi b \<Longrightarrow> a < b"
  using powi_2_mono[of b a] by linarith

lemma binexp_unique:
  assumes "(2::rat) powi e \<le> q" "q < 2 powi (e + 1)" "2 powi f \<le> q" "q < 2 powi (f + 1)"
  shows "e = f"
proof -
  have "(2::rat) powi e < 2 powi (f + 1)" "(2::rat) powi f < 2 powi (e + 1)" using assms by linarith+
  then have "e < f + 1" "f < e + 1" by (simp_all only: powi_2_less)
  then show ?thesis by simp
qed

lemma round_div_le: "0 < d \<Longrightarrow> c \<le> n * d \<Longrightarrow> round_div c d \<le> n"
proof -
  assume d: "0 < d" and c: "c \<le> n * d"
  have le: "c div d \<le> n" using zdiv_mono1[OF c d] d by simp
  have "c div d < n" if "c mod d \<noteq> 0"
  proof (rule ccontr)
    assume "\<not> c div d < n"
    with le have "c div d = n" by simp
    then have "n * d + c mod d = c" using mult_div_mod_eq[of d c] by (simp add: mult.commute)
    with c that pos_mod_sign[OF d, of c] show False by linarith
  qed
  then show ?thesis using le d by (auto simp: round_div_def Let_def)
qed

lemma round_div_exact [simp]: "0 < d \<Longrightarrow> round_div (n * d) d = n"
  by (simp add: round_div_def)

lemma round_div_nonneg: "0 < d \<Longrightarrow> 0 \<le> c \<Longrightarrow> 0 \<le> round_div c d"
  using pos_imp_zdiv_nonneg_iff[of d c] by (auto simp: round_div_def Let_def)

text \<open>Rounding depends on the value of the fraction only.\<close>

lemma round_div_value:
  assumes "0 < d" and "0 < d'" and "of_int c / of_int d = (of_int c' / of_int d' :: rat)"
  shows "round_div c d = round_div c' d'"
proof -
  have div: "c div d = \<lfloor>of_int c / of_int d :: rat\<rfloor>" for c d :: int
    by (simp add: floor_divide_of_int_eq)
  have rem: "2 * (c mod d) < d \<longleftrightarrow> 2 * (of_int c / of_int d - of_int \<lfloor>of_int c / of_int d :: rat\<rfloor>) < (1 :: rat)"
    "d < 2 * (c mod d) \<longleftrightarrow> (1 :: rat) < 2 * (of_int c / of_int d - of_int \<lfloor>of_int c / of_int d :: rat\<rfloor>)"
    if "0 < d" for c d :: int
  proof -
    have "of_int c / of_int d - of_int \<lfloor>of_int c / of_int d :: rat\<rfloor> = (of_int (c mod d) / of_int d :: rat)"
      using that by (simp flip: div add: field_simps) (simp flip: of_int_mult of_int_add)
    moreover have "2 * (of_int r / of_int d) < (1 :: rat) \<longleftrightarrow> 2 * r < d"
      "(1 :: rat) < 2 * (of_int r / of_int d) \<longleftrightarrow> d < 2 * r" for r
    proof -
      have "2 * (of_int r / of_int d) = (of_int (2 * r) / of_int d :: rat)" by simp
      then show "2 * (of_int r / of_int d) < (1 :: rat) \<longleftrightarrow> 2 * r < d"
        "(1 :: rat) < 2 * (of_int r / of_int d) \<longleftrightarrow> d < 2 * r"
        using that by (simp_all only: divide_less_eq_1_pos less_divide_eq_1_pos of_int_0_less_iff of_int_less_iff)
    qed
    ultimately show "2 * (c mod d) < d \<longleftrightarrow> 2 * (of_int c / of_int d - of_int \<lfloor>of_int c / of_int d :: rat\<rfloor>) < (1 :: rat)"
      "d < 2 * (c mod d) \<longleftrightarrow> (1 :: rat) < 2 * (of_int c / of_int d - of_int \<lfloor>of_int c / of_int d :: rat\<rfloor>)"
      by (simp_all only:)
  qed
  show ?thesis
    unfolding round_div_def Let_def using rem[OF assms(1), of c] rem[OF assms(2), of c'] div[of c d] div[of c' d']
    by (simp add: assms(3))
qed

lemma binexp_value:
  assumes "0 < a" "0 < b" "0 < a'" "0 < b'" "of_int a / of_int b = (of_int a' / of_int b' :: rat)"
  shows "binexp a b = binexp a' b'"
  using binexp_bounds[OF assms(1,2)] binexp_bounds[OF assms(3,4)] unfolding assms(5)
  by (rule binexp_unique)

lemma f64_round_value:
  assumes "0 < b" and "0 < b'" and eq: "of_int a / of_int b = (of_int a' / of_int b' :: rat)"
  shows "f64_round a b = f64_round a' b'"
proof (cases "a = 0")
  case True
  then have "a' = 0" using assms by simp
  with True show ?thesis by (simp add: f64_round_def)
next
  case False
  have s: "sgn (of_int a / of_int b :: rat) = of_int (sgn a)" "sgn (of_int a' / of_int b' :: rat) = of_int (sgn a')"
    using assms(1,2) by (auto simp: sgn_if zero_less_divide_iff)
  then have sgn: "sgn a = sgn a'" using eq by (metis of_int_eq_iff)
  with False have a': "a' \<noteq> 0" by (metis sgn_0_0)
  have abs: "of_int \<bar>a\<bar> / of_int b = (of_int \<bar>a'\<bar> / of_int b' :: rat)"
    using arg_cong[OF eq, of abs] assms(1,2) by (simp add: abs_divide)
  have be: "binexp \<bar>a\<bar> b = binexp \<bar>a'\<bar> b'"
    by (rule binexp_value) (use False a' assms abs in auto)
  define e where "e = max (binexp \<bar>a'\<bar> b') (- 1022) - 52"
  obtain c d c' d' where sc: "scale \<bar>a\<bar> b e = (c, d)" "scale \<bar>a'\<bar> b' e = (c', d')" by fastforce
  have "round_div c d = round_div c' d'"
    using scale_value[OF sc(1) assms(1)] scale_value[OF sc(2) assms(2)]
    by (intro round_div_value) (simp_all only: abs)
  moreover have "0 < a \<longleftrightarrow> 0 < a'" using sgn by (metis sgn_greater)
  ultimately show ?thesis
    using False a' sgn unfolding f64_round_def be e_def[symmetric] Let_def sc by simp
qed

text \<open>Whole numbers below \<open>2 ^ 53\<close> are represented exactly; so is their difference.\<close>

lemma f64_round_int:
  assumes "\<bar>a\<bar> < 2 ^ 53"
  shows "f64_finite (f64_round a 1) \<and> f64_val (f64_round a 1) = of_int a"
proof (cases "a = 0")
  case True
  then show ?thesis by (simp add: f64_round_def f64_val_def f64_finite_def)
next
  case False
  have a: "0 < \<bar>a\<bar>" using False by simp
  note B = binexp_bounds[OF a zero_less_one, unfolded of_int_1 div_by_1]
  have "of_int \<bar>a\<bar> < (of_int (2 ^ 53) :: rat)" using assms by (simp only: of_int_less_iff)
  also have "(of_int (2 ^ 53) :: rat) = 2 powi 53" by (simp add: power_int_def)
  finally have "2 powi binexp \<bar>a\<bar> 1 < (2 powi 53 :: rat)" by (rule le_less_trans[OF B(1)])
  from powi_2_less[OF this] have e1: "binexp \<bar>a\<bar> 1 \<le> 52" by simp
  have "of_int 1 \<le> (of_int \<bar>a\<bar> :: rat)" using a by (simp only: of_int_le_iff)
  then have "(1::rat) \<le> of_int \<bar>a\<bar>" by simp
  then have "2 powi 0 < (2 powi (binexp \<bar>a\<bar> 1 + 1) :: rat)" using B(2) by (simp only: power_int_0_right)
  from powi_2_less[OF this] have e0: "0 \<le> binexp \<bar>a\<bar> 1" by simp
  define e where "e = binexp \<bar>a\<bar> 1 - 52"
  have e: "e \<le> 0" "- 52 \<le> e" "max (binexp \<bar>a\<bar> 1) (- 1022) - 52 = e" using e0 e1 by (simp_all add: e_def)
  let ?n = "\<bar>a\<bar> * 2 ^ nat (- e)"
  have sc: "scale \<bar>a\<bar> 1 e = (?n, 1)" using e(1) by (auto simp: scale_def p2_power)
  have val: "(of_int ?n :: rat) * 2 powi e = of_int \<bar>a\<bar>"
    using e(1) by (simp add: power_int_def inverse_eq_divide power_one_over)
  have "?n < 2 ^ 53"
  proof -
    have "(of_int ?n :: rat) = of_int \<bar>a\<bar> * 2 powi (- e)"
      using e(1) by (simp add: power_int_def)
    also have "\<dots> < 2 powi (binexp \<bar>a\<bar> 1 + 1) * 2 powi (- e)" using B(2) by simp
    also have "\<dots> = of_int (2 ^ 53)" by (simp add: e_def flip: power_int_add)
    finally show ?thesis by (simp only: of_int_less_iff)
  qed
  then have "f64_round a 1 = Fin (sgn a * ?n) e"
    using False e(1) by (simp add: f64_round_def e(3) sc round_div_def)
  then show ?thesis using val by (simp add: f64_finite_def f64_val_def sgn_mult_abs mult.assoc[symmetric])
qed

text \<open>A rounded fraction of one stays one: this is what bounds the statistics that are ratios.\<close>

lemma f64_round_unit:
  assumes "0 \<le> a" and "a \<le> b" and "0 < b"
  shows "f64_finite (f64_round a b) \<and> 0 \<le> f64_val (f64_round a b) \<and> f64_val (f64_round a b) \<le> 1"
proof (cases "a = 0")
  case True
  then show ?thesis by (simp add: f64_round_def f64_val_def f64_finite_def)
next
  case False
  with assms(1) have a: "0 < a" by simp
  have "of_int a / of_int b \<le> (1 :: rat)" using assms(2,3) by (simp add: divide_le_eq)
  with binexp_bounds(1)[OF a assms(3)] have "2 powi binexp a b < (2 powi 1 :: rat)" by simp
  from powi_2_less[OF this] have e0: "binexp a b \<le> 0" by simp
  define e where "e = max (binexp a b) (- 1022) - 52"
  have e: "e \<le> - 52" using e0 by (simp add: e_def)
  obtain c d where sc: "scale a b e = (c, d)" by fastforce
  define n where "n = round_div c d"
  have n0: "0 \<le> n" unfolding n_def
    using scale_value(1)[OF sc assms(3)] scale_pos[OF sc a] by (intro round_div_nonneg) simp_all
  have "c = a * 2 ^ nat (- e)" "d = b" using sc e by (auto simp: scale_def p2_power split: if_splits)
  then have "n \<le> 2 ^ nat (- e)" unfolding n_def using assms(2,3)
    by (intro round_div_le) (simp_all add: mult.commute)
  then have "of_int n \<le> (of_int (2 ^ nat (- e)) :: rat)" by (simp only: of_int_le_iff)
  also have "(of_int (2 ^ nat (- e)) :: rat) = 2 powi (- e)" using e by (simp add: power_int_def)
  finally have "of_int n * 2 powi e \<le> (2 powi (- e) * 2 powi e :: rat)" by (simp add: mult_right_mono)
  also have "\<dots> = 1" by (simp flip: power_int_add)
  finally have le: "of_int n * 2 powi e \<le> (1 :: rat)" .
  have lt: "\<not> 971 < e" "\<not> 971 < e + 1" using e by simp_all
  have "f64_round a b = (let (n, e) = (if n = 2 ^ 53 then (2 ^ 52, e + 1) else (n, e)) in
      if 971 < e then PInf else if n = 0 then Fin 0 0 else Fin n e)"
    using a by (simp add: f64_round_def n_def sc flip: e_def)
  then have "f64_finite (f64_round a b) \<and> f64_val (f64_round a b) = of_int n * 2 powi e"
    using lt by (auto simp: f64_finite_def f64_val_def power_int_add)
  with n0 le show ?thesis by simp
qed

lemma f64_of_nat_exact: "n < 2 ^ 53 \<Longrightarrow> f64_finite (f64_of_nat n) \<and> f64_val (f64_of_nat n) = of_nat n"
  using f64_round_int[of "int n"] by (simp add: f64_of_nat_def)

lemma f64_add_value:
  assumes "f64_finite x" and "f64_finite y" and "f64_val x + f64_val y = of_int a / of_int b" and "0 < b"
  shows "f64_add x y = f64_round a b"
proof -
  obtain m e n f where xy: "x = Fin m e" "y = Fin n f"
    using assms(1,2) by (cases x; cases y) (auto simp: f64_finite_def)
  note d = numer_denom[of m e] denom_pos[of e] numer_denom[of n f] denom_pos[of f]
  have "of_int (numer m e * denom f + numer n f * denom e) / of_int (denom e * denom f)
      = (of_int (numer m e) / of_int (denom e) + of_int (numer n f) / of_int (denom f) :: rat)"
    using d(2,4) by (simp add: field_simps)
  then show ?thesis
    using assms(3,4) d unfolding xy f64_add.simps by (intro f64_round_value) (simp_all add: f64_val_def)
qed

lemma f64_div_value:
  assumes "f64_finite x" and "f64_finite y" and "0 < f64_val y"
    and "f64_val x / f64_val y = of_int a / of_int b" and "0 < b"
  shows "f64_div x y = f64_round a b"
proof -
  obtain m e n f where xy: "x = Fin m e" "y = Fin n f"
    using assms(1,2) by (cases x; cases y) (auto simp: f64_finite_def)
  note d = numer_denom[of m e] denom_pos[of e] numer_denom[of n f] denom_pos[of f]
  have n: "0 < n" using assms(3) by (simp add: xy f64_val_def zero_less_mult_iff del: zero_less_power_int)
      (use powi_pos[of f] in linarith)
  then have nn: "0 < numer n f" by (simp add: numer_def p2_power)
  have "of_int (sgn n * numer m e * denom f) / of_int (\<bar>numer n f\<bar> * denom e)
      = ((of_int (numer m e) / of_int (denom e)) / (of_int (numer n f) / of_int (denom f)) :: rat)"
    using d(2,4) n nn by (simp add: field_simps)
  then show ?thesis
    using assms(4,5) d n nn unfolding xy f64_div.simps by (auto intro!: f64_round_value simp: f64_val_def)
qed

text \<open>The unacknowledged share of \<open>b\<close> packets.\<close>

lemma f64_share_unit:
  assumes "a \<le> b" and "b < 2 ^ 53" and "0 < b"
  defines "x \<equiv> f64_div (f64_sub (f64_of_nat b) (f64_of_nat a)) (f64_of_nat b)"
  shows "f64_finite x \<and> 0 \<le> f64_val x \<and> f64_val x \<le> 1"
proof -
  have ab: "f64_finite (f64_of_nat a)" "f64_val (f64_of_nat a) = of_nat a"
    "f64_finite (f64_of_nat b)" "f64_val (f64_of_nat b) = of_nat b"
    using assms f64_of_nat_exact[of a] f64_of_nat_exact[of b] by simp_all
  have neg: "f64_finite (f64_neg y) \<and> f64_val (f64_neg y) = - f64_val y" if "f64_finite y" for y
    using that by (cases y) (simp_all add: f64_finite_def f64_val_def)
  have "f64_sub (f64_of_nat b) (f64_of_nat a) = f64_of_nat (b - a)"
    unfolding f64_sub_def f64_of_nat_def[of "b - a"]
    by (rule f64_add_value) (use ab neg assms(1) in \<open>simp_all add: of_nat_diff\<close>)
  moreover have "f64_finite (f64_of_nat (b - a))" "f64_val (f64_of_nat (b - a)) = of_nat (b - a)"
    using assms f64_of_nat_exact[of "b - a"] by simp_all
  ultimately have "x = f64_round (int (b - a)) (int b)"
    unfolding x_def using ab assms(3) by (intro f64_div_value) simp_all
  then show ?thesis using f64_round_unit[of "int (b - a)" "int b"] assms by simp
qed

end
