(* ===== verification/ConnectionStats.thy ===== *)
theory ConnectionStats
  imports F64
begin

text \<open>
  The statistics of a connection, \<open>src/renet/src/connection_stats.rs\<close>: rings of counters, one
  counter for every 300 milliseconds of the last six seconds. The ring refines a log of
  everything that was counted, as long as the statistics are updated in every bucket of time.
\<close>

section \<open>Operations\<close>

definition RESOLUTION :: duration where
  "RESOLUTION = from_millis 300"

definition WINDOW :: duration where
  "WINDOW = from_millis 6000"

definition SIZE :: usize where
  "SIZE = as_millis WINDOW div as_millis RESOLUTION"

record connection_stats =
  cs_packets_sent :: "u64 list"
  cs_packets_acked :: "u64 list"
  cs_bytes_sent :: "u64 list"
  cs_bytes_received :: "u64 list"
  cs_current_index :: usize

definition cs_new :: connection_stats where
  "cs_new = \<lparr>cs_packets_sent = replicate SIZE 0, cs_packets_acked = replicate SIZE 0,
     cs_bytes_sent = replicate SIZE 0, cs_bytes_received = replicate SIZE 0, cs_current_index = 0\<rparr>"

text \<open>The cast of the 128-bit quotient to \<open>usize\<close> truncates.\<close>

definition cs_index :: "duration \<Rightarrow> usize" where
  "cs_index time = (as_millis time div as_millis RESOLUTION) mod 2 ^ 64 mod SIZE"

definition cs_update :: "connection_stats \<Rightarrow> duration \<Rightarrow> connection_stats option" where
  "cs_update s current_time =
     (let i = cs_index current_time in
      if cs_current_index s \<noteq> i then do {
        packets_sent \<leftarrow> vec_set (cs_packets_sent s) i 0;
        bytes_sent \<leftarrow> vec_set (cs_bytes_sent s) i 0;
        bytes_received \<leftarrow> vec_set (cs_bytes_received s) i 0;
        packets_acked \<leftarrow> vec_set (cs_packets_acked s) i 0;
        Some (s\<lparr>cs_current_index := i, cs_packets_sent := packets_sent, cs_bytes_sent := bytes_sent,
          cs_bytes_received := bytes_received, cs_packets_acked := packets_acked\<rparr>)
      } else Some s)"

text \<open>\<open>xs[i] += n\<close>.\<close>

definition vec_add :: "u64 list \<Rightarrow> usize \<Rightarrow> u64 \<Rightarrow> u64 list option" where
  "vec_add xs i n = do { x \<leftarrow> vec_get xs i; y \<leftarrow> uadd x n; vec_set xs i y }"

definition cs_sent_packets :: "connection_stats \<Rightarrow> u64 \<Rightarrow> u64 \<Rightarrow> connection_stats option" where
  "cs_sent_packets s num_packets bytes = do {
     packets_sent \<leftarrow> vec_add (cs_packets_sent s) (cs_current_index s) num_packets;
     bytes_sent \<leftarrow> vec_add (cs_bytes_sent s) (cs_current_index s) bytes;
     Some (s\<lparr>cs_packets_sent := packets_sent, cs_bytes_sent := bytes_sent\<rparr>)
   }"

definition cs_received_packet :: "connection_stats \<Rightarrow> u64 \<Rightarrow> connection_stats option" where
  "cs_received_packet s bytes = do {
     bytes_received \<leftarrow> vec_add (cs_bytes_received s) (cs_current_index s) bytes;
     Some (s\<lparr>cs_bytes_received := bytes_received\<rparr>)
   }"

definition cs_acked_packet :: "connection_stats \<Rightarrow> duration \<Rightarrow> duration \<Rightarrow> connection_stats option" where
  "cs_acked_packet s sent_at current_time = do {
     delta \<leftarrow> dsub current_time sent_at;
     (if delta > WINDOW then Some s
      else do {
        packets_acked \<leftarrow> vec_add (cs_packets_acked s) (cs_index sent_at) 1;
        Some (s\<lparr>cs_packets_acked := packets_acked\<rparr>)
      })
   }"

text \<open>\<open>iter().sum()\<close>.\<close>

definition usum :: "u64 list \<Rightarrow> u64 option" where
  "usum xs = foldM uadd 0 xs"

definition cs_bytes_sent_per_second :: "connection_stats \<Rightarrow> duration \<Rightarrow> f64 option" where
  "cs_bytes_sent_per_second s current_time = do {
     total_bytes \<leftarrow> usum (cs_bytes_sent s);
     (if current_time < WINDOW then Some (f64_div (f64_of_nat total_bytes) (as_secs_f64 current_time))
      else do {
        current \<leftarrow> vec_get (cs_bytes_sent s) (cs_current_index s);
        total_bytes \<leftarrow> usub total_bytes current;
        complete \<leftarrow> dsub WINDOW RESOLUTION;
        Some (f64_div (f64_of_nat total_bytes) (as_secs_f64 complete))
      })
   }"

definition cs_bytes_received_per_second :: "connection_stats \<Rightarrow> duration \<Rightarrow> f64 option" where
  "cs_bytes_received_per_second s current_time = do {
     total_bytes \<leftarrow> usum (cs_bytes_received s);
     (if current_time < WINDOW then Some (f64_div (f64_of_nat total_bytes) (as_secs_f64 current_time))
      else do {
        current \<leftarrow> vec_get (cs_bytes_received s) (cs_current_index s);
        total_bytes \<leftarrow> usub total_bytes current;
        complete \<leftarrow> dsub WINDOW RESOLUTION;
        Some (f64_div (f64_of_nat total_bytes) (as_secs_f64 complete))
      })
   }"

text \<open>The sum of a ring without its current bucket and the two before it.\<close>

definition settled_sum :: "u64 list \<Rightarrow> usize \<Rightarrow> u64 option" where
  "settled_sum xs i = do {
     sum \<leftarrow> usum xs;
     x \<leftarrow> vec_get xs i;
     sum \<leftarrow> usub sum x;
     j \<leftarrow> uadd i SIZE;
     j \<leftarrow> usub j 1;
     x \<leftarrow> vec_get xs (j mod SIZE);
     sum \<leftarrow> usub sum x;
     j \<leftarrow> uadd i SIZE;
     j \<leftarrow> usub j 2;
     x \<leftarrow> vec_get xs (j mod SIZE);
     usub sum x
   }"

definition cs_packet_loss :: "connection_stats \<Rightarrow> f64 option" where
  "cs_packet_loss s = do {
     sent \<leftarrow> settled_sum (cs_packets_sent s) (cs_current_index s);
     let total_packets_sent = f64_of_nat sent;
     acked \<leftarrow> settled_sum (cs_packets_acked s) (cs_current_index s);
     let total_packets_acked = f64_of_nat acked;
     Some (if total_packets_sent = Fin 0 0 then Fin 0 0
       else f64_div (f64_sub total_packets_sent total_packets_acked) total_packets_sent)
   }"

section \<open>The invariant\<close>

lemma SIZE_eq [simp]: "SIZE = 20"
  by (simp add: SIZE_def WINDOW_def RESOLUTION_def as_millis_def from_millis_def)

lemma resolution_millis [simp]: "as_millis RESOLUTION = 300"
  by (simp add: RESOLUTION_def as_millis_def from_millis_def)

definition cs_ok :: "connection_stats \<Rightarrow> bool" where
  "cs_ok s \<longleftrightarrow> length (cs_packets_sent s) = SIZE \<and> length (cs_packets_acked s) = SIZE
     \<and> length (cs_bytes_sent s) = SIZE \<and> length (cs_bytes_received s) = SIZE
     \<and> cs_current_index s < SIZE"

text \<open>What bounds every counter of the statistics.\<close>

definition cs_load :: "connection_stats \<Rightarrow> nat" where
  "cs_load s = sum_list (cs_packets_sent s) + sum_list (cs_packets_acked s)
     + sum_list (cs_bytes_sent s) + sum_list (cs_bytes_received s)"

lemma cs_new_ok [simp]: "cs_ok cs_new" "cs_load cs_new = 0"
  by (simp_all add: cs_ok_def cs_new_def cs_load_def)

lemma cs_index_less [simp]: "cs_index t < 20"
  by (simp add: cs_index_def)

lemma sum_list_update_0_le: "sum_list (xs[i := 0]) \<le> sum_list xs" for xs :: "nat list"
  by (induction xs arbitrary: i) (auto split: nat.splits simp: le_SucI add_mono)

lemma elem_le_sum_list: "i < length xs \<Longrightarrow> xs ! i \<le> sum_list xs" for xs :: "nat list"
  using member_le_sum_list_map[of "xs ! i" xs id] by simp

lemma vec_add_run:
  assumes "i < length xs" and "sum_list xs + n < 2 ^ 64"
  shows "vec_add xs i n = Some (xs[i := xs ! i + n])"
proof -
  have "xs ! i + n < 2 ^ 64" using elem_le_sum_list[OF assms(1)] assms(2) by simp
  then show ?thesis using assms(1) by (simp add: vec_add_def vec_get_def uadd_def vec_set_def)
qed

lemma sum_list_add_at: "i < length xs \<Longrightarrow> sum_list (xs[i := xs ! i + n]) = sum_list xs + n"
  for xs :: "nat list"
  using elem_le_sum_list[of i xs] by (simp add: sum_list_update)

lemma cs_update_ok:
  assumes "cs_ok s"
  shows "\<exists>s'. cs_update s t = Some s' \<and> cs_ok s' \<and> cs_load s' \<le> cs_load s"
  using assms sum_list_update_0_le
  by (auto simp: cs_update_def cs_ok_def cs_load_def vec_set_def Let_def intro!: add_mono)

lemma cs_sent_packets_ok:
  assumes "cs_ok s" and "cs_load s + n + b < 2 ^ 64"
  shows "\<exists>s'. cs_sent_packets s n b = Some s' \<and> cs_ok s' \<and> cs_load s' = cs_load s + n + b"
  using assms by (auto simp: cs_sent_packets_def cs_ok_def cs_load_def vec_add_run sum_list_add_at)

lemma cs_received_packet_ok:
  assumes "cs_ok s" and "cs_load s + b < 2 ^ 64"
  shows "\<exists>s'. cs_received_packet s b = Some s' \<and> cs_ok s' \<and> cs_load s' = cs_load s + b"
  using assms by (auto simp: cs_received_packet_def cs_ok_def cs_load_def vec_add_run sum_list_add_at)

lemma cs_acked_packet_ok:
  assumes "cs_ok s" and "cs_load s + 1 < 2 ^ 64" and "sent_at \<le> now"
  shows "\<exists>s'. cs_acked_packet s sent_at now = Some s' \<and> cs_ok s' \<and> cs_load s' \<le> cs_load s + 1"
  using assms
  by (auto simp: cs_acked_packet_def cs_ok_def cs_load_def vec_add_run
      sum_list_add_at sum_list_add_at[where n = 1, simplified] dsub_def)

lemma usum_run: "sum_list xs < 2 ^ 64 \<Longrightarrow> usum xs = Some (sum_list xs)"
proof -
  have "a + sum_list xs < 2 ^ 64 \<Longrightarrow> foldM uadd a xs = Some (a + sum_list xs)" for a
    by (induction xs arbitrary: a) (auto simp: uadd_def)
  from this[of 0] show "sum_list xs < 2 ^ 64 \<Longrightarrow> usum xs = Some (sum_list xs)" by (simp add: usum_def)
qed

lemma usub_add: "usub (n + k) k = Some n"
  by (simp add: usub_def)

text \<open>The buckets that the packet loss looks at: all but the current one and the two before.\<close>

definition settled :: "usize \<Rightarrow> usize set" where
  "settled i = {..<20} - {i, (i + 19) mod 20, (i + 18) mod 20}"

lemma ring_before: "k \<le> 20 \<Longrightarrow> i < 20 \<Longrightarrow> (i + (20 - k)) mod 20 = (if i < k then i + 20 - k else i - k)"
  for i k :: nat
proof -
  assume "k \<le> 20" "i < 20"
  then have "\<not> i < k \<Longrightarrow> i + (20 - k) = (i - k) + 20" by simp
  then have "\<not> i < k \<Longrightarrow> (i + (20 - k)) mod 20 = i - k" using \<open>i < 20\<close> by (metis less_imp_diff_less mod_add_self2 mod_less)
  then show ?thesis using \<open>k \<le> 20\<close> \<open>i < 20\<close> by (cases "i < k") simp_all
qed

lemma settled_sum_run:
  assumes "length xs = 20" and "i < 20" and "sum_list xs < 2 ^ 64"
  shows "settled_sum xs i = Some (\<Sum>j\<in>settled i. xs ! j)"
proof -
  let ?a = "(i + 19) mod 20" and ?b = "(i + 18) mod 20"
  have d: "i \<noteq> ?a" "i \<noteq> ?b" "?a \<noteq> ?b"
    using assms(2) ring_before[of 1 i] ring_before[of 2 i] by (simp_all split: if_splits)
  have "sum_list xs = (\<Sum>j\<in>{..<20}. xs ! j)" using assms(1) by (simp add: sum_list_sum_nth atLeast0LessThan)
  also have "{..<20} = settled i \<union> {i, ?a, ?b}" using assms(2) by (auto simp: settled_def)
  also have "(\<Sum>j\<in>settled i \<union> {i, ?a, ?b}. xs ! j) = (\<Sum>j\<in>settled i. xs ! j) + (\<Sum>j\<in>{i, ?a, ?b}. xs ! j)"
    by (rule sum.union_disjoint) (auto simp: settled_def)
  also have "(\<Sum>j\<in>{i, ?a, ?b}. xs ! j) = xs ! ?b + xs ! ?a + xs ! i" using d by simp
  finally have total: "sum_list xs = (\<Sum>j\<in>settled i. xs ! j) + xs ! ?b + xs ! ?a + xs ! i"
    by (simp only: add.assoc)
  have "settled_sum xs i =
      do { n \<leftarrow> usub (sum_list xs) (xs ! i); n \<leftarrow> usub n (xs ! ?a); usub n (xs ! ?b) }"
  proof -
    have "uadd i 20 = Some (i + 20)" "usub (i + 20) 1 = Some (i + 19)" "usub (i + 20) 2 = Some (i + 18)"
      "vec_get xs i = Some (xs ! i)" "vec_get xs ?a = Some (xs ! ?a)" "vec_get xs ?b = Some (xs ! ?b)"
      using assms by (simp_all add: uadd_def usub_def vec_get_def)
    then show ?thesis unfolding settled_sum_def usum_run[OF assms(3)] SIZE_eq by (simp only: bind.simps)
  qed
  also have "\<dots> = Some (\<Sum>j\<in>settled i. xs ! j)" by (simp only: total usub_add bind.simps)
  finally show ?thesis .
qed

section \<open>The window of time\<close>

text \<open>The bucket of an instant, not reduced modulo the size of the ring.\<close>

definition bucket :: "duration \<Rightarrow> nat" where
  "bucket t = as_millis t div 300"

lemma cs_index_bucket: "t < 2 ^ 64 * 1000000 \<Longrightarrow> cs_index t = bucket t mod 20"
proof -
  assume "t < 2 ^ 64 * 1000000"
  then have "as_millis t < 2 ^ 64" by (simp add: as_millis_def less_mult_imp_div_less)
  then have "bucket t < 2 ^ 64" unfolding bucket_def by (meson div_le_dividend le_less_trans)
  then show ?thesis by (simp add: cs_index_def bucket_def)
qed

text \<open>A ring at bucket \<open>b\<close> that holds, for each of the last twenty buckets, what the log
  \<open>lg\<close> holds for it.\<close>

definition ring :: "u64 list \<Rightarrow> nat \<Rightarrow> (nat \<Rightarrow> nat) \<Rightarrow> bool" where
  "ring xs b lg \<longleftrightarrow> length xs = 20 \<and> (\<forall>k \<le> b. b < k + 20 \<longrightarrow> xs ! (k mod 20) = lg k)
     \<and> (\<forall>i < 20. b < i \<longrightarrow> xs ! i = 0) \<and> (\<forall>k. b < k \<longrightarrow> lg k = 0)"

lemma ring_new: "ring (replicate 20 0) 0 (\<lambda>k. 0)"
  by (simp add: ring_def)

lemma same_residue: "k \<le> b \<Longrightarrow> b < k + 20 \<Longrightarrow> k mod 20 = b mod 20 \<Longrightarrow> k = b" for k b :: nat
  using mod_eq_dvd_iff_nat[of k b 20] nat_dvd_not_less[of "b - k" 20] by linarith

lemma ring_add: "ring xs b lg \<Longrightarrow> ring (xs[b mod 20 := xs ! (b mod 20) + n]) b (lg(b := lg b + n))"
  by (auto simp: ring_def nth_list_update dest: same_residue)

lemma ring_advance:
  assumes "ring xs b lg"
  shows "ring (xs[Suc b mod 20 := 0]) (Suc b) lg"
  unfolding ring_def
proof (intro conjI allI impI)
  fix k assume k: "k \<le> Suc b" "Suc b < k + 20"
  show "xs[Suc b mod 20 := 0] ! (k mod 20) = lg k"
  proof (cases "k = Suc b")
    case False
    then have "k mod 20 \<noteq> Suc b mod 20" using same_residue[OF k] by blast
    with False k assms show ?thesis by (simp add: ring_def)
  qed (use assms in \<open>simp add: ring_def\<close>)
next
  fix i :: nat assume "i < 20" "Suc b < i"
  with assms show "xs[Suc b mod 20 := 0] ! i = 0" by (auto simp: ring_def nth_list_update)
qed (use assms in \<open>auto simp: ring_def\<close>)

lemma sum_residues: "(\<Sum>k\<in>{c..<c + 20}. f (k mod 20)) = (\<Sum>i<20. f i)" for f :: "nat \<Rightarrow> nat"
proof (induction c)
  case 0
  show ?case by (rule sum.cong) auto
next
  case (Suc c)
  have "{c..<c + 20} = insert c {Suc c..<c + 20}" "{Suc c..<Suc c + 20} = insert (c + 20) {Suc c..<c + 20}"
    by auto
  then show ?case using Suc by simp
qed

text \<open>The sum of a ring is the sum of the log over the window.\<close>

definition window :: "nat \<Rightarrow> nat set" where
  "window b = {k. k \<le> b \<and> b < k + 20}"

lemma ring_sum:
  assumes "ring xs b lg"
  shows "sum_list xs = (\<Sum>k\<in>window b. lg k)"
proof -
  have xs: "length xs = 20" "\<And>k. k \<in> window b \<Longrightarrow> xs ! (k mod 20) = lg k"
    "\<And>i. i < 20 \<Longrightarrow> b < i \<Longrightarrow> xs ! i = 0"
    using assms by (auto simp: ring_def window_def)
  have total: "sum_list xs = (\<Sum>i<20. xs ! i)" using xs(1) by (simp add: sum_list_sum_nth atLeast0LessThan)
  show ?thesis
  proof (cases "b < 19")
    case True
    then have w: "window b = {..b}" by (auto simp: window_def)
    have "(\<Sum>i<20. xs ! i) = (\<Sum>i\<in>{..b}. xs ! i)"
      by (rule sum.mono_neutral_right) (use True xs(3) in auto)
    also have "\<dots> = (\<Sum>k\<in>window b. lg k)"
    proof (rule sum.cong)
      fix k assume "k \<in> window b"
      then show "xs ! k = lg k" using xs(2)[of k] True w by simp
    qed (simp add: w)
    finally show ?thesis using total by simp
  next
    case False
    then have w: "window b = {b - 19..<b - 19 + 20}" by (auto simp: window_def)
    have "(\<Sum>k\<in>window b. lg k) = (\<Sum>k\<in>window b. xs ! (k mod 20))"
      by (rule sum.cong) (use xs(2) in auto)
    also have "\<dots> = (\<Sum>i<20. xs ! i)" unfolding w by (rule sum_residues)
    finally show ?thesis using total by simp
  qed
qed

text \<open>A life of the statistics: at an instant, the statistics are updated and something is
  counted. It is steady when the bucket of time never advances by more than one.\<close>

datatype stats_event = Sent u64 u64 | Received u64

fun event_sent :: "stats_event \<Rightarrow> nat" where
  "event_sent (Sent n b) = b"
| "event_sent (Received b) = 0"

fun event_received :: "stats_event \<Rightarrow> nat" where
  "event_received (Sent n b) = 0"
| "event_received (Received b) = b"

fun event_load :: "stats_event \<Rightarrow> nat" where
  "event_load (Sent n b) = n + b"
| "event_load (Received b) = b"

definition cs_step :: "connection_stats \<Rightarrow> duration \<times> stats_event \<Rightarrow> connection_stats option" where
  "cs_step s te = do {
     s \<leftarrow> cs_update s (fst te);
     (case snd te of Sent n b \<Rightarrow> cs_sent_packets s n b | Received b \<Rightarrow> cs_received_packet s b)
   }"

fun steady :: "nat \<Rightarrow> (duration \<times> stats_event) list \<Rightarrow> bool" where
  "steady b [] = True"
| "steady b ((t, e) # es) = (t < 2 ^ 64 * 1000000 \<and> bucket t \<in> {b, b + 1} \<and> steady (bucket t) es)"

definition logged :: "(stats_event \<Rightarrow> nat) \<Rightarrow> (duration \<times> stats_event) list \<Rightarrow> nat \<Rightarrow> nat" where
  "logged f es k = sum_list (map (f \<circ> snd) (filter (\<lambda>te. bucket (fst te) = k) es))"

definition cs_rel :: "connection_stats \<Rightarrow> nat \<Rightarrow> (nat \<Rightarrow> nat) \<Rightarrow> (nat \<Rightarrow> nat) \<Rightarrow> bool" where
  "cs_rel s b sent received \<longleftrightarrow> cs_ok s \<and> cs_current_index s = b mod 20
     \<and> ring (cs_bytes_sent s) b sent \<and> ring (cs_bytes_received s) b received"

lemma suc_mod_20: "Suc b mod 20 \<noteq> b mod 20"
  using same_residue[of b "Suc b"] by auto

lemma cs_step_rel:
  assumes "cs_rel s b lgs lgr" and "t < 2 ^ 64 * 1000000" and "bucket t \<in> {b, b + 1}"
    and "cs_load s + event_load e < 2 ^ 64"
  shows "\<exists>s'. cs_step s (t, e) = Some s' \<and> cs_load s' \<le> cs_load s + event_load e
    \<and> cs_rel s' (bucket t) (lgs(bucket t := lgs (bucket t) + event_sent e))
         (lgr(bucket t := lgr (bucket t) + event_received e))"
proof -
  let ?b = "bucket t"
  have ok: "cs_ok s" using assms(1) by (simp add: cs_rel_def)
  from cs_update_ok[OF ok] obtain s1 where s1: "cs_update s t = Some s1" "cs_ok s1" "cs_load s1 \<le> cs_load s"
    by blast
  have rel1: "cs_rel s1 ?b lgs lgr"
  proof (cases "?b = b")
    case True
    then have "s1 = s"
      using s1(1) assms(1) cs_index_bucket[OF assms(2)] by (simp add: cs_update_def cs_rel_def)
    then show ?thesis using assms(1) True by simp
  next
    case False
    then have b: "?b = Suc b" using assms(3) by simp
    have i: "cs_index t = Suc b mod 20" using cs_index_bucket[OF assms(2)] b by simp
    have "cs_current_index s \<noteq> Suc b mod 20" using assms(1) suc_mod_20[of b] by (simp add: cs_rel_def)
    then have "cs_bytes_sent s1 = (cs_bytes_sent s)[Suc b mod 20 := 0]"
      "cs_bytes_received s1 = (cs_bytes_received s)[Suc b mod 20 := 0]" "cs_current_index s1 = Suc b mod 20"
      using s1(1) ok by (auto simp: cs_update_def i cs_ok_def rust_simps Let_def)
    then show ?thesis using assms(1) s1(2) b by (simp add: cs_rel_def ring_advance)
  qed
  show ?thesis
  proof (cases e)
    case (Sent n m)
    from cs_sent_packets_ok[OF s1(2), of n m] assms(4) s1(3) Sent obtain s2 where
      s2: "cs_sent_packets s1 n m = Some s2" "cs_ok s2" "cs_load s2 = cs_load s1 + n + m" by auto
    from s2(1) rel1 have "cs_rel s2 ?b (lgs(?b := lgs ?b + m)) lgr"
      using s2(2) by (auto simp: cs_sent_packets_def cs_rel_def vec_add_def rust_simps ring_add)
    then show ?thesis using s1 s2 Sent by (auto simp: cs_step_def)
  next
    case (Received m)
    from cs_received_packet_ok[OF s1(2), of m] assms(4) s1(3) Received obtain s2 where
      s2: "cs_received_packet s1 m = Some s2" "cs_ok s2" "cs_load s2 = cs_load s1 + m" by auto
    from s2(1) rel1 have "cs_rel s2 ?b lgs (lgr(?b := lgr ?b + m))"
      using s2(2) by (auto simp: cs_received_packet_def cs_rel_def vec_add_def rust_simps ring_add)
    then show ?thesis using s1 s2 Received by (auto simp: cs_step_def)
  qed
qed

definition last_bucket :: "nat \<Rightarrow> (duration \<times> stats_event) list \<Rightarrow> nat" where
  "last_bucket b es = (if es = [] then b else bucket (fst (last es)))"

lemma cs_run_rel:
  assumes "cs_rel s b lgs lgr" and "steady b es"
    and "cs_load s + sum_list (map (event_load \<circ> snd) es) < 2 ^ 64"
  shows "\<exists>s'. foldM cs_step s es = Some s'
    \<and> cs_load s' \<le> cs_load s + sum_list (map (event_load \<circ> snd) es)
    \<and> cs_rel s' (last_bucket b es) (\<lambda>k. lgs k + logged event_sent es k)
         (\<lambda>k. lgr k + logged event_received es k)"
  using assms
proof (induction es arbitrary: s b lgs lgr)
  case Nil
  then show ?case by (simp add: last_bucket_def logged_def)
next
  case (Cons te es)
  obtain t e where te: "te = (t, e)" by (cases te)
  let ?b = "bucket t"
  have "t < 2 ^ 64 * 1000000" "?b \<in> {b, b + 1}" "steady ?b es" "cs_load s + event_load e < 2 ^ 64"
    using Cons.prems by (auto simp: te)
  with cs_step_rel[OF Cons.prems(1)] obtain s1 where s1: "cs_step s (t, e) = Some s1"
    "cs_load s1 \<le> cs_load s + event_load e"
    "cs_rel s1 ?b (lgs(?b := lgs ?b + event_sent e)) (lgr(?b := lgr ?b + event_received e))"
    by blast
  have load: "cs_load s1 + sum_list (map (event_load \<circ> snd) es) < 2 ^ 64"
    using s1(2) Cons.prems(3) by (simp add: te comp_def)
  have lg: "(\<lambda>k. (g(?b := g ?b + f e)) k + logged f es k) = (\<lambda>k. g k + logged f (te # es) k)" for f g
    by (rule ext) (simp add: te logged_def)
  have last: "last_bucket ?b es = last_bucket b (te # es)" by (simp add: last_bucket_def te)
  from Cons.IH[OF s1(3) \<open>steady ?b es\<close> load, unfolded lg last] obtain s2 where
    "foldM cs_step s1 es = Some s2" "cs_load s2 \<le> cs_load s1 + sum_list (map (event_load \<circ> snd) es)"
    "cs_rel s2 (last_bucket b (te # es)) (\<lambda>k. lgs k + logged event_sent (te # es) k)
         (\<lambda>k. lgr k + logged event_received (te # es) k)" by blast
  with s1(1,2) te show ?case by (auto simp: comp_def)
qed

lemma cs_new_rel: "cs_rel cs_new 0 (\<lambda>k. 0) (\<lambda>k. 0)"
  by (simp add: cs_rel_def) (simp add: cs_new_def ring_def)

section \<open>Properties\<close>

text \<open>The bytes logged over a set of buckets.\<close>

definition bytes_in :: "(stats_event \<Rightarrow> nat) \<Rightarrow> (duration \<times> stats_event) list \<Rightarrow> nat set \<Rightarrow> nat" where
  "bytes_in f es K = (\<Sum>k\<in>K. logged f es k)"

lemma rate_run:
  assumes "ring xs b lg" and "sum_list xs < 2 ^ 64"
  shows "usum xs = Some (\<Sum>k\<in>window b. lg k)"
    and "usub (\<Sum>k\<in>window b. lg k) (xs ! (b mod 20)) = Some (\<Sum>k\<in>window b - {b}. lg k)"
    and "vec_get xs (b mod 20) = Some (xs ! (b mod 20))"
proof -
  show "usum xs = Some (\<Sum>k\<in>window b. lg k)" using usum_run[OF assms(2)] ring_sum[OF assms(1)] by simp
  have "window b = insert b (window b - {b})" by (auto simp: window_def)
  moreover have "finite (window b)" by (simp add: window_def)
  ultimately have "(\<Sum>k\<in>window b. lg k) = (\<Sum>k\<in>window b - {b}. lg k) + lg b"
    by (metis Diff_iff add.commute finite_Diff insertI1 sum.insert)
  moreover have "xs ! (b mod 20) = lg b" using assms(1) by (simp add: ring_def)
  ultimately show "usub (\<Sum>k\<in>window b. lg k) (xs ! (b mod 20)) = Some (\<Sum>k\<in>window b - {b}. lg k)"
    by (simp only: usub_add)
  show "vec_get xs (b mod 20) = Some (xs ! (b mod 20))" using assms(1) by (simp add: ring_def vec_get_def)
qed

text \<open>C35. The rates are those of the last six seconds: through any steady life of the statistics
  with fewer than \<open>2 ^ 64\<close> bytes and packets nothing panics, and at the end the rate of bytes
  sent (received) is, in the first six seconds, everything sent (received) so far over the
  time, and afterwards what the nineteen complete buckets of the window hold over their 5.7
  seconds.\<close>

theorem stats_rates:
  assumes "steady 0 es" and "sum_list (map (event_load \<circ> snd) es) < 2 ^ 64"
    and "bucket now = last_bucket 0 es"
  shows "\<exists>s. foldM cs_step cs_new es = Some s
    \<and> cs_bytes_sent_per_second s now = Some (if now < WINDOW
        then f64_div (f64_of_nat (bytes_in event_sent es (window (bucket now)))) (as_secs_f64 now)
        else f64_div (f64_of_nat (bytes_in event_sent es (window (bucket now) - {bucket now})))
          (as_secs_f64 (from_millis 5700)))
    \<and> cs_bytes_received_per_second s now = Some (if now < WINDOW
        then f64_div (f64_of_nat (bytes_in event_received es (window (bucket now)))) (as_secs_f64 now)
        else f64_div (f64_of_nat (bytes_in event_received es (window (bucket now) - {bucket now})))
          (as_secs_f64 (from_millis 5700)))"
proof -
  from cs_run_rel[OF cs_new_rel assms(1)] assms(2) obtain s where s: "foldM cs_step cs_new es = Some s"
    "cs_load s < 2 ^ 64" "cs_rel s (bucket now) (logged event_sent es) (logged event_received es)"
    by (auto simp: assms(3))
  have r: "ring (cs_bytes_sent s) (bucket now) (logged event_sent es)"
    "ring (cs_bytes_received s) (bucket now) (logged event_received es)"
    "cs_current_index s = bucket now mod 20" using s(3) by (simp_all add: cs_rel_def)
  have l: "sum_list (cs_bytes_sent s) < 2 ^ 64" "sum_list (cs_bytes_received s) < 2 ^ 64"
    using s(2) by (simp_all add: cs_load_def)
  have d: "dsub WINDOW RESOLUTION = Some (from_millis 5700)"
    by (simp add: WINDOW_def RESOLUTION_def dsub_def from_millis_def)
  note f = cs_bytes_sent_per_second_def cs_bytes_received_per_second_def bytes_in_def
  show ?thesis using s(1) rate_run[OF r(1) l(1)] rate_run[OF r(2) l(2)] by (simp add: f r(3) d)
qed

theorem stats_rates_witness:
  "\<exists>s. foldM cs_step cs_new [(0, Sent 1 600), (from_millis 200, Received 50), (from_millis 400, Sent 1 400)] = Some s
    \<and> cs_bytes_sent_per_second s (from_millis 500) = Some (f64_div (f64_of_nat 1000) (as_secs_f64 (from_millis 500)))
    \<and> cs_bytes_received_per_second s (from_millis 500) = Some (f64_div (f64_of_nat 50) (as_secs_f64 (from_millis 500)))"
proof -
  let ?es = "[(0, Sent 1 600), (from_millis 200, Received 50), (from_millis 400, Sent 1 400)]"
  have w: "window 1 = {0, 1}" by (auto simp: window_def)
  have b: "bucket 0 = 0" "bucket (from_millis 200) = 0" "bucket (from_millis 400) = 1" "bucket (from_millis 500) = 1"
    by (simp_all add: bucket_def as_millis_def from_millis_def)
  have sums: "bytes_in event_sent ?es (window 1) = 1000" "bytes_in event_received ?es (window 1) = 50"
    unfolding bytes_in_def w by (simp_all add: logged_def b)
  have early: "from_millis 500 < WINDOW" by (simp add: WINDOW_def from_millis_def)
  have hyps: "steady 0 ?es" "sum_list (map (event_load \<circ> snd) ?es) < 2 ^ 64"
    "bucket (from_millis 500) = last_bucket 0 ?es" by code_simp+
  show ?thesis using stats_rates[OF hyps] unfolding b(4) sums if_P[OF early] .
qed

text \<open>C36. The packet loss never panics on statistics with fewer than \<open>2 ^ 64\<close> packets: it is
  the unacknowledged share of the packets of the seventeen buckets older than the last two,
  zero if they have none. When no bucket has more packets acknowledged than sent, and fewer
  than \<open>2 ^ 53\<close> were sent, it is a number between zero and one.\<close>

theorem packet_loss_share:
  assumes "cs_ok s" and "cs_load s < 2 ^ 64"
  defines "sent \<equiv> \<Sum>j\<in>settled (cs_current_index s). cs_packets_sent s ! j"
    and "acked \<equiv> \<Sum>j\<in>settled (cs_current_index s). cs_packets_acked s ! j"
  shows "cs_packet_loss s = Some (if f64_of_nat sent = Fin 0 0 then Fin 0 0
      else f64_div (f64_sub (f64_of_nat sent) (f64_of_nat acked)) (f64_of_nat sent))
    \<and> ((\<forall>j < 20. cs_packets_acked s ! j \<le> cs_packets_sent s ! j) \<longrightarrow> sent < 2 ^ 53 \<longrightarrow>
        (\<exists>x. cs_packet_loss s = Some x \<and> f64_finite x \<and> 0 \<le> f64_val x \<and> f64_val x \<le> 1))"
proof -
  have run: "cs_packet_loss s = Some (if f64_of_nat sent = Fin 0 0 then Fin 0 0
      else f64_div (f64_sub (f64_of_nat sent) (f64_of_nat acked)) (f64_of_nat sent))"
    using assms(1,2) unfolding sent_def acked_def
    by (simp add: cs_packet_loss_def cs_ok_def cs_load_def settled_sum_run Let_def)
  have "\<exists>x. cs_packet_loss s = Some x \<and> f64_finite x \<and> 0 \<le> f64_val x \<and> f64_val x \<le> 1"
    if le: "\<forall>j < 20. cs_packets_acked s ! j \<le> cs_packets_sent s ! j" and lt: "sent < 2 ^ 53"
  proof (cases "sent = 0")
    case True
    then show ?thesis unfolding run by (simp add: f64_of_nat_def f64_round_def f64_finite_def f64_val_def)
  next
    case False
    have "acked \<le> sent" unfolding acked_def sent_def using le by (intro sum_mono) (auto simp: settled_def)
    then show ?thesis using f64_share_unit[of acked sent] f64_of_nat_exact[OF lt] lt False
      unfolding run by (auto simp: f64_val_def)
  qed
  with run show ?thesis by blast
qed

theorem packet_loss_share_witness:
  "\<exists>s x. s = cs_new\<lparr>cs_packets_sent := [0, 0, 0, 4] @ replicate 16 0,
      cs_packets_acked := [0, 0, 0, 1] @ replicate 16 0\<rparr>
    \<and> cs_packet_loss s = Some x \<and> 0 \<le> f64_val x \<and> f64_val x \<le> 1"
proof -
  let ?s = "cs_new\<lparr>cs_packets_sent := [0, 0, 0, 4] @ replicate 16 0,
      cs_packets_acked := [0, 0, 0, 1] @ replicate 16 0\<rparr>"
  have ok: "cs_ok ?s" "cs_load ?s < 2 ^ 64" by (simp_all add: cs_ok_def cs_load_def cs_new_def sum_list_replicate)
  have le: "\<forall>j < 20. cs_packets_acked ?s ! j \<le> cs_packets_sent ?s ! j" by code_simp
  have "sum_list (cs_packets_sent ?s) = (\<Sum>j<20. cs_packets_sent ?s ! j)"
    by (simp add: sum_list_sum_nth atLeast0LessThan)
  moreover have "(\<Sum>j\<in>settled (cs_current_index ?s). cs_packets_sent ?s ! j) \<le> (\<Sum>j<20. cs_packets_sent ?s ! j)"
    by (rule sum_mono2) (auto simp: settled_def)
  moreover have "sum_list (cs_packets_sent ?s) < 2 ^ 53" by code_simp
  ultimately have "(\<Sum>j\<in>settled (cs_current_index ?s). cs_packets_sent ?s ! j) < 2 ^ 53" by linarith
  with packet_loss_share[OF ok] le obtain x where x: "cs_packet_loss ?s = Some x" "0 \<le> f64_val x" "f64_val x \<le> 1"
    by blast
  then show ?thesis by blast
qed

end
