(* ===== verification/RemoteConnection.thy ===== *)
theory RemoteConnection
  imports SendUnreliable ReceiveUnreliable PendingAcks ConnectionStats
begin

text \<open>
  One end of a connection, \<open>RenetClient\<close> of \<open>src/renet/src/remote_connection.rs\<close>, with the
  configuration of its channels (\<open>src/renet/src/channel/mod.rs\<close>): messages go to the channels,
  every tick the channels fill packets under one sequence of numbers and one budget of bytes,
  received packets are recorded for acknowledgement and handed to the channels, and
  acknowledgements release the messages they covered.
\<close>

section \<open>Configuration\<close>

datatype send_type =
    Unreliable
  | ReliableOrdered duration
  | ReliableUnordered duration

record channel_config =
  cc_channel_id :: u8
  cc_max_memory_usage_bytes :: usize
  cc_send_type :: send_type

datatype default_channel = DefaultUnreliable | DefaultReliableOrdered | DefaultReliableUnordered

definition default_channel_id :: "default_channel \<Rightarrow> u8" where
  "default_channel_id channel = (case channel of
     DefaultUnreliable \<Rightarrow> 0
   | DefaultReliableUnordered \<Rightarrow> 1
   | DefaultReliableOrdered \<Rightarrow> 2)"

definition default_channel_config :: "channel_config list" where
  "default_channel_config =
     [\<lparr>cc_channel_id = 0, cc_max_memory_usage_bytes = 5 * 1024 * 1024, cc_send_type = Unreliable\<rparr>,
      \<lparr>cc_channel_id = 1, cc_max_memory_usage_bytes = 5 * 1024 * 1024,
       cc_send_type = ReliableUnordered (from_millis 300)\<rparr>,
      \<lparr>cc_channel_id = 2, cc_max_memory_usage_bytes = 5 * 1024 * 1024,
       cc_send_type = ReliableOrdered (from_millis 300)\<rparr>]"

record connection_config =
  cfg_available_bytes_per_tick :: u64
  cfg_server_channels_config :: "channel_config list"
  cfg_client_channels_config :: "channel_config list"

definition default_connection_config :: connection_config where
  "default_connection_config =
     \<lparr>cfg_available_bytes_per_tick = 60000, cfg_server_channels_config = default_channel_config,
      cfg_client_channels_config = default_channel_config\<rparr>"

section \<open>State\<close>

datatype packet_sent_info =
    InfoNone
  | ReliableMessages u8 "u64 list"
  | ReliableSliceMessage u8 u64 usize
  | InfoAck u64

record packet_sent =
  ps_sent_at :: duration
  ps_info :: packet_sent_info

datatype channel_order = ReliableChannel u8 | UnreliableChannel u8

datatype renet_connection_status = Connected | Connecting | Disconnected disconnect_reason

record renet_client =
  rc_packet_sequence :: u64
  rc_current_time :: duration
  rc_sent_packets :: "(u64 \<times> packet_sent) list"
  rc_pending_acks :: "range list"
  rc_channel_send_order :: "channel_order list"
  rc_send_unreliable_channels :: "(u8 \<times> send_channel_unreliable) list"
  rc_receive_unreliable_channels :: "(u8 \<times> receive_channel_unreliable) list"
  rc_send_reliable_channels :: "(u8 \<times> send_channel_reliable) list"
  rc_receive_reliable_channels :: "(u8 \<times> receive_channel_reliable) list"
  rc_stats :: connection_stats
  rc_available_bytes_per_tick :: u64
  rc_connection_status :: renet_connection_status
  rc_rtt :: f64

section \<open>Construction\<close>

text \<open>\<open>let old = channels.insert(id, channel); assert!(old.is_none())\<close>.\<close>

definition hm_insert_new :: "u8 \<Rightarrow> 'c \<Rightarrow> (u8 \<times> 'c) list \<Rightarrow> (u8 \<times> 'c) list option" where
  "hm_insert_new channel_id channel channels = do {
     rust_assert (hm_get channels channel_id = None);
     Some (hm_insert channel_id channel channels)
   }"

text \<open>The bodies of the two loops of \<open>from_channels\<close>, over the maps of channels (and the order of
  sending).\<close>

definition add_send_channel ::
    "(u8 \<times> send_channel_unreliable) list \<times> (u8 \<times> send_channel_reliable) list \<times> channel_order list
     \<Rightarrow> channel_config
     \<Rightarrow> ((u8 \<times> send_channel_unreliable) list \<times> (u8 \<times> send_channel_reliable) list \<times> channel_order list) option" where
  "add_send_channel maps cfg = (case maps of (unreliable, reliable, order) \<Rightarrow>
     let channel_id = cc_channel_id cfg in
     (case cc_send_type cfg of
        Unreliable \<Rightarrow> do {
          unreliable \<leftarrow> hm_insert_new channel_id (scu_new channel_id (cc_max_memory_usage_bytes cfg)) unreliable;
          Some (unreliable, reliable, order @ [UnreliableChannel channel_id])
        }
      | ReliableOrdered resend_time \<Rightarrow> do {
          reliable \<leftarrow> hm_insert_new channel_id
            (scr_new channel_id resend_time (cc_max_memory_usage_bytes cfg)) reliable;
          Some (unreliable, reliable, order @ [ReliableChannel channel_id])
        }
      | ReliableUnordered resend_time \<Rightarrow> do {
          reliable \<leftarrow> hm_insert_new channel_id
            (scr_new channel_id resend_time (cc_max_memory_usage_bytes cfg)) reliable;
          Some (unreliable, reliable, order @ [ReliableChannel channel_id])
        }))"

definition add_receive_channel ::
    "(u8 \<times> receive_channel_unreliable) list \<times> (u8 \<times> receive_channel_reliable) list \<Rightarrow> channel_config
     \<Rightarrow> ((u8 \<times> receive_channel_unreliable) list \<times> (u8 \<times> receive_channel_reliable) list) option" where
  "add_receive_channel maps cfg = (case maps of (unreliable, reliable) \<Rightarrow>
     let channel_id = cc_channel_id cfg in
     (case cc_send_type cfg of
        Unreliable \<Rightarrow> do {
          unreliable \<leftarrow> hm_insert_new channel_id (rcu_new channel_id (cc_max_memory_usage_bytes cfg)) unreliable;
          Some (unreliable, reliable)
        }
      | ReliableOrdered _ \<Rightarrow> do {
          reliable \<leftarrow> hm_insert_new channel_id (rcr_new (cc_max_memory_usage_bytes cfg) True) reliable;
          Some (unreliable, reliable)
        }
      | ReliableUnordered _ \<Rightarrow> do {
          reliable \<leftarrow> hm_insert_new channel_id (rcr_new (cc_max_memory_usage_bytes cfg) False) reliable;
          Some (unreliable, reliable)
        }))"

definition from_channels ::
    "u64 \<Rightarrow> channel_config list \<Rightarrow> channel_config list \<Rightarrow> renet_client option" where
  "from_channels available_bytes_per_tick send_channels_config receive_channels_config = do {
     (send_unreliable_channels, send_reliable_channels, channel_send_order) \<leftarrow>
       foldM add_send_channel ([], [], []) send_channels_config;
     (receive_unreliable_channels, receive_reliable_channels) \<leftarrow>
       foldM add_receive_channel ([], []) receive_channels_config;
     Some \<lparr>rc_packet_sequence = 0, rc_current_time = 0, rc_sent_packets = [], rc_pending_acks = [],
       rc_channel_send_order = channel_send_order,
       rc_send_unreliable_channels = send_unreliable_channels,
       rc_receive_unreliable_channels = receive_unreliable_channels,
       rc_send_reliable_channels = send_reliable_channels,
       rc_receive_reliable_channels = receive_reliable_channels,
       rc_stats = cs_new, rc_available_bytes_per_tick = available_bytes_per_tick,
       rc_connection_status = Connecting, rc_rtt = Fin 0 0\<rparr>
   }"

definition rc_new :: "connection_config \<Rightarrow> renet_client option" where
  "rc_new config = from_channels (cfg_available_bytes_per_tick config)
     (cfg_client_channels_config config) (cfg_server_channels_config config)"

definition rc_new_from_server :: "connection_config \<Rightarrow> renet_client option" where
  "rc_new_from_server config = from_channels (cfg_available_bytes_per_tick config)
     (cfg_server_channels_config config) (cfg_client_channels_config config)"

section \<open>Status and statistics\<close>

definition rc_packet_loss :: "renet_client \<Rightarrow> f64 option" where
  "rc_packet_loss c = cs_packet_loss (rc_stats c)"

definition rc_bytes_sent_per_sec :: "renet_client \<Rightarrow> f64 option" where
  "rc_bytes_sent_per_sec c = cs_bytes_sent_per_second (rc_stats c) (rc_current_time c)"

definition rc_bytes_received_per_sec :: "renet_client \<Rightarrow> f64 option" where
  "rc_bytes_received_per_sec c = cs_bytes_received_per_second (rc_stats c) (rc_current_time c)"

record network_info =
  ni_rtt :: f64
  ni_packet_loss :: f64
  ni_bytes_sent_per_second :: f64
  ni_bytes_received_per_second :: f64

definition rc_network_info :: "renet_client \<Rightarrow> network_info option" where
  "rc_network_info c = do {
     packet_loss \<leftarrow> cs_packet_loss (rc_stats c);
     sent \<leftarrow> cs_bytes_sent_per_second (rc_stats c) (rc_current_time c);
     received \<leftarrow> cs_bytes_received_per_second (rc_stats c) (rc_current_time c);
     Some \<lparr>ni_rtt = rc_rtt c, ni_packet_loss = packet_loss, ni_bytes_sent_per_second = sent,
       ni_bytes_received_per_second = received\<rparr>
   }"

definition rc_is_connected :: "renet_client \<Rightarrow> bool" where
  "rc_is_connected c = (rc_connection_status c = Connected)"

definition rc_is_connecting :: "renet_client \<Rightarrow> bool" where
  "rc_is_connecting c = (rc_connection_status c = Connecting)"

definition rc_is_disconnected :: "renet_client \<Rightarrow> bool" where
  "rc_is_disconnected c = (case rc_connection_status c of Disconnected _ \<Rightarrow> True | _ \<Rightarrow> False)"

definition rc_disconnect_reason :: "renet_client \<Rightarrow> disconnect_reason option" where
  "rc_disconnect_reason c = (case rc_connection_status c of Disconnected reason \<Rightarrow> Some reason | _ \<Rightarrow> None)"

definition rc_set_connected :: "renet_client \<Rightarrow> renet_client" where
  "rc_set_connected c =
     (if \<not> rc_is_disconnected c then c\<lparr>rc_connection_status := Connected\<rparr> else c)"

definition rc_set_connecting :: "renet_client \<Rightarrow> renet_client" where
  "rc_set_connecting c =
     (if \<not> rc_is_disconnected c then c\<lparr>rc_connection_status := Connecting\<rparr> else c)"

definition rc_disconnect_with_reason :: "renet_client \<Rightarrow> disconnect_reason \<Rightarrow> renet_client" where
  "rc_disconnect_with_reason c reason =
     (if \<not> rc_is_disconnected c then c\<lparr>rc_connection_status := Disconnected reason\<rparr> else c)"

definition rc_disconnect :: "renet_client \<Rightarrow> renet_client" where
  "rc_disconnect c = rc_disconnect_with_reason c DisconnectedByClient"

definition rc_disconnect_due_to_transport :: "renet_client \<Rightarrow> renet_client" where
  "rc_disconnect_due_to_transport c = rc_disconnect_with_reason c Transport"

section \<open>Messages\<close>

definition rc_channel_available_memory :: "renet_client \<Rightarrow> u8 \<Rightarrow> usize option" where
  "rc_channel_available_memory c channel_id = (case hm_get (rc_send_reliable_channels c) channel_id of
     Some reliable_channel \<Rightarrow> scr_available_memory reliable_channel
   | None \<Rightarrow> (case hm_get (rc_send_unreliable_channels c) channel_id of
       Some unreliable_channel \<Rightarrow> scu_available_memory unreliable_channel
     | None \<Rightarrow> None))"

definition rc_can_send_message :: "renet_client \<Rightarrow> u8 \<Rightarrow> usize \<Rightarrow> bool option" where
  "rc_can_send_message c channel_id size_bytes = (case hm_get (rc_send_reliable_channels c) channel_id of
     Some reliable_channel \<Rightarrow> scr_can_send_message reliable_channel size_bytes
   | None \<Rightarrow> (case hm_get (rc_send_unreliable_channels c) channel_id of
       Some unreliable_channel \<Rightarrow> scu_can_send_message unreliable_channel size_bytes
     | None \<Rightarrow> None))"

definition rc_send_message :: "renet_client \<Rightarrow> u8 \<Rightarrow> bytes \<Rightarrow> renet_client option" where
  "rc_send_message c channel_id message =
     (if rc_is_disconnected c then Some c
      else case hm_get (rc_send_reliable_channels c) channel_id of
        Some reliable_channel \<Rightarrow> do {
          (reliable_channel, r) \<leftarrow> scr_send_message reliable_channel message;
          let c = c\<lparr>rc_send_reliable_channels :=
            hm_insert channel_id reliable_channel (rc_send_reliable_channels c)\<rparr>;
          Some (case r of
              Inl error \<Rightarrow> rc_disconnect_with_reason c (SendChannelError channel_id error)
            | Inr _ \<Rightarrow> c)
        }
      | None \<Rightarrow> (case hm_get (rc_send_unreliable_channels c) channel_id of
          Some unreliable_channel \<Rightarrow> do {
            unreliable_channel \<leftarrow> scu_send_message unreliable_channel message;
            Some (c\<lparr>rc_send_unreliable_channels :=
              hm_insert channel_id unreliable_channel (rc_send_unreliable_channels c)\<rparr>)
          }
        | None \<Rightarrow> None))"

definition rc_receive_message :: "renet_client \<Rightarrow> u8 \<Rightarrow> (renet_client \<times> bytes option) option" where
  "rc_receive_message c channel_id =
     (if rc_is_disconnected c then Some (c, None)
      else case hm_get (rc_receive_reliable_channels c) channel_id of
        Some reliable_channel \<Rightarrow> do {
          (reliable_channel, message) \<leftarrow> rcr_receive_message reliable_channel;
          Some (c\<lparr>rc_receive_reliable_channels :=
            hm_insert channel_id reliable_channel (rc_receive_reliable_channels c)\<rparr>, message)
        }
      | None \<Rightarrow> (case hm_get (rc_receive_unreliable_channels c) channel_id of
          Some unreliable_channel \<Rightarrow> do {
            (unreliable_channel, message) \<leftarrow> rcu_receive_message unreliable_channel;
            Some (c\<lparr>rc_receive_unreliable_channels :=
              hm_insert channel_id unreliable_channel (rc_receive_unreliable_channels c)\<rparr>, message)
          }
        | None \<Rightarrow> None))"

section \<open>Time\<close>

definition PACKET_DISCARD_AFTER :: duration where
  "PACKET_DISCARD_AFTER = from_secs 3"

fun rc_lost_packets :: "duration \<Rightarrow> (u64 \<times> packet_sent) list \<Rightarrow> u64 list option" where
  "rc_lost_packets current_time [] = Some []"
| "rc_lost_packets current_time ((sequence, sent_packet) # es) = do {
     d \<leftarrow> dsub current_time (ps_sent_at sent_packet);
     (if d \<ge> PACKET_DISCARD_AFTER then do {
        lost_packets \<leftarrow> rc_lost_packets current_time es;
        Some (sequence # lost_packets)
      } else Some [])
   }"

definition rc_update :: "renet_client \<Rightarrow> duration \<Rightarrow> renet_client option" where
  "rc_update c duration = do {
     current_time \<leftarrow> dadd (rc_current_time c) duration;
     stats \<leftarrow> cs_update (rc_stats c) current_time;
     receive_unreliable_channels \<leftarrow> mapM (\<lambda>(channel_id, unreliable_channel). do {
         unreliable_channel \<leftarrow> rcu_discard_incomplete_old_slices unreliable_channel current_time;
         Some (channel_id, unreliable_channel)
       }) (rc_receive_unreliable_channels c);
     lost_packets \<leftarrow> rc_lost_packets current_time (rc_sent_packets c);
     Some (c\<lparr>rc_current_time := current_time, rc_stats := stats,
       rc_receive_unreliable_channels := receive_unreliable_channels,
       rc_sent_packets := foldl (\<lambda>m sequence. bt_remove sequence m) (rc_sent_packets c) lost_packets\<rparr>)
   }"

section \<open>Receiving packets\<close>

text \<open>The acknowledgement of one sent packet: the body of the loop over \<open>new_acks\<close>.\<close>

definition update_rtt :: "f64 \<Rightarrow> f64 \<Rightarrow> f64" where
  "update_rtt old rtt =
     (if f64_lt old f64_EPSILON then rtt
      else f64_add (f64_mul old (f64_round 875 1000)) (f64_mul rtt (f64_round 125 1000)))"

definition rc_packet_acked :: "renet_client \<Rightarrow> u64 \<Rightarrow> renet_client option" where
  "rc_packet_acked c sequence = do {
     sent_packet \<leftarrow> bt_get (rc_sent_packets c) sequence;
     stats \<leftarrow> cs_acked_packet (rc_stats c) (ps_sent_at sent_packet) (rc_current_time c);
     d \<leftarrow> dsub (rc_current_time c) (ps_sent_at sent_packet);
     let c = c\<lparr>rc_sent_packets := bt_remove sequence (rc_sent_packets c), rc_stats := stats,
       rc_rtt := update_rtt (rc_rtt c) (as_secs_f64 d)\<rparr>;
     (case ps_info sent_packet of
        ReliableMessages channel_id message_ids \<Rightarrow> do {
          reliable_channel \<leftarrow> hm_get (rc_send_reliable_channels c) channel_id;
          reliable_channel \<leftarrow> foldM scr_process_message_ack reliable_channel message_ids;
          Some (c\<lparr>rc_send_reliable_channels :=
            hm_insert channel_id reliable_channel (rc_send_reliable_channels c)\<rparr>)
        }
      | ReliableSliceMessage channel_id message_id slice_index \<Rightarrow> do {
          reliable_channel \<leftarrow> hm_get (rc_send_reliable_channels c) channel_id;
          reliable_channel \<leftarrow> scr_process_slice_message_ack reliable_channel message_id slice_index;
          Some (c\<lparr>rc_send_reliable_channels :=
            hm_insert channel_id reliable_channel (rc_send_reliable_channels c)\<rparr>)
        }
      | InfoAck largest_acked_packet \<Rightarrow> do {
          pending_acks \<leftarrow> acked_largest (rc_pending_acks c) largest_acked_packet;
          Some (c\<lparr>rc_pending_acks := pending_acks\<rparr>)
        }
      | InfoNone \<Rightarrow> Some c)
   }"

text \<open>\<open>self.sent_packets.range(range)\<close> panics on a range that starts after its end.\<close>

definition new_acks_in :: "(u64 \<times> packet_sent) list \<Rightarrow> range \<Rightarrow> u64 list option" where
  "new_acks_in sent_packets r = do {
     rust_assert (fst r \<le> snd r);
     Some (map fst (bt_range (fst r) (snd r) sent_packets))
   }"

text \<open>The loop over the messages of a \<open>SmallReliable\<close> packet, which stops at an error.\<close>

fun rcr_process_messages ::
    "receive_channel_reliable \<Rightarrow> (u64 \<times> bytes) list
     \<Rightarrow> (receive_channel_reliable \<times> (channel_error + unit)) option" where
  "rcr_process_messages channel [] = Some (channel, Inr ())"
| "rcr_process_messages channel ((message_id, message) # messages) = do {
     (channel, r) \<leftarrow> rcr_process_message channel message message_id;
     (case r of
        Inl error \<Rightarrow> Some (channel, Inl error)
      | Inr _ \<Rightarrow> rcr_process_messages channel messages)
   }"

text \<open>The client after a receive channel has worked on a packet.\<close>

definition rc_reliable_received ::
    "renet_client \<Rightarrow> u8 \<Rightarrow> receive_channel_reliable \<Rightarrow> channel_error + unit \<Rightarrow> renet_client" where
  "rc_reliable_received c channel_id channel r =
     (let c = c\<lparr>rc_receive_reliable_channels :=
        hm_insert channel_id channel (rc_receive_reliable_channels c)\<rparr> in
      case r of
        Inl error \<Rightarrow> rc_disconnect_with_reason c (ReceiveChannelError channel_id error)
      | Inr _ \<Rightarrow> c)"

definition rc_unreliable_received ::
    "renet_client \<Rightarrow> u8 \<Rightarrow> receive_channel_unreliable \<Rightarrow> channel_error + unit \<Rightarrow> renet_client" where
  "rc_unreliable_received c channel_id channel r =
     (let c = c\<lparr>rc_receive_unreliable_channels :=
        hm_insert channel_id channel (rc_receive_unreliable_channels c)\<rparr> in
      case r of
        Inl error \<Rightarrow> rc_disconnect_with_reason c (ReceiveChannelError channel_id error)
      | Inr _ \<Rightarrow> c)"

text \<open>\<open>match packet\<close> of \<open>process_packet\<close>.\<close>

fun rc_handle_packet :: "renet_client \<Rightarrow> packet \<Rightarrow> renet_client option" where
  "rc_handle_packet c (SmallReliable _ channel_id messages) =
     (case hm_get (rc_receive_reliable_channels c) channel_id of
        None \<Rightarrow> Some (rc_disconnect_with_reason c (ReceivedInvalidChannelId channel_id))
      | Some channel \<Rightarrow> do {
          (channel, r) \<leftarrow> rcr_process_messages channel messages;
          Some (rc_reliable_received c channel_id channel r)
        })"
| "rc_handle_packet c (SmallUnreliable _ channel_id messages) =
     (case hm_get (rc_receive_unreliable_channels c) channel_id of
        None \<Rightarrow> Some (rc_disconnect_with_reason c (ReceivedInvalidChannelId channel_id))
      | Some channel \<Rightarrow> do {
          channel \<leftarrow> foldM rcu_process_message channel messages;
          Some (rc_unreliable_received c channel_id channel (Inr ()))
        })"
| "rc_handle_packet c (ReliableSlice _ channel_id sl) =
     (case hm_get (rc_receive_reliable_channels c) channel_id of
        None \<Rightarrow> Some (rc_disconnect_with_reason c (ReceivedInvalidChannelId channel_id))
      | Some channel \<Rightarrow> do {
          (channel, r) \<leftarrow> rcr_process_slice channel sl;
          Some (rc_reliable_received c channel_id channel r)
        })"
| "rc_handle_packet c (UnreliableSlice _ channel_id sl) =
     (case hm_get (rc_receive_unreliable_channels c) channel_id of
        None \<Rightarrow> Some (rc_disconnect_with_reason c (ReceivedInvalidChannelId channel_id))
      | Some channel \<Rightarrow> do {
          (channel, r) \<leftarrow> rcu_process_slice channel sl (rc_current_time c);
          Some (rc_unreliable_received c channel_id channel r)
        })"
| "rc_handle_packet c (Ack _ ack_ranges) = do {
     new_acks \<leftarrow> mapM (new_acks_in (rc_sent_packets c)) ack_ranges;
     foldM rc_packet_acked c (concat new_acks)
   }"

definition rc_process_packet :: "octets_api \<Rightarrow> renet_client \<Rightarrow> bytes \<Rightarrow> renet_client option" where
  "rc_process_packet oa c packet =
     (if rc_is_disconnected c then Some c
      else do {
        stats \<leftarrow> cs_received_packet (rc_stats c) (length packet);
        let c = c\<lparr>rc_stats := stats\<rparr>;
        r \<leftarrow> from_bytes oa packet;
        (case r of
           Inl err \<Rightarrow> Some (rc_disconnect_with_reason c (PacketDeserialization err))
         | Inr packet \<Rightarrow> do {
             pending_acks \<leftarrow> add_pending_ack (rc_pending_acks c) (packet_sequence packet);
             rc_handle_packet (c\<lparr>rc_pending_acks := pending_acks\<rparr>) packet
           })
      })"

section \<open>Sending packets\<close>

text \<open>One channel of the order of sending: the client, the packets so far and the bytes left.\<close>

definition rc_channel_packets ::
    "octets_api \<Rightarrow> renet_client \<times> packet list \<times> u64 \<Rightarrow> channel_order
     \<Rightarrow> (renet_client \<times> packet list \<times> u64) option" where
  "rc_channel_packets oa state order = (case state of (c, packets, available_bytes) \<Rightarrow>
     (case order of
        ReliableChannel channel_id \<Rightarrow> do {
          channel \<leftarrow> hm_get (rc_send_reliable_channels c) channel_id;
          (channel, new_packets, sequence, available_bytes) \<leftarrow>
            scr_get_packets_to_send oa channel (rc_packet_sequence c) available_bytes (rc_current_time c);
          Some (c\<lparr>rc_send_reliable_channels := hm_insert channel_id channel (rc_send_reliable_channels c),
            rc_packet_sequence := sequence\<rparr>, packets @ new_packets, available_bytes)
        }
      | UnreliableChannel channel_id \<Rightarrow> do {
          channel \<leftarrow> hm_get (rc_send_unreliable_channels c) channel_id;
          (channel, new_packets, sequence, available_bytes) \<leftarrow>
            scu_get_packets_to_send oa channel (rc_packet_sequence c) available_bytes;
          Some (c\<lparr>rc_send_unreliable_channels := hm_insert channel_id channel (rc_send_unreliable_channels c),
            rc_packet_sequence := sequence\<rparr>, packets @ new_packets, available_bytes)
        }))"

definition rc_ack_packet :: "renet_client \<Rightarrow> packet list \<Rightarrow> (renet_client \<times> packet list) option" where
  "rc_ack_packet c packets =
     (if rc_pending_acks c \<noteq> [] then do {
        let ack_packet = Ack (rc_packet_sequence c) (rc_pending_acks c);
        sequence \<leftarrow> uadd (rc_packet_sequence c) 1;
        Some (c\<lparr>rc_packet_sequence := sequence\<rparr>, packets @ [ack_packet])
      } else Some (c, packets))"

text \<open>What a sent packet is remembered by.\<close>

fun sent_info :: "packet \<Rightarrow> packet_sent_info option" where
  "sent_info (SmallReliable _ channel_id messages) = Some (ReliableMessages channel_id (map fst messages))"
| "sent_info (ReliableSlice _ channel_id sl) =
     Some (ReliableSliceMessage channel_id (sl_message_id sl) (sl_slice_index sl))"
| "sent_info (SmallUnreliable _ _ _) = Some InfoNone"
| "sent_info (UnreliableSlice _ _ _) = Some InfoNone"
| "sent_info (Ack _ ack_ranges) = do {
     rust_assert (ack_ranges \<noteq> []);
     largest_acked_packet \<leftarrow> usub (snd (last ack_ranges)) 1;
     Some (InfoAck largest_acked_packet)
   }"

definition record_sent ::
    "duration \<Rightarrow> (u64 \<times> packet_sent) list \<Rightarrow> packet \<Rightarrow> (u64 \<times> packet_sent) list option" where
  "record_sent sent_at sent_packets packet = do {
     info \<leftarrow> sent_info packet;
     Some (bt_insert (packet_sequence packet) \<lparr>ps_sent_at = sent_at, ps_info = info\<rparr> sent_packets)
   }"

fun serialize_packets ::
    "octets_api \<Rightarrow> packet list \<Rightarrow> bytes list \<Rightarrow> u64 \<Rightarrow> (serialization_error + bytes list \<times> u64) option" where
  "serialize_packets oa [] serialized_packets bytes_sent = Some (Inr (serialized_packets, bytes_sent))"
| "serialize_packets oa (packet # packets) serialized_packets bytes_sent = do {
     r \<leftarrow> to_bytes oa packet (wb_new 1400);
     (case r of
        Inl err \<Rightarrow> Some (Inl err)
      | Inr (len, oct) \<Rightarrow> do {
          bytes_sent \<leftarrow> uadd bytes_sent len;
          serialized \<leftarrow> vec_slice (wb_out oct) 0 len;
          serialize_packets oa packets (serialized_packets @ [serialized]) bytes_sent
        })
   }"

definition rc_get_packets_to_send :: "octets_api \<Rightarrow> renet_client \<Rightarrow> (renet_client \<times> bytes list) option" where
  "rc_get_packets_to_send oa c =
     (if rc_is_disconnected c then Some (c, [])
      else do {
        (c, packets, _) \<leftarrow> foldM (rc_channel_packets oa) (c, [], rc_available_bytes_per_tick c)
          (rc_channel_send_order c);
        (c, packets) \<leftarrow> rc_ack_packet c packets;
        sent_packets \<leftarrow> foldM (record_sent (rc_current_time c)) (rc_sent_packets c) packets;
        let c = c\<lparr>rc_sent_packets := sent_packets\<rparr>;
        r \<leftarrow> serialize_packets oa packets [] 0;
        (case r of
           Inl err \<Rightarrow> Some (rc_disconnect_with_reason c (PacketSerialization err), [])
         | Inr (serialized_packets, bytes_sent) \<Rightarrow> do {
             stats \<leftarrow> cs_sent_packets (rc_stats c) (length serialized_packets) bytes_sent;
             Some (c\<lparr>rc_stats := stats\<rparr>, serialized_packets)
           })
      })"

end
