(* ===== verification/RenetServer.thy ===== *)
theory RenetServer
  imports RemoteConnection
begin

text \<open>
  The connections of a server, \<open>RenetServer\<close> of \<open>src/renet/src/server.rs\<close>: a map from client
  ids to connections and the queue of connection events.
\<close>

section \<open>State\<close>

type_synonym client_id = u64

datatype server_event =
    ClientConnected client_id
  | ClientDisconnected client_id disconnect_reason

record renet_server =
  srv_connections :: "(client_id \<times> renet_client) list"
  srv_connection_config :: connection_config
  srv_events :: "server_event list"

datatype client_not_found = ClientNotFound

definition srv_new :: "connection_config \<Rightarrow> renet_server" where
  "srv_new connection_config =
     \<lparr>srv_connections = [], srv_connection_config = connection_config, srv_events = []\<rparr>"

section \<open>The life of connections\<close>

definition srv_add_connection :: "renet_server \<Rightarrow> client_id \<Rightarrow> renet_server option" where
  "srv_add_connection s client_id =
     (if hm_get (srv_connections s) client_id \<noteq> None then Some s
      else do {
        connection \<leftarrow> rc_new_from_server (srv_connection_config s);
        Some (s\<lparr>srv_connections := hm_insert client_id (rc_set_connected connection) (srv_connections s),
          srv_events := srv_events s @ [ClientConnected client_id]\<rparr>)
      })"

definition srv_get_event :: "renet_server \<Rightarrow> renet_server \<times> server_event option" where
  "srv_get_event s = (case srv_events s of
     [] \<Rightarrow> (s, None)
   | event # events \<Rightarrow> (s\<lparr>srv_events := events\<rparr>, Some event))"

definition srv_has_connections :: "renet_server \<Rightarrow> bool" where
  "srv_has_connections s = (srv_connections s \<noteq> [])"

definition srv_remove_connection :: "renet_server \<Rightarrow> client_id \<Rightarrow> renet_server" where
  "srv_remove_connection s client_id = (case hm_get (srv_connections s) client_id of
     None \<Rightarrow> s
   | Some connection \<Rightarrow>
       let reason = (case rc_disconnect_reason connection of Some reason \<Rightarrow> reason | None \<Rightarrow> Transport) in
       s\<lparr>srv_connections := hm_remove client_id (srv_connections s),
         srv_events := srv_events s @ [ClientDisconnected client_id reason]\<rparr>)"

definition srv_disconnect :: "renet_server \<Rightarrow> client_id \<Rightarrow> renet_server" where
  "srv_disconnect s client_id = (case hm_get (srv_connections s) client_id of
     None \<Rightarrow> s
   | Some connection \<Rightarrow> s\<lparr>srv_connections := hm_insert client_id
       (rc_disconnect_with_reason connection DisconnectedByServer) (srv_connections s)\<rparr>)"

definition srv_disconnect_all :: "renet_server \<Rightarrow> renet_server" where
  "srv_disconnect_all s = s\<lparr>srv_connections := map (\<lambda>(client_id, connection).
     (client_id, rc_disconnect_with_reason connection DisconnectedByServer)) (srv_connections s)\<rparr>"

section \<open>Queries\<close>

definition srv_disconnect_reason :: "renet_server \<Rightarrow> client_id \<Rightarrow> disconnect_reason option" where
  "srv_disconnect_reason s client_id = (case hm_get (srv_connections s) client_id of
     Some connection \<Rightarrow> rc_disconnect_reason connection | None \<Rightarrow> None)"

definition srv_rtt :: "renet_server \<Rightarrow> client_id \<Rightarrow> f64" where
  "srv_rtt s client_id = (case hm_get (srv_connections s) client_id of
     Some connection \<Rightarrow> rc_rtt connection | None \<Rightarrow> Fin 0 0)"

definition srv_packet_loss :: "renet_server \<Rightarrow> client_id \<Rightarrow> f64 option" where
  "srv_packet_loss s client_id = (case hm_get (srv_connections s) client_id of
     Some connection \<Rightarrow> rc_packet_loss connection | None \<Rightarrow> Some (Fin 0 0))"

definition srv_bytes_sent_per_sec :: "renet_server \<Rightarrow> client_id \<Rightarrow> f64 option" where
  "srv_bytes_sent_per_sec s client_id = (case hm_get (srv_connections s) client_id of
     Some connection \<Rightarrow> rc_bytes_sent_per_sec connection | None \<Rightarrow> Some (Fin 0 0))"

definition srv_bytes_received_per_sec :: "renet_server \<Rightarrow> client_id \<Rightarrow> f64 option" where
  "srv_bytes_received_per_sec s client_id = (case hm_get (srv_connections s) client_id of
     Some connection \<Rightarrow> rc_bytes_received_per_sec connection | None \<Rightarrow> Some (Fin 0 0))"

definition srv_network_info :: "renet_server \<Rightarrow> client_id \<Rightarrow> (client_not_found + network_info) option" where
  "srv_network_info s client_id = (case hm_get (srv_connections s) client_id of
     Some connection \<Rightarrow> do { info \<leftarrow> rc_network_info connection; Some (Inr info) }
   | None \<Rightarrow> Some (Inl ClientNotFound))"

definition srv_channel_available_memory :: "renet_server \<Rightarrow> client_id \<Rightarrow> u8 \<Rightarrow> usize option" where
  "srv_channel_available_memory s client_id channel_id = (case hm_get (srv_connections s) client_id of
     Some connection \<Rightarrow> rc_channel_available_memory connection channel_id | None \<Rightarrow> Some 0)"

definition srv_can_send_message :: "renet_server \<Rightarrow> client_id \<Rightarrow> u8 \<Rightarrow> usize \<Rightarrow> bool option" where
  "srv_can_send_message s client_id channel_id size_bytes = (case hm_get (srv_connections s) client_id of
     Some connection \<Rightarrow> rc_can_send_message connection channel_id size_bytes | None \<Rightarrow> Some False)"

definition srv_clients_id :: "renet_server \<Rightarrow> client_id list" where
  "srv_clients_id s = map fst (filter (\<lambda>(_, c). rc_is_connected c) (srv_connections s))"

definition srv_disconnections_id :: "renet_server \<Rightarrow> client_id list" where
  "srv_disconnections_id s = map fst (filter (\<lambda>(_, c). rc_is_disconnected c) (srv_connections s))"

definition srv_connected_clients :: "renet_server \<Rightarrow> usize" where
  "srv_connected_clients s = length (filter (\<lambda>(_, c). rc_is_connected c) (srv_connections s))"

definition srv_is_connected :: "renet_server \<Rightarrow> client_id \<Rightarrow> bool" where
  "srv_is_connected s client_id = (case hm_get (srv_connections s) client_id of
     Some connection \<Rightarrow> rc_is_connected connection | None \<Rightarrow> False)"

section \<open>Messages and packets\<close>

text \<open>\<open>for connection in self.connections.values_mut()\<close> with a body that may panic.\<close>

definition srv_each ::
    "(client_id \<Rightarrow> renet_client \<Rightarrow> renet_client option) \<Rightarrow> renet_server \<Rightarrow> renet_server option" where
  "srv_each f s = do {
     connections \<leftarrow> mapM (\<lambda>(client_id, connection). do {
         connection \<leftarrow> f client_id connection;
         Some (client_id, connection)
       }) (srv_connections s);
     Some (s\<lparr>srv_connections := connections\<rparr>)
   }"

definition srv_broadcast_message :: "renet_server \<Rightarrow> u8 \<Rightarrow> bytes \<Rightarrow> renet_server option" where
  "srv_broadcast_message s channel_id message =
     srv_each (\<lambda>_ connection. rc_send_message connection channel_id message) s"

definition srv_broadcast_message_except ::
    "renet_server \<Rightarrow> client_id \<Rightarrow> u8 \<Rightarrow> bytes \<Rightarrow> renet_server option" where
  "srv_broadcast_message_except s except_id channel_id message =
     srv_each (\<lambda>connection_id connection.
       if except_id = connection_id then Some connection
       else rc_send_message connection channel_id message) s"

definition srv_send_message :: "renet_server \<Rightarrow> client_id \<Rightarrow> u8 \<Rightarrow> bytes \<Rightarrow> renet_server option" where
  "srv_send_message s client_id channel_id message = (case hm_get (srv_connections s) client_id of
     Some connection \<Rightarrow> do {
       connection \<leftarrow> rc_send_message connection channel_id message;
       Some (s\<lparr>srv_connections := hm_insert client_id connection (srv_connections s)\<rparr>)
     }
   | None \<Rightarrow> Some s)"

definition srv_receive_message ::
    "renet_server \<Rightarrow> client_id \<Rightarrow> u8 \<Rightarrow> (renet_server \<times> bytes option) option" where
  "srv_receive_message s client_id channel_id = (case hm_get (srv_connections s) client_id of
     Some connection \<Rightarrow> do {
       (connection, message) \<leftarrow> rc_receive_message connection channel_id;
       Some (s\<lparr>srv_connections := hm_insert client_id connection (srv_connections s)\<rparr>, message)
     }
   | None \<Rightarrow> Some (s, None))"

definition srv_update :: "renet_server \<Rightarrow> duration \<Rightarrow> renet_server option" where
  "srv_update s duration = srv_each (\<lambda>_ connection. rc_update connection duration) s"

definition srv_get_packets_to_send ::
    "octets_api \<Rightarrow> renet_server \<Rightarrow> client_id \<Rightarrow> (renet_server \<times> (client_not_found + bytes list)) option" where
  "srv_get_packets_to_send oa s client_id = (case hm_get (srv_connections s) client_id of
     Some connection \<Rightarrow> do {
       (connection, packets) \<leftarrow> rc_get_packets_to_send oa connection;
       Some (s\<lparr>srv_connections := hm_insert client_id connection (srv_connections s)\<rparr>, Inr packets)
     }
   | None \<Rightarrow> Some (s, Inl ClientNotFound))"

definition srv_process_packet_from ::
    "octets_api \<Rightarrow> renet_server \<Rightarrow> bytes \<Rightarrow> client_id \<Rightarrow> (renet_server \<times> (client_not_found + unit)) option" where
  "srv_process_packet_from oa s payload client_id = (case hm_get (srv_connections s) client_id of
     Some connection \<Rightarrow> do {
       connection \<leftarrow> rc_process_packet oa connection payload;
       Some (s\<lparr>srv_connections := hm_insert client_id connection (srv_connections s)\<rparr>, Inr ())
     }
   | None \<Rightarrow> Some (s, Inl ClientNotFound))"

section \<open>Local clients\<close>

definition srv_new_local_client :: "renet_server \<Rightarrow> client_id \<Rightarrow> (renet_server \<times> renet_client) option" where
  "srv_new_local_client s client_id = do {
     client \<leftarrow> rc_new_from_server (srv_connection_config s);
     s \<leftarrow> srv_add_connection s client_id;
     Some (s, rc_set_connected client)
   }"

definition srv_disconnect_local_client ::
    "renet_server \<Rightarrow> client_id \<Rightarrow> renet_client \<Rightarrow> renet_server \<times> renet_client" where
  "srv_disconnect_local_client s client_id client =
     (if rc_is_disconnected client then (s, client)
      else let client = rc_disconnect client in
        if hm_get (srv_connections s) client_id \<noteq> None
        then (s\<lparr>srv_connections := hm_remove client_id (srv_connections s),
            srv_events := srv_events s @ [ClientDisconnected client_id DisconnectedByClient]\<rparr>, client)
        else (s, client))"

text \<open>The loop over the client's packets, with its early return.\<close>

fun srv_process_packets_from ::
    "octets_api \<Rightarrow> renet_server \<Rightarrow> bytes list \<Rightarrow> client_id \<Rightarrow> (renet_server \<times> (client_not_found + unit)) option" where
  "srv_process_packets_from oa s [] client_id = Some (s, Inr ())"
| "srv_process_packets_from oa s (packet # packets) client_id = do {
     (s, r) \<leftarrow> srv_process_packet_from oa s packet client_id;
     (case r of Inl e \<Rightarrow> Some (s, Inl e) | Inr _ \<Rightarrow> srv_process_packets_from oa s packets client_id)
   }"

definition srv_process_local_client ::
    "octets_api \<Rightarrow> renet_server \<Rightarrow> client_id \<Rightarrow> renet_client
     \<Rightarrow> (renet_server \<times> renet_client \<times> (client_not_found + unit)) option" where
  "srv_process_local_client oa s client_id client = do {
     (s, r) \<leftarrow> srv_get_packets_to_send oa s client_id;
     (case r of
        Inl e \<Rightarrow> Some (s, client, Inl e)
      | Inr packets \<Rightarrow> do {
          client \<leftarrow> foldM (rc_process_packet oa) client packets;
          (client, packets) \<leftarrow> rc_get_packets_to_send oa client;
          (s, r) \<leftarrow> srv_process_packets_from oa s packets client_id;
          Some (s, client, r)
        })
   }"

section \<open>Events\<close>

text \<open>Every operation that changes the server; \<open>DisconnectLocal\<close> and \<open>ProcessLocal\<close> carry the local client.\<close>

datatype srv_op =
    AddConnection client_id
  | RemoveConnection client_id
  | Disconnect client_id
  | DisconnectAll
  | GetEvent
  | Broadcast u8 bytes
  | BroadcastExcept client_id u8 bytes
  | SendMessage client_id u8 bytes
  | ReceiveMessage client_id u8
  | Update duration
  | GetPackets client_id
  | ProcessPacket bytes client_id
  | NewLocal client_id
  | DisconnectLocal client_id renet_client
  | ProcessLocal client_id renet_client

text \<open>The server after an operation, and the event it handed out.\<close>

fun srv_exec :: "octets_api \<Rightarrow> renet_server \<Rightarrow> srv_op \<Rightarrow> (renet_server \<times> server_event list) option" where
  "srv_exec oa s (AddConnection i) = do { s \<leftarrow> srv_add_connection s i; Some (s, []) }"
| "srv_exec oa s (RemoveConnection i) = Some (srv_remove_connection s i, [])"
| "srv_exec oa s (Disconnect i) = Some (srv_disconnect s i, [])"
| "srv_exec oa s DisconnectAll = Some (srv_disconnect_all s, [])"
| "srv_exec oa s GetEvent = Some (case srv_get_event s of (s, e) \<Rightarrow> (s, case e of None \<Rightarrow> [] | Some e \<Rightarrow> [e]))"
| "srv_exec oa s (Broadcast ch m) = do { s \<leftarrow> srv_broadcast_message s ch m; Some (s, []) }"
| "srv_exec oa s (BroadcastExcept i ch m) = do { s \<leftarrow> srv_broadcast_message_except s i ch m; Some (s, []) }"
| "srv_exec oa s (SendMessage i ch m) = do { s \<leftarrow> srv_send_message s i ch m; Some (s, []) }"
| "srv_exec oa s (ReceiveMessage i ch) = do { (s, m) \<leftarrow> srv_receive_message s i ch; Some (s, []) }"
| "srv_exec oa s (Update d) = do { s \<leftarrow> srv_update s d; Some (s, []) }"
| "srv_exec oa s (GetPackets i) = do { (s, r) \<leftarrow> srv_get_packets_to_send oa s i; Some (s, []) }"
| "srv_exec oa s (ProcessPacket p i) = do { (s, r) \<leftarrow> srv_process_packet_from oa s p i; Some (s, []) }"
| "srv_exec oa s (NewLocal i) = do { (s, c) \<leftarrow> srv_new_local_client s i; Some (s, []) }"
| "srv_exec oa s (DisconnectLocal i c) = Some (fst (srv_disconnect_local_client s i c), [])"
| "srv_exec oa s (ProcessLocal i c) = do { (s, c, r) \<leftarrow> srv_process_local_client oa s i c; Some (s, []) }"

fun srv_run :: "octets_api \<Rightarrow> renet_server \<Rightarrow> srv_op list \<Rightarrow> (renet_server \<times> server_event list) option" where
  "srv_run oa s [] = Some (s, [])"
| "srv_run oa s (op # ops) = do {
     (s, es) \<leftarrow> srv_exec oa s op;
     (s, es') \<leftarrow> srv_run oa s ops;
     Some (s, es @ es')
   }"

fun event_client :: "server_event \<Rightarrow> client_id" where
  "event_client (ClientConnected i) = i"
| "event_client (ClientDisconnected i _) = i"

fun is_connect :: "server_event \<Rightarrow> bool" where
  "is_connect (ClientConnected _) = True"
| "is_connect (ClientDisconnected _ _) = False"

text \<open>The events of one client alternate, starting with a connection; \<open>present\<close> at the end when
  the last of them is a connection.\<close>

fun alternates :: "bool \<Rightarrow> server_event list \<Rightarrow> bool \<Rightarrow> bool" where
  "alternates before [] present = (present = before)"
| "alternates before (e # es) present = (is_connect e = (\<not> before) \<and> alternates (is_connect e) es present)"

definition events_of :: "client_id \<Rightarrow> server_event list \<Rightarrow> server_event list" where
  "events_of i es = filter (\<lambda>e. event_client e = i) es"

lemma events_of_append [simp]: "events_of i (es @ es') = events_of i es @ events_of i es'"
  by (simp add: events_of_def)

lemma events_of_Cons [simp]: "events_of i (e # es) = (if event_client e = i then e # events_of i es else events_of i es)"
  by (simp add: events_of_def)

lemma events_of_Nil [simp]: "events_of i [] = []"
  by (simp add: events_of_def)

lemma alternates_snoc: "alternates a (es @ [e]) b \<longleftrightarrow> b = is_connect e \<and> alternates a es (\<not> is_connect e)"
  by (induction a es b rule: alternates.induct) auto

lemma alternates_push:
  assumes "alternates False (events_of i (hist @ es)) p" and "event_client e = i \<longrightarrow> p = (\<not> is_connect e)"
  shows "alternates False (events_of i (hist @ es @ [e])) (if event_client e = i then is_connect e else p)"
  using assms alternates_snoc[of False "events_of i hist @ events_of i es" e "is_connect e"]
  by (cases "event_client e = i") auto

definition srv_present :: "renet_server \<Rightarrow> client_id \<Rightarrow> bool" where
  "srv_present s i \<longleftrightarrow> hm_get (srv_connections s) i \<noteq> None"

definition srv_ok :: "renet_server \<Rightarrow> bool" where
  "srv_ok s \<longleftrightarrow> hm_ok (srv_connections s)"

text \<open>Operations that touch no event keep the set of clients.\<close>

definition same_clients :: "renet_server \<Rightarrow> renet_server \<Rightarrow> bool" where
  "same_clients s s' \<longleftrightarrow> srv_events s' = srv_events s \<and> (srv_ok s \<longrightarrow> srv_ok s')
     \<and> (\<forall>i. srv_ok s \<longrightarrow> srv_present s' i = srv_present s i)"

lemma same_clients_refl: "same_clients s s"
  by (simp add: same_clients_def)

lemma same_clients_trans: "same_clients s t \<Longrightarrow> same_clients t u \<Longrightarrow> same_clients s u"
  by (auto simp: same_clients_def)

lemma same_clients_insert:
  assumes "hm_get (srv_connections s) i = Some c"
  shows "same_clients s (s\<lparr>srv_connections := hm_insert i c' (srv_connections s)\<rparr>)"
  using assms by (auto simp: same_clients_def srv_ok_def srv_present_def hm.get_insert)

lemma same_clients_keys:
  assumes "map fst cs = map fst (srv_connections s)"
  shows "same_clients s (s\<lparr>srv_connections := cs\<rparr>)"
  using assms map_of_eq_None_iff[of cs] map_of_eq_None_iff[of "srv_connections s"]
  by (auto simp: same_clients_def srv_ok_def srv_present_def hm_ok_def hm_get_eq simp flip: set_map)

lemma same_clients_each: "srv_each f s = Some s' \<Longrightarrow> same_clients s s'"
proof -
  assume "srv_each f s = Some s'"
  then obtain cs where cs: "mapM (\<lambda>(i, c). do { c \<leftarrow> f i c; Some (i, c) }) (srv_connections s) = Some cs"
    and s': "s' = s\<lparr>srv_connections := cs\<rparr>" by (auto simp: srv_each_def bind_eq_Some_conv)
  have "mapM (\<lambda>(i, c). do { c \<leftarrow> f i c; Some (i, c) }) es = Some cs \<Longrightarrow> map fst cs = map fst es" for es
    by (induction es arbitrary: cs) (auto simp: bind_eq_Some_conv)
  then have "map fst cs = map fst (srv_connections s)" using cs by blast
  then show ?thesis unfolding s' by (rule same_clients_keys)
qed

lemma same_clients_process:
  "srv_process_packet_from oa s p i = Some (s', r) \<Longrightarrow> same_clients s s'"
  by (auto simp: srv_process_packet_from_def bind_eq_Some_conv same_clients_refl same_clients_insert
      split: option.splits)

lemma same_clients_process_all:
  "srv_process_packets_from oa s ps i = Some (s', r) \<Longrightarrow> same_clients s s'"
proof (induction oa s ps i rule: srv_process_packets_from.induct)
  case (2 oa s p ps i)
  from 2(2) obtain t q where t: "srv_process_packet_from oa s p i = Some (t, q)"
    "(case q of Inl e \<Rightarrow> Some (t, Inl e) | Inr _ \<Rightarrow> srv_process_packets_from oa t ps i) = Some (s', r)"
    by (auto simp: bind_eq_Some_conv)
  have "same_clients t s'" using t 2(1)[OF t(1), of t q] by (cases q) (auto simp: same_clients_refl)
  with same_clients_process[OF t(1)] show ?case by (rule same_clients_trans)
qed (simp add: same_clients_refl)

lemma same_clients_packets:
  "srv_get_packets_to_send oa s i = Some (s', r) \<Longrightarrow> same_clients s s'"
  by (auto simp: srv_get_packets_to_send_def bind_eq_Some_conv same_clients_refl same_clients_insert
      split: option.splits)

lemma same_clients_local:
  assumes "srv_process_local_client oa s i c = Some (s', c', r)"
  shows "same_clients s s'"
proof -
  from assms obtain t q where t: "srv_get_packets_to_send oa s i = Some (t, q)"
    "(case q of Inl e \<Rightarrow> Some (t, c, Inl e)
      | Inr packets \<Rightarrow> do {
          client \<leftarrow> foldM (rc_process_packet oa) c packets;
          (client, packets) \<leftarrow> rc_get_packets_to_send oa client;
          (s, r) \<leftarrow> srv_process_packets_from oa t packets i;
          Some (s, client, r)
        }) = Some (s', c', r)" by (auto simp: srv_process_local_client_def bind_eq_Some_conv)
  from t(2) have "same_clients t s'"
    by (auto simp: bind_eq_Some_conv same_clients_refl same_clients_process_all split: sum.splits)
  with same_clients_packets[OF t(1)] show ?thesis by (rule same_clients_trans)
qed

text \<open>Every operation extends the history of every client by alternating events.\<close>

lemma srv_exec_events:
  assumes "srv_exec oa s op = Some (s', es)" and "srv_ok s"
    and "alternates False (events_of i (hist @ srv_events s)) (srv_present s i)"
  shows "srv_ok s' \<and> alternates False (events_of i (hist @ es @ srv_events s')) (srv_present s' i)"
proof -
  have same: "srv_ok s' \<and> alternates False (events_of i (hist @ es @ srv_events s')) (srv_present s' i)"
    if "es = []" "same_clients s s'"
    using that assms(2,3) by (simp add: same_clients_def)
  have removed: ?thesis
    if "hm_get (srv_connections s) j = Some c" "es = []"
      "s' = s\<lparr>srv_connections := hm_remove j (srv_connections s),
        srv_events := srv_events s @ [ClientDisconnected j r]\<rparr>" for j c r
    using alternates_push[OF assms(3), of "ClientDisconnected j r"] that assms(2)
    by (cases "j = i") (simp_all add: srv_ok_def srv_present_def hm.get_remove)
  have added: ?thesis if add: "srv_add_connection s j = Some s'" "es = []" for j
  proof -
    from add(1) consider "s' = s" | c where "hm_get (srv_connections s) j = None"
        "s' = s\<lparr>srv_connections := hm_insert j c (srv_connections s),
          srv_events := srv_events s @ [ClientConnected j]\<rparr>"
      by (auto simp: srv_add_connection_def bind_eq_Some_conv split: if_splits)
    then show ?thesis
    proof cases
      case 1
      then show ?thesis using same same_clients_refl add(2) by simp
    next
      case 2
      then show ?thesis using add(2) assms(2) alternates_push[OF assms(3), of "ClientConnected j"]
        by (cases "j = i") (simp_all add: srv_ok_def srv_present_def hm.get_insert)
    qed
  qed
  show ?thesis
  proof (cases op)
    case (AddConnection j)
    then show ?thesis using assms(1) by (intro added[of j]) (auto simp: bind_eq_Some_conv)
  next
    case (NewLocal j)
    then show ?thesis using assms(1) by (intro added[of j]) (auto simp: srv_new_local_client_def bind_eq_Some_conv)
  next
    case (RemoveConnection j)
    show ?thesis
    proof (cases "hm_get (srv_connections s) j")
      case None
      then show ?thesis using assms(1) RemoveConnection
        by (intro same) (simp_all add: srv_remove_connection_def same_clients_refl)
    next
      case (Some c)
      then show ?thesis using assms(1) RemoveConnection
        by (intro removed[OF Some, where r = "case rc_disconnect_reason c of Some r \<Rightarrow> r | None \<Rightarrow> Transport"]) (simp_all add: srv_remove_connection_def Let_def)
    qed
  next
    case (DisconnectLocal j c)
    show ?thesis
    proof (cases "rc_is_disconnected c \<or> hm_get (srv_connections s) j = None")
      case True
      then show ?thesis using assms(1) DisconnectLocal
        by (intro same) (auto simp: srv_disconnect_local_client_def Let_def same_clients_refl)
    next
      case False
      then obtain c' where c': "hm_get (srv_connections s) j = Some c'" by auto
      show ?thesis using assms(1) DisconnectLocal False
        by (intro removed[OF c', where r = DisconnectedByClient]) (simp_all add: srv_disconnect_local_client_def Let_def)
    qed
  next
    case GetEvent
    then show ?thesis using assms
      by (auto simp: srv_get_event_def srv_ok_def srv_present_def split: list.splits)
  next
    case (Disconnect j)
    then show ?thesis using assms(1)
      by (intro same) (auto simp: srv_disconnect_def same_clients_refl same_clients_insert split: option.splits)
  next
    case DisconnectAll
    then show ?thesis using assms(1)
      by (intro same) (auto simp: srv_disconnect_all_def intro!: same_clients_keys)
  next
    case (SendMessage j ch m)
    then show ?thesis using assms(1)
      by (intro same) (auto simp: srv_send_message_def bind_eq_Some_conv same_clients_refl same_clients_insert
          split: option.splits)
  next
    case (ReceiveMessage j ch)
    then show ?thesis using assms(1)
      by (intro same) (auto simp: srv_receive_message_def bind_eq_Some_conv same_clients_refl same_clients_insert
          split: option.splits)
  next
    case (Broadcast ch m)
    then show ?thesis using assms(1)
      by (intro same) (auto simp: srv_broadcast_message_def bind_eq_Some_conv same_clients_each)
  next
    case (BroadcastExcept j ch m)
    then show ?thesis using assms(1)
      by (intro same) (auto simp: srv_broadcast_message_except_def bind_eq_Some_conv same_clients_each)
  next
    case (Update d)
    then show ?thesis using assms(1)
      by (intro same) (auto simp: srv_update_def bind_eq_Some_conv same_clients_each)
  next
    case (GetPackets j)
    then show ?thesis using assms(1)
      by (intro same) (auto simp: bind_eq_Some_conv same_clients_packets)
  next
    case (ProcessPacket p j)
    then show ?thesis using assms(1)
      by (intro same) (auto simp: bind_eq_Some_conv same_clients_process)
  next
    case (ProcessLocal j c)
    then show ?thesis using assms(1)
      by (intro same) (auto simp: bind_eq_Some_conv same_clients_local)
  qed
qed

text \<open>C9. The events tell the life of every client: through any run of a server, the events handed out so far
  followed by those still queued say, for every client id, connected, disconnected, connected,
  and so on in turn, and the last one says connected exactly when the server has a connection
  for the client.\<close>

theorem server_events_alternate:
  assumes "srv_run oa (srv_new cfg) ops = Some (s, es)"
  shows "alternates False (events_of i (es @ srv_events s)) (srv_present s i)"
proof -
  have "srv_run oa s0 ops = Some (s, es) \<Longrightarrow> srv_ok s0 \<Longrightarrow>
      alternates False (events_of i (hist @ srv_events s0)) (srv_present s0 i) \<Longrightarrow>
      alternates False (events_of i (hist @ es @ srv_events s)) (srv_present s i)" for s0 hist
  proof (induction ops arbitrary: s0 hist es)
    case (Cons op ops)
    from Cons.prems(1) obtain s1 e1 e2 where 1: "srv_exec oa s0 op = Some (s1, e1)"
      "srv_run oa s1 ops = Some (s, e2)" "es = e1 @ e2" by (auto simp: bind_eq_Some_conv)
    from srv_exec_events[OF 1(1) Cons.prems(2,3)] Cons.IH[OF 1(2), of "hist @ e1"] 1(3)
    show ?case by simp
  qed simp
  from this[OF assms, of "[]"] show ?thesis by (simp add: srv_new_def srv_ok_def srv_present_def)
qed

theorem server_events_alternate_witness:
  "\<exists>s es. srv_run quic_octets (srv_new default_connection_config)
      [AddConnection 7, GetEvent, RemoveConnection 7, AddConnection 7] = Some (s, es)
    \<and> es @ srv_events s = [ClientConnected 7, ClientDisconnected 7 Transport, ClientConnected 7]
    \<and> alternates False (events_of 7 (es @ srv_events s)) (srv_present s 7)"
proof -
  let ?run = "srv_run quic_octets (srv_new default_connection_config)
      [AddConnection 7, GetEvent, RemoveConnection 7, AddConnection 7]"
  have "map_option (\<lambda>(s, es). es @ srv_events s) ?run =
      Some [ClientConnected 7, ClientDisconnected 7 Transport, ClientConnected 7]" by code_simp
  then obtain s es where r: "?run = Some (s, es)"
    "es @ srv_events s = [ClientConnected 7, ClientDisconnected 7 Transport, ClientConnected 7]" by auto
  from server_events_alternate[OF r(1), of 7] r show ?thesis by blast
qed

end
