(* ===== verification/NetcodeBase.thy ===== *)
theory NetcodeBase
  imports Collections
begin

text \<open>
  What the crate \<open>renetcode\<close> shares: its constants (\<open>src/renetcode/src/lib.rs\<close>), its errors
  (\<open>error.rs\<close>), reading and writing little-endian numbers (\<open>serialize.rs\<close> and \<open>std::io\<close>), and
  socket addresses. A reader is the bytes left to read; a writer into a fixed buffer is the
  capacity left and the bytes written. Arrays of bytes are lists; their lengths are what
  \<open>read_bytes\<close> asks for.
\<close>

section \<open>Constants\<close>

text \<open>\<open>b"NETCODE 1.02\0"\<close>\<close>

definition NETCODE_VERSION_INFO :: bytes where
  "NETCODE_VERSION_INFO = [78, 69, 84, 67, 79, 68, 69, 32, 49, 46, 48, 50, 0]"

definition NETCODE_MAX_CLIENTS :: usize where
  "NETCODE_MAX_CLIENTS = 1024"

definition NETCODE_MAX_PENDING_CLIENTS :: usize where
  "NETCODE_MAX_PENDING_CLIENTS = NETCODE_MAX_CLIENTS * 4"

definition NETCODE_ADDRESS_NONE :: u8 where
  "NETCODE_ADDRESS_NONE = 0"

definition NETCODE_ADDRESS_IPV4 :: u8 where
  "NETCODE_ADDRESS_IPV4 = 1"

definition NETCODE_ADDRESS_IPV6 :: u8 where
  "NETCODE_ADDRESS_IPV6 = 2"

definition NETCODE_CONNECT_TOKEN_PRIVATE_BYTES :: usize where
  "NETCODE_CONNECT_TOKEN_PRIVATE_BYTES = 1024"

definition NETCODE_MAX_PACKET_BYTES :: usize where
  "NETCODE_MAX_PACKET_BYTES = 1400"

definition NETCODE_MAX_PAYLOAD_BYTES :: usize where
  "NETCODE_MAX_PAYLOAD_BYTES = 1300"

definition NETCODE_KEY_BYTES :: usize where
  "NETCODE_KEY_BYTES = 32"

definition NETCODE_MAC_BYTES :: usize where
  "NETCODE_MAC_BYTES = 16"

definition NETCODE_USER_DATA_BYTES :: usize where
  "NETCODE_USER_DATA_BYTES = 256"

definition NETCODE_CHALLENGE_TOKEN_BYTES :: usize where
  "NETCODE_CHALLENGE_TOKEN_BYTES = 300"

definition NETCODE_CONNECT_TOKEN_XNONCE_BYTES :: usize where
  "NETCODE_CONNECT_TOKEN_XNONCE_BYTES = 24"

definition NETCODE_SEND_RATE :: duration where
  "NETCODE_SEND_RATE = from_millis 250"

lemmas netcode_consts =
  NETCODE_MAX_CLIENTS_def NETCODE_MAX_PENDING_CLIENTS_def NETCODE_CONNECT_TOKEN_PRIVATE_BYTES_def
  NETCODE_MAX_PACKET_BYTES_def NETCODE_MAX_PAYLOAD_BYTES_def NETCODE_KEY_BYTES_def NETCODE_MAC_BYTES_def
  NETCODE_USER_DATA_BYTES_def NETCODE_CHALLENGE_TOKEN_BYTES_def NETCODE_CONNECT_TOKEN_XNONCE_BYTES_def

section \<open>Errors\<close>

text \<open>The kinds of \<open>io::Error\<close> that reading and writing memory can give.\<close>

datatype io_error = UnexpectedEof | WriteZero | InvalidData

datatype token_generation_error = MaxHostCount | TokenCryptoError | TokenIoError io_error | NoServerAddressAvailable

text \<open>\<open>DisconnectReason\<close> of \<open>client.rs\<close>.\<close>

datatype netcode_disconnect_reason =
    ConnectTokenExpired
  | ConnectionTimedOut
  | ConnectionResponseTimedOut
  | ConnectionRequestTimedOut
  | DeniedByServer
  | ClosedByClient
  | ClosedByServer

text \<open>\<open>NetcodeError\<close>; the constructors \<open>InvalidPacketType\<close>, \<open>Disconnected\<close>, \<open>ClientNotFound\<close> and
  \<open>TokenGenerationError\<close> are \<open>InvalidType\<close>, \<open>NotConnected\<close>, \<open>NoSuchClient\<close> and \<open>TokenError\<close> here, for \<open>renet\<close> has
  constructors of those names.\<close>

datatype netcode_error =
    UnavailablePrivateKey
  | InvalidType
  | InvalidProtocolID
  | InvalidVersion
  | PacketTooSmall
  | PayloadAboveLimit
  | DuplicatedSequence
  | NoMoreServers
  | Expired
  | NotConnected netcode_disconnect_reason
  | CryptoError
  | NotInHostList
  | NoSuchClient
  | ClientNotConnected
  | IoError io_error
  | TokenError token_generation_error

section \<open>Results\<close>

text \<open>The \<open>?\<close> operator: on a result, and on a result of a computation that may panic.\<close>

definition rtry :: "'e + 'a \<Rightarrow> ('a \<Rightarrow> 'e + 'b) \<Rightarrow> 'e + 'b" where
  "rtry r k = (case r of Inl e \<Rightarrow> Inl e | Inr x \<Rightarrow> k x)"

definition ptry :: "('e + 'a) option \<Rightarrow> ('a \<Rightarrow> ('e + 'b) option) \<Rightarrow> ('e + 'b) option" where
  "ptry m k = (case m of None \<Rightarrow> None | Some (Inl e) \<Rightarrow> Some (Inl e) | Some (Inr x) \<Rightarrow> k x)"

text \<open>The conversion of an error by \<open>From\<close>.\<close>

definition conv_err :: "('e \<Rightarrow> 'f) \<Rightarrow> 'e + 'a \<Rightarrow> 'f + 'a" where
  "conv_err f = map_sum f id"

lemma rtry_simps [simp]: "rtry (Inl e) k = Inl e" "rtry (Inr x) k = k x"
  by (simp_all add: rtry_def)

lemma ptry_simps [simp]: "ptry None k = None" "ptry (Some (Inl e)) k = Some (Inl e)" "ptry (Some (Inr x)) k = k x"
  by (simp_all add: ptry_def)

lemma conv_err_simps [simp]: "conv_err f (Inl e) = Inl (f e)" "conv_err f (Inr x) = Inr x"
  by (simp_all add: conv_err_def)

lemma rtry_Inr_iff: "rtry r k = Inr y \<longleftrightarrow> (\<exists>x. r = Inr x \<and> k x = Inr y)"
  by (cases r) auto

lemma conv_err_Inr_iff [simp]: "conv_err f r = Inr y \<longleftrightarrow> r = Inr y"
  by (cases r) auto

text \<open>A computation that may panic, followed by a case on its result.\<close>

lemma bind_sum_conv: "m \<bind> case_sum f g = Some y \<longleftrightarrow>
    (\<exists>e. m = Some (Inl e) \<and> f e = Some y) \<or> (\<exists>x. m = Some (Inr x) \<and> g x = Some y)"
proof (cases m)
  case (Some r)
  then show ?thesis by (cases r) auto
qed simp

section \<open>Little-endian numbers\<close>

fun le_bytes :: "nat \<Rightarrow> nat \<Rightarrow> bytes" where
  "le_bytes 0 v = []"
| "le_bytes (Suc n) v = word_of_nat (v mod 256) # le_bytes n (v div 256)"

fun le_value :: "bytes \<Rightarrow> nat" where
  "le_value [] = 0"
| "le_value (b # bs) = unat b + 256 * le_value bs"

text \<open>\<open>i32::to_le_bytes\<close> and \<open>i32::from_le_bytes\<close>: two's complement.\<close>

definition i32_le_bytes :: "int \<Rightarrow> bytes" where
  "i32_le_bytes v = le_bytes 4 (nat (v mod 2 ^ 32))"

definition i32_le_value :: "bytes \<Rightarrow> int" where
  "i32_le_value bs = (let n = int (le_value bs) in if n < 2 ^ 31 then n else n - 2 ^ 32)"

lemma length_le_bytes [simp]: "length (le_bytes n v) = n"
  by (induction n arbitrary: v) auto

lemma le_value_le_bytes: "v < 256 ^ n \<Longrightarrow> le_value (le_bytes n v) = v"
proof (induction n arbitrary: v)
  case (Suc n)
  have "v div 256 < 256 ^ n" using Suc.prems by (simp add: less_mult_imp_div_less mult.commute)
  moreover have "unat (word_of_nat (v mod 256) :: 8 word) = v mod 256"
    by (simp add: unat_of_nat take_bit_eq_mod)
  ultimately show ?case using Suc.IH[of "v div 256"] by simp
qed simp

lemma unat_u8: "unat b < 256" for b :: u8
proof -
  have "unat b < 2 ^ LENGTH(8)" by (rule unsigned_less)
  then show ?thesis by simp
qed

lemma le_value_less: "le_value bs < 256 ^ length bs"
proof (induction bs)
  case (Cons b bs)
  have "unat b < 256" by (rule unat_u8)
  with Cons show ?case by simp
qed simp

lemma le_bytes_le_value: "le_bytes (length bs) (le_value bs) = bs"
proof (induction bs)
  case (Cons b bs)
  have b: "unat b < 256" by (rule unat_u8)
  then have "(unat b + 256 * le_value bs) mod 256 = unat b" "(unat b + 256 * le_value bs) div 256 = le_value bs"
    by simp_all
  with Cons show ?case by simp
qed simp

lemma i32_roundtrip: "- (2 ^ 31) \<le> v \<Longrightarrow> v < 2 ^ 31 \<Longrightarrow> i32_le_value (i32_le_bytes v) = v"
proof -
  assume v: "- (2 ^ 31) \<le> v" "v < 2 ^ 31"
  have "nat (v mod 2 ^ 32) < 256 ^ 4" by (simp add: nat_less_iff)
  then have n: "int (le_value (i32_le_bytes v)) = v mod 2 ^ 32"
    unfolding i32_le_bytes_def by (simp add: le_value_le_bytes)
  show ?thesis
  proof (cases "0 \<le> v")
    case True
    then show ?thesis using v n by (simp add: i32_le_value_def Let_def)
  next
    case False
    have "v mod 2 ^ 32 = (v + 2 ^ 32) mod 2 ^ 32" by simp
    also have "\<dots> = v + 2 ^ 32" using v False by (intro mod_pos_pos_trivial) auto
    finally show ?thesis using v False n by (simp add: i32_le_value_def Let_def)
  qed
qed

section \<open>Reading\<close>

definition read_exact :: "usize \<Rightarrow> bytes \<Rightarrow> io_error + bytes \<times> bytes" where
  "read_exact n src = (if n \<le> length src then Inr (take n src, drop n src) else Inl UnexpectedEof)"

definition read_u64 :: "bytes \<Rightarrow> io_error + u64 \<times> bytes" where
  "read_u64 src = rtry (read_exact 8 src) (\<lambda>(buffer, src). Inr (le_value buffer, src))"

definition read_u32 :: "bytes \<Rightarrow> io_error + nat \<times> bytes" where
  "read_u32 src = rtry (read_exact 4 src) (\<lambda>(buffer, src). Inr (le_value buffer, src))"

definition read_u16 :: "bytes \<Rightarrow> io_error + nat \<times> bytes" where
  "read_u16 src = rtry (read_exact 2 src) (\<lambda>(buffer, src). Inr (le_value buffer, src))"

definition read_u8 :: "bytes \<Rightarrow> io_error + u8 \<times> bytes" where
  "read_u8 src = rtry (read_exact 1 src) (\<lambda>(buffer, src). Inr (word_of_nat (le_value buffer), src))"

definition read_bytes :: "usize \<Rightarrow> bytes \<Rightarrow> io_error + bytes \<times> bytes" where
  "read_bytes n src = read_exact n src"

definition read_i32 :: "bytes \<Rightarrow> io_error + int \<times> bytes" where
  "read_i32 src = rtry (read_exact 4 src) (\<lambda>(buffer, src). Inr (i32_le_value buffer, src))"

named_theorems read_simps \<open>reading back what was written in front of the rest\<close>

lemma read_exact_append [read_simps]: "length b = n \<Longrightarrow> read_exact n (b @ r) = Inr (b, r)"
  by (simp add: read_exact_def)

lemma read_u64_append [read_simps]: "v < 2 ^ 64 \<Longrightarrow> read_u64 (le_bytes 8 v @ r) = Inr (v, r)"
  by (simp add: read_u64_def read_simps le_value_le_bytes)

lemma read_u32_append [read_simps]: "v < 2 ^ 32 \<Longrightarrow> read_u32 (le_bytes 4 v @ r) = Inr (v, r)"
  by (simp add: read_u32_def read_simps le_value_le_bytes)

lemma read_u16_append [read_simps]: "v < 2 ^ 16 \<Longrightarrow> read_u16 (le_bytes 2 v @ r) = Inr (v, r)"
  by (simp add: read_u16_def read_simps le_value_le_bytes)

lemma read_u8_Cons [read_simps]: "read_u8 (b # r) = Inr (b, r)"
  by (simp add: read_u8_def read_exact_def)

lemma read_bytes_append [read_simps]: "length b = n \<Longrightarrow> read_bytes n (b @ r) = Inr (b, r)"
  by (simp add: read_bytes_def read_simps)

lemma read_i32_append [read_simps]:
  "- (2 ^ 31) \<le> v \<Longrightarrow> v < 2 ^ 31 \<Longrightarrow> read_i32 (i32_le_bytes v @ r) = Inr (v, r)"
  using i32_roundtrip[of v] by (simp add: read_i32_def i32_le_bytes_def read_simps)

section \<open>Writing\<close>

text \<open>\<open>Cursor<&mut [u8]>\<close>: the room left in the buffer and the bytes written. \<open>write_all\<close> fails
  with \<open>WriteZero\<close> when they do not fit.\<close>

record cursor =
  cur_room :: usize
  cur_written :: bytes

definition cursor_new :: "usize \<Rightarrow> cursor" where
  "cursor_new n = \<lparr>cur_room = n, cur_written = []\<rparr>"

definition write_all :: "bytes \<Rightarrow> cursor \<Rightarrow> io_error + cursor" where
  "write_all bs w =
     (if length bs \<le> cur_room w
      then Inr \<lparr>cur_room = cur_room w - length bs, cur_written = cur_written w @ bs\<rparr>
      else Inl WriteZero)"

text \<open>\<open>write\<close> writes what fits.\<close>

definition write_some :: "bytes \<Rightarrow> cursor \<Rightarrow> cursor" where
  "write_some bs w =
     \<lparr>cur_room = cur_room w - length bs, cur_written = cur_written w @ take (cur_room w) bs\<rparr>"

text \<open>Two writes that are one.\<close>

lemma write_all_seq:
  "rtry (write_all bs w) (\<lambda>w. write_all cs w) = write_all (bs @ cs) w"
  by (auto simp: write_all_def)

lemma write_all_Inr_iff:
  "write_all bs w = Inr w' \<longleftrightarrow> length bs \<le> cur_room w
     \<and> w' = \<lparr>cur_room = cur_room w - length bs, cur_written = cur_written w @ bs\<rparr>"
  by (auto simp: write_all_def)

section \<open>Socket addresses\<close>

text \<open>\<open>SocketAddr\<close>: the octets of the address and the port; an IPv6 address has a flow
  information and a scope id as well, which take part in equality.\<close>

datatype socket_addr = V4 bytes nat | V6 bytes nat nat nat

fun sa_port :: "socket_addr \<Rightarrow> nat" where
  "sa_port (V4 _ port) = port"
| "sa_port (V6 _ port _ _) = port"

fun sa_ok :: "socket_addr \<Rightarrow> bool" where
  "sa_ok (V4 ip port) \<longleftrightarrow> length ip = 4 \<and> port < 2 ^ 16"
| "sa_ok (V6 ip port _ _) \<longleftrightarrow> length ip = 16 \<and> port < 2 ^ 16"

end
