(* ===== verification/NetcodeCrypto.thy ===== *)
theory NetcodeCrypto
  imports NetcodeBase
begin

text \<open>
  \<open>src/renetcode/src/crypto.rs\<close> over the external crate \<open>chacha20poly1305\<close>, whose two ciphers are
  the fields of \<open>aead_api\<close>, an argument of the definitions that use them. What the crate's
  documentation promises of an authenticated cipher is the locale \<open>aead_contract\<close>; the
  constructions of RFC 8439 (ChaCha20 and Poly1305) and of XChaCha20 meet it. The randomness of
  the operating system (\<open>generate_random_bytes\<close>) is an argument of the operations that ask for it.
\<close>

section \<open>The cipher interface\<close>

text \<open>Key, nonce, additional data and text; encryption returns the ciphertext and the detached tag.
  \<open>None\<close> is the crate's \<open>Error\<close>.\<close>

record aead_api =
  aead_encrypt :: "bytes \<Rightarrow> bytes \<Rightarrow> bytes \<Rightarrow> bytes \<Rightarrow> (bytes \<times> bytes) option"
  aead_decrypt :: "bytes \<Rightarrow> bytes \<Rightarrow> bytes \<Rightarrow> bytes \<Rightarrow> bytes \<Rightarrow> bytes option"
  xaead_encrypt :: "bytes \<Rightarrow> bytes \<Rightarrow> bytes \<Rightarrow> bytes \<Rightarrow> (bytes \<times> bytes) option"
  xaead_decrypt :: "bytes \<Rightarrow> bytes \<Rightarrow> bytes \<Rightarrow> bytes \<Rightarrow> bytes \<Rightarrow> bytes option"

text \<open>Encryption of up to 64 KiB succeeds, keeps the length, and gives a tag of 16 bytes; decryption
  accepts exactly what encryption gives.\<close>

locale aead_contract =
  fixes ae :: aead_api
  assumes encrypt_returns: "length k = 32 \<Longrightarrow> length n = 12 \<Longrightarrow> length m < 2 ^ 16 \<Longrightarrow>
      \<exists>c t. aead_encrypt ae k n a m = Some (c, t)"
    and encrypt_length: "aead_encrypt ae k n a m = Some (c, t) \<Longrightarrow> length c = length m \<and> length t = 16"
    and decrypt_encrypt: "aead_encrypt ae k n a m = Some (c, t) \<Longrightarrow> aead_decrypt ae k n a c t = Some m"
    and encrypt_decrypt: "aead_decrypt ae k n a c t = Some m \<Longrightarrow> aead_encrypt ae k n a m = Some (c, t)"
    and xencrypt_returns: "length k = 32 \<Longrightarrow> length n = 24 \<Longrightarrow> length m < 2 ^ 16 \<Longrightarrow>
      \<exists>c t. xaead_encrypt ae k n a m = Some (c, t)"
    and xencrypt_length: "xaead_encrypt ae k n a m = Some (c, t) \<Longrightarrow> length c = length m \<and> length t = 16"
    and xdecrypt_encrypt: "xaead_encrypt ae k n a m = Some (c, t) \<Longrightarrow> xaead_decrypt ae k n a c t = Some m"
    and xencrypt_decrypt: "xaead_decrypt ae k n a c t = Some m \<Longrightarrow> xaead_encrypt ae k n a m = Some (c, t)"

section \<open>Operations\<close>

datatype crypto_error = AeadError

text \<open>The nonce of a sequence number.\<close>

definition sequence_nonce :: "u64 \<Rightarrow> bytes" where
  "sequence_nonce sequence = replicate 4 0 @ le_bytes 8 sequence"

text \<open>\<open>buffer.split_at_mut(buffer.len() - NETCODE_MAC_BYTES)\<close>\<close>

definition split_mac :: "bytes \<Rightarrow> (bytes \<times> bytes) option" where
  "split_mac buffer = do {
     n \<leftarrow> usub (length buffer) NETCODE_MAC_BYTES;
     Some (take n buffer, drop n buffer)
   }"

definition dencrypted_in_place ::
    "aead_api \<Rightarrow> bytes \<Rightarrow> u64 \<Rightarrow> bytes \<Rightarrow> bytes \<Rightarrow> (crypto_error + bytes) option" where
  "dencrypted_in_place ae buffer sequence private_key aad = do {
     (buffer, tag) \<leftarrow> split_mac buffer;
     Some (case aead_decrypt ae private_key (sequence_nonce sequence) aad buffer tag of
         None \<Rightarrow> Inl AeadError
       | Some plain \<Rightarrow> Inr (plain @ tag))
   }"

definition dencrypted_in_place_xnonce ::
    "aead_api \<Rightarrow> bytes \<Rightarrow> bytes \<Rightarrow> bytes \<Rightarrow> bytes \<Rightarrow> (crypto_error + bytes) option" where
  "dencrypted_in_place_xnonce ae buffer xnonce private_key aad = do {
     (buffer, tag) \<leftarrow> split_mac buffer;
     Some (case xaead_decrypt ae private_key xnonce aad buffer tag of
         None \<Rightarrow> Inl AeadError
       | Some plain \<Rightarrow> Inr (plain @ tag))
   }"

definition encrypt_in_place ::
    "aead_api \<Rightarrow> bytes \<Rightarrow> u64 \<Rightarrow> bytes \<Rightarrow> bytes \<Rightarrow> (crypto_error + bytes) option" where
  "encrypt_in_place ae buffer sequence key aad = do {
     (buffer, _) \<leftarrow> split_mac buffer;
     Some (case aead_encrypt ae key (sequence_nonce sequence) aad buffer of
         None \<Rightarrow> Inl AeadError
       | Some (cipher, tag) \<Rightarrow> Inr (cipher @ tag))
   }"

definition encrypt_in_place_xnonce ::
    "aead_api \<Rightarrow> bytes \<Rightarrow> bytes \<Rightarrow> bytes \<Rightarrow> bytes \<Rightarrow> (crypto_error + bytes) option" where
  "encrypt_in_place_xnonce ae buffer xnonce key aad = do {
     (buffer, _) \<leftarrow> split_mac buffer;
     Some (case xaead_encrypt ae key xnonce aad buffer of
         None \<Rightarrow> Inl AeadError
       | Some (cipher, tag) \<Rightarrow> Inr (cipher @ tag))
   }"

lemma length_sequence_nonce [simp]: "length (sequence_nonce s) = 12"
  by (simp add: sequence_nonce_def)

lemma split_mac_append [simp]: "length t = 16 \<Longrightarrow> split_mac (b @ t) = Some (b, t)"
  by (simp add: split_mac_def usub_def NETCODE_MAC_BYTES_def)

lemma split_mac_long:
  assumes "16 \<le> length b"
  shows "\<exists>c t. split_mac b = Some (c, t) \<and> b = c @ t \<and> length t = 16"
  using assms
  by (intro exI[of _ "take (length b - 16) b"] exI[of _ "drop (length b - 16) b"])
    (simp add: split_mac_def usub_def NETCODE_MAC_BYTES_def)

context aead_contract
begin

text \<open>Encrypting a text in a buffer, with room for the tag, and decrypting it.\<close>

lemma encrypt_run:
  assumes "length k = 32" and "length m < 2 ^ 16" and "length pad = 16"
  shows "\<exists>c t. encrypt_in_place ae (m @ pad) s k a = Some (Inr (c @ t))
    \<and> aead_encrypt ae k (sequence_nonce s) a m = Some (c, t) \<and> length c = length m \<and> length t = 16
    \<and> dencrypted_in_place ae (c @ t) s k a = Some (Inr (m @ t))"
proof -
  from encrypt_returns[OF assms(1) length_sequence_nonce assms(2)] obtain c t where
    ct: "aead_encrypt ae k (sequence_nonce s) a m = Some (c, t)" by blast
  with encrypt_length[OF ct] decrypt_encrypt[OF ct] assms(3) show ?thesis
    by (intro exI[of _ c] exI[of _ t]) (simp add: encrypt_in_place_def dencrypted_in_place_def)
qed

lemma xencrypt_run:
  assumes "length k = 32" and "length n = 24" and "length m < 2 ^ 16" and "length pad = 16"
  shows "\<exists>c t. encrypt_in_place_xnonce ae (m @ pad) n k a = Some (Inr (c @ t))
    \<and> length c = length m \<and> length t = 16
    \<and> dencrypted_in_place_xnonce ae (c @ t) n k a = Some (Inr (m @ t))"
proof -
  from xencrypt_returns[OF assms(1,2,3)] obtain c t where ct: "xaead_encrypt ae k n a m = Some (c, t)" by blast
  with xencrypt_length[OF ct] xdecrypt_encrypt[OF ct] assms(4) show ?thesis
    by (intro exI[of _ c] exI[of _ t]) (simp add: encrypt_in_place_xnonce_def dencrypted_in_place_xnonce_def)
qed

text \<open>Decryption of at least a tag returns, and what it accepts was encrypted with the same key,
  sequence number and additional data.\<close>

lemma decrypt_run:
  assumes "16 \<le> length b"
  shows "\<exists>c t. b = c @ t \<and> length t = 16 \<and>
    (dencrypted_in_place ae b s k a = Some (Inl AeadError)
     \<or> (\<exists>m. dencrypted_in_place ae b s k a = Some (Inr (m @ t)) \<and> length m = length c
         \<and> aead_encrypt ae k (sequence_nonce s) a m = Some (c, t)))"
proof -
  from split_mac_long[OF assms] obtain c t where b: "split_mac b = Some (c, t)" "b = c @ t" "length t = 16"
    by blast
  show ?thesis
  proof (cases "aead_decrypt ae k (sequence_nonce s) a c t")
    case None
    then show ?thesis using b by (auto simp: dencrypted_in_place_def)
  next
    case (Some m)
    from encrypt_decrypt[OF Some] encrypt_length[OF encrypt_decrypt[OF Some]] b Some show ?thesis
      by (intro exI[of _ c] exI[of _ t]) (simp add: dencrypted_in_place_def)
  qed
qed

end

lemma decrypt_short: "length b < 16 \<Longrightarrow> dencrypted_in_place ae b s k a = None"
  by (simp add: dencrypted_in_place_def split_mac_def usub_def NETCODE_MAC_BYTES_def)

section \<open>ChaCha20 and Poly1305\<close>

text \<open>The block function of RFC 8439, section 2.3, on a state of sixteen words.\<close>

type_synonym u32 = "32 word"

definition quarter_round :: "nat \<times> nat \<times> nat \<times> nat \<Rightarrow> u32 list \<Rightarrow> u32 list" where
  "quarter_round is s = (case is of (i, j, k, l) \<Rightarrow>
     let a = s ! i; b = s ! j; c = s ! k; d = s ! l;
         a = a + b; d = word_rotl 16 (d XOR a);
         c = c + d; b = word_rotl 12 (b XOR c);
         a = a + b; d = word_rotl 8 (d XOR a);
         c = c + d; b = word_rotl 7 (b XOR c)
     in s[i := a, j := b, k := c, l := d])"

definition double_round :: "u32 list \<Rightarrow> u32 list" where
  "double_round s = fold quarter_round
     [(0, 4, 8, 12), (1, 5, 9, 13), (2, 6, 10, 14), (3, 7, 11, 15),
      (0, 5, 10, 15), (1, 6, 11, 12), (2, 7, 8, 13), (3, 4, 9, 14)] s"

fun le_words :: "bytes \<Rightarrow> u32 list" where
  "le_words [] = []"
| "le_words bs = word_of_nat (le_value (take 4 bs)) # le_words (drop 4 bs)"

definition word_bytes :: "u32 list \<Rightarrow> bytes" where
  "word_bytes ws = concat (map (\<lambda>w. le_bytes 4 (unat w)) ws)"

definition chacha_init :: "bytes \<Rightarrow> u32 list \<Rightarrow> u32 list" where
  "chacha_init key tail = [0x61707865, 0x3320646e, 0x79622d32, 0x6b206574] @ le_words key @ tail"

definition chacha_block :: "bytes \<Rightarrow> nat \<Rightarrow> bytes \<Rightarrow> bytes" where
  "chacha_block key counter nonce =
     (let s = chacha_init key (word_of_nat counter # le_words nonce) in
      word_bytes (map2 (+) s ((double_round ^^ 10) s)))"

definition hchacha :: "bytes \<Rightarrow> bytes \<Rightarrow> bytes" where
  "hchacha key nonce =
     (let s = (double_round ^^ 10) (chacha_init key (le_words nonce)) in word_bytes (take 4 s @ drop 12 s))"

text \<open>The key stream for a text of the given length, padded to that length.\<close>

definition key_stream :: "bytes \<Rightarrow> bytes \<Rightarrow> nat \<Rightarrow> bytes" where
  "key_stream key nonce len =
     (let ks = concat (map (\<lambda>i. chacha_block key i nonce) [1..<Suc (div_ceil len 64)]) in
      vec_resize ks len 0)"

definition chacha_xor :: "bytes \<Rightarrow> bytes \<Rightarrow> bytes \<Rightarrow> bytes" where
  "chacha_xor key nonce m = map2 (XOR) m (key_stream key nonce (length m))"

fun poly_acc :: "nat \<Rightarrow> nat \<Rightarrow> bytes \<Rightarrow> nat" where
  "poly_acc r acc [] = acc"
| "poly_acc r acc bs = poly_acc r ((acc + le_value (take 16 bs @ [1])) * r mod (2 ^ 130 - 5)) (drop 16 bs)"

definition poly1305 :: "bytes \<Rightarrow> bytes \<Rightarrow> bytes" where
  "poly1305 key m =
     (let r = le_value (take 16 key) AND 0x0ffffffc0ffffffc0ffffffc0fffffff; s = le_value (drop 16 key) in
      le_bytes 16 ((poly_acc r 0 m + s) mod 2 ^ 128))"

definition pad16 :: "bytes \<Rightarrow> bytes" where
  "pad16 bs = bs @ replicate (15 - (length bs + 15) mod 16) 0"

definition aead_tag :: "bytes \<Rightarrow> bytes \<Rightarrow> bytes \<Rightarrow> bytes \<Rightarrow> bytes" where
  "aead_tag key nonce aad c = poly1305 (take 32 (chacha_block key 0 nonce))
     (pad16 aad @ pad16 c @ le_bytes 8 (length aad) @ le_bytes 8 (length c))"

definition cc_encrypt :: "bytes \<Rightarrow> bytes \<Rightarrow> bytes \<Rightarrow> bytes \<Rightarrow> (bytes \<times> bytes) option" where
  "cc_encrypt key nonce aad m = (let c = chacha_xor key nonce m in Some (c, aead_tag key nonce aad c))"

definition cc_decrypt :: "bytes \<Rightarrow> bytes \<Rightarrow> bytes \<Rightarrow> bytes \<Rightarrow> bytes \<Rightarrow> bytes option" where
  "cc_decrypt key nonce aad c tag =
     (if aead_tag key nonce aad c = tag then Some (chacha_xor key nonce c) else None)"

definition xnonce_key :: "bytes \<Rightarrow> bytes \<Rightarrow> bytes" where
  "xnonce_key key xnonce = hchacha key (take 16 xnonce)"

definition xnonce_nonce :: "bytes \<Rightarrow> bytes" where
  "xnonce_nonce xnonce = replicate 4 0 @ drop 16 xnonce"

definition chacha20poly1305 :: aead_api where
  "chacha20poly1305 =
     \<lparr>aead_encrypt = cc_encrypt, aead_decrypt = cc_decrypt,
      xaead_encrypt = (\<lambda>k n. cc_encrypt (xnonce_key k n) (xnonce_nonce n)),
      xaead_decrypt = (\<lambda>k n. cc_decrypt (xnonce_key k n) (xnonce_nonce n))\<rparr>"

lemma length_key_stream [simp]: "length (key_stream k n len) = len"
  by (simp add: key_stream_def Let_def)

lemma length_chacha_xor [simp]: "length (chacha_xor k n m) = length m"
  by (simp add: chacha_xor_def)

lemma chacha_xor_inverse: "chacha_xor k n (chacha_xor k n m) = m"
  by (rule nth_equalityI) (simp_all add: chacha_xor_def xor.assoc)

lemma length_aead_tag [simp]: "length (aead_tag k n a c) = 16"
  by (simp add: aead_tag_def poly1305_def Let_def)

interpretation chacha: aead_contract chacha20poly1305
  by unfold_locales
    (auto simp: chacha20poly1305_def cc_encrypt_def cc_decrypt_def Let_def chacha_xor_inverse split: if_splits)

end
