(* ===== verification/NetcodeToken.thy ===== *)
theory NetcodeToken
  imports NetcodeCrypto
begin

text \<open>
  Connect tokens, \<open>src/renetcode/src/token.rs\<close>: the private part, which only the server can
  decrypt, and the public token that the client gets, with their serialization.
\<close>

section \<open>State\<close>

record connect_token =
  ct_client_id :: u64
  ct_version_info :: bytes
  ct_protocol_id :: u64
  ct_create_timestamp :: u64
  ct_expire_timestamp :: u64
  ct_xnonce :: bytes
  ct_server_addresses :: "socket_addr option list"
  ct_client_to_server_key :: bytes
  ct_server_to_client_key :: bytes
  ct_private_data :: bytes
  ct_timeout_seconds :: int

record private_connect_token =
  pt_client_id :: u64
  pt_timeout_seconds :: int
  pt_server_addresses :: "socket_addr option list"
  pt_client_to_server_key :: bytes
  pt_server_to_client_key :: bytes
  pt_user_data :: bytes

section \<open>Addresses\<close>

fun write_host :: "socket_addr \<Rightarrow> cursor \<Rightarrow> io_error + cursor" where
  "write_host (V4 ip port) w =
     rtry (write_all [NETCODE_ADDRESS_IPV4] w) (\<lambda>w.
     rtry (write_all ip w) (\<lambda>w.
     write_all (le_bytes 2 port) w))"
| "write_host (V6 ip port _ _) w =
     rtry (write_all [NETCODE_ADDRESS_IPV6] w) (\<lambda>w.
     rtry (write_all ip w) (\<lambda>w.
     write_all (le_bytes 2 port) w))"

fun write_hosts :: "socket_addr list \<Rightarrow> cursor \<Rightarrow> io_error + cursor" where
  "write_hosts [] w = Inr w"
| "write_hosts (host # hosts) w = rtry (write_host host w) (write_hosts hosts)"

text \<open>\<open>server_addresses.iter().flatten()\<close>\<close>

definition somes :: "'a option list \<Rightarrow> 'a list" where
  "somes xs = map the (filter (\<lambda>x. x \<noteq> None) xs)"

definition write_server_addresses :: "socket_addr option list \<Rightarrow> cursor \<Rightarrow> io_error + cursor" where
  "write_server_addresses server_addresses w =
     (let num_server_addresses = length (filter (\<lambda>a. a \<noteq> None) server_addresses) in
      rtry (write_all (le_bytes 4 num_server_addresses) w) (write_hosts (somes server_addresses)))"

definition read_host :: "bytes \<Rightarrow> io_error + socket_addr option \<times> bytes" where
  "read_host src = rtry (read_u8 src) (\<lambda>(host_type, src).
     if host_type = NETCODE_ADDRESS_IPV4 then
       rtry (read_exact 4 src) (\<lambda>(ip, src).
       rtry (read_u16 src) (\<lambda>(port, src). Inr (Some (V4 ip port), src)))
     else if host_type = NETCODE_ADDRESS_IPV6 then
       rtry (read_exact 16 src) (\<lambda>(ip, src).
       rtry (read_u16 src) (\<lambda>(port, src). Inr (Some (V6 ip port 0 0), src)))
     else if host_type = NETCODE_ADDRESS_NONE then Inr (None, src)
     else Inl InvalidData)"

fun read_hosts :: "nat \<Rightarrow> bytes \<Rightarrow> io_error + socket_addr option list \<times> bytes" where
  "read_hosts 0 src = Inr ([], src)"
| "read_hosts (Suc n) src =
     rtry (read_host src) (\<lambda>(host, src).
     rtry (read_hosts n src) (\<lambda>(hosts, src). Inr (host # hosts, src)))"

definition read_server_addresses :: "bytes \<Rightarrow> io_error + socket_addr option list \<times> bytes" where
  "read_server_addresses src =
     rtry (read_u32 src) (\<lambda>(num_server_addresses, src).
     rtry (read_hosts (min 32 num_server_addresses) src) (\<lambda>(hosts, src).
     let server_addresses = hosts @ replicate (32 - length hosts) None in
     if server_addresses = [] then Inl InvalidData else Inr (server_addresses, src)))"

section \<open>The private token\<close>

definition token_additional_data :: "u64 \<Rightarrow> u64 \<Rightarrow> bytes" where
  "token_additional_data protocol_id expire_timestamp =
     NETCODE_VERSION_INFO @ le_bytes 8 protocol_id @ le_bytes 8 expire_timestamp"

text \<open>The random bytes are \<open>key1\<close>, \<open>key2\<close> and, when no user data is given, \<open>random_data\<close>.\<close>

definition pt_generate ::
    "bytes \<Rightarrow> bytes \<Rightarrow> bytes \<Rightarrow> u64 \<Rightarrow> int \<Rightarrow> socket_addr list \<Rightarrow> bytes option
     \<Rightarrow> token_generation_error + private_connect_token" where
  "pt_generate key1 key2 random_data client_id timeout_seconds server_addresses user_data =
     (if length server_addresses > 32 then Inl MaxHostCount
      else if server_addresses = [] then Inl NoServerAddressAvailable
      else Inr \<lparr>pt_client_id = client_id, pt_timeout_seconds = timeout_seconds,
        pt_server_addresses = map Some server_addresses @ replicate (32 - length server_addresses) None,
        pt_client_to_server_key = key1, pt_server_to_client_key = key2,
        pt_user_data = (case user_data of Some data \<Rightarrow> data | None \<Rightarrow> random_data)\<rparr>)"

definition pt_write :: "private_connect_token \<Rightarrow> cursor \<Rightarrow> io_error + cursor" where
  "pt_write t w =
     rtry (write_all (le_bytes 8 (pt_client_id t)) w) (\<lambda>w.
     rtry (write_all (i32_le_bytes (pt_timeout_seconds t)) w) (\<lambda>w.
     rtry (write_server_addresses (pt_server_addresses t) w) (\<lambda>w.
     rtry (write_all (pt_client_to_server_key t) w) (\<lambda>w.
     rtry (write_all (pt_server_to_client_key t) w) (\<lambda>w.
     write_all (pt_user_data t) w)))))"

definition pt_read :: "bytes \<Rightarrow> io_error + private_connect_token" where
  "pt_read src =
     rtry (read_u64 src) (\<lambda>(client_id, src).
     rtry (read_i32 src) (\<lambda>(timeout_seconds, src).
     rtry (read_server_addresses src) (\<lambda>(server_addresses, src).
     rtry (read_exact 32 src) (\<lambda>(client_to_server_key, src).
     rtry (read_exact 32 src) (\<lambda>(server_to_client_key, src).
     rtry (read_exact 256 src) (\<lambda>(user_data, src).
     Inr \<lparr>pt_client_id = client_id, pt_timeout_seconds = timeout_seconds,
       pt_server_addresses = server_addresses, pt_client_to_server_key = client_to_server_key,
       pt_server_to_client_key = server_to_client_key, pt_user_data = user_data\<rparr>))))))"

text \<open>\<open>encode\<close> returns the new contents of the buffer.\<close>

definition pt_encode ::
    "aead_api \<Rightarrow> private_connect_token \<Rightarrow> bytes \<Rightarrow> u64 \<Rightarrow> u64 \<Rightarrow> bytes \<Rightarrow> bytes
     \<Rightarrow> (token_generation_error + bytes) option" where
  "pt_encode ae t buffer protocol_id expire_timestamp xnonce private_key =
     (let aad = token_additional_data protocol_id expire_timestamp in
      ptry (Some (conv_err TokenIoError (pt_write t (cursor_new (length buffer))))) (\<lambda>w.
      do {
        r \<leftarrow> encrypt_in_place_xnonce ae (cur_written w @ drop (length (cur_written w)) buffer) xnonce private_key aad;
        Some (conv_err (\<lambda>_. TokenCryptoError) r)
      }))"

definition pt_decode ::
    "aead_api \<Rightarrow> bytes \<Rightarrow> u64 \<Rightarrow> u64 \<Rightarrow> bytes \<Rightarrow> bytes
     \<Rightarrow> (token_generation_error + private_connect_token) option" where
  "pt_decode ae buffer protocol_id expire_timestamp xnonce private_key =
     (let aad = token_additional_data protocol_id expire_timestamp in do {
        r \<leftarrow> dencrypted_in_place_xnonce ae buffer xnonce private_key aad;
        Some (rtry (conv_err (\<lambda>_. TokenCryptoError) r) (\<lambda>temp_buffer.
          conv_err TokenIoError (pt_read temp_buffer)))
      })"

section \<open>The public token\<close>

definition ct_generate ::
    "aead_api \<Rightarrow> bytes \<Rightarrow> bytes \<Rightarrow> bytes \<Rightarrow> bytes \<Rightarrow> duration \<Rightarrow> u64 \<Rightarrow> u64 \<Rightarrow> u64 \<Rightarrow> int \<Rightarrow> socket_addr list
     \<Rightarrow> bytes option \<Rightarrow> bytes \<Rightarrow> (token_generation_error + connect_token) option" where
  "ct_generate ae key1 key2 random_data xnonce current_time protocol_id expire_seconds client_id
     timeout_seconds server_addresses user_data private_key = do {
     expire_timestamp \<leftarrow> uadd (as_secs current_time) expire_seconds;
     ptry (Some (pt_generate key1 key2 random_data client_id timeout_seconds server_addresses user_data)) (\<lambda>t.
     ptry (pt_encode ae t (replicate NETCODE_CONNECT_TOKEN_PRIVATE_BYTES 0) protocol_id expire_timestamp
       xnonce private_key) (\<lambda>private_data.
     Some (Inr \<lparr>ct_client_id = client_id, ct_version_info = NETCODE_VERSION_INFO,
       ct_protocol_id = protocol_id, ct_create_timestamp = as_secs current_time,
       ct_expire_timestamp = expire_timestamp, ct_xnonce = xnonce,
       ct_server_addresses = pt_server_addresses t,
       ct_client_to_server_key = pt_client_to_server_key t,
       ct_server_to_client_key = pt_server_to_client_key t,
       ct_private_data = private_data, ct_timeout_seconds = timeout_seconds\<rparr>)))
   }"

definition ct_write :: "connect_token \<Rightarrow> cursor \<Rightarrow> io_error + cursor" where
  "ct_write t w =
     rtry (write_all (le_bytes 8 (ct_client_id t)) w) (\<lambda>w.
     rtry (write_all (ct_version_info t) w) (\<lambda>w.
     rtry (write_all (le_bytes 8 (ct_protocol_id t)) w) (\<lambda>w.
     rtry (write_all (le_bytes 8 (ct_create_timestamp t)) w) (\<lambda>w.
     rtry (write_all (le_bytes 8 (ct_expire_timestamp t)) w) (\<lambda>w.
     rtry (write_all (ct_xnonce t) w) (\<lambda>w.
     rtry (write_all (ct_private_data t) w) (\<lambda>w.
     rtry (write_all (i32_le_bytes (ct_timeout_seconds t)) w) (\<lambda>w.
     rtry (write_server_addresses (ct_server_addresses t) w) (\<lambda>w.
     rtry (write_all (ct_client_to_server_key t) w) (\<lambda>w.
     write_all (ct_server_to_client_key t) w))))))))))"

definition ct_read :: "bytes \<Rightarrow> netcode_error + connect_token" where
  "ct_read src =
     rtry (conv_err IoError (read_u64 src)) (\<lambda>(client_id, src).
     rtry (conv_err IoError (read_bytes 13 src)) (\<lambda>(version_info, src).
     if version_info \<noteq> NETCODE_VERSION_INFO then Inl InvalidVersion
     else
       rtry (conv_err IoError (read_u64 src)) (\<lambda>(protocol_id, src).
       rtry (conv_err IoError (read_u64 src)) (\<lambda>(create_timestamp, src).
       rtry (conv_err IoError (read_u64 src)) (\<lambda>(expire_timestamp, src).
       rtry (conv_err IoError (read_bytes NETCODE_CONNECT_TOKEN_XNONCE_BYTES src)) (\<lambda>(xnonce, src).
       rtry (conv_err IoError (read_bytes NETCODE_CONNECT_TOKEN_PRIVATE_BYTES src)) (\<lambda>(private_data, src).
       rtry (conv_err IoError (read_i32 src)) (\<lambda>(timeout_seconds, src).
       rtry (conv_err IoError (read_server_addresses src)) (\<lambda>(server_addresses, src).
       rtry (conv_err IoError (read_bytes NETCODE_KEY_BYTES src)) (\<lambda>(client_to_server_key, src).
       rtry (conv_err IoError (read_bytes NETCODE_KEY_BYTES src)) (\<lambda>(server_to_client_key, src).
       Inr \<lparr>ct_client_id = client_id, ct_version_info = version_info, ct_protocol_id = protocol_id,
         ct_create_timestamp = create_timestamp, ct_expire_timestamp = expire_timestamp,
         ct_xnonce = xnonce, ct_server_addresses = server_addresses,
         ct_client_to_server_key = client_to_server_key,
         ct_server_to_client_key = server_to_client_key, ct_private_data = private_data,
         ct_timeout_seconds = timeout_seconds\<rparr>)))))))))))"

section \<open>The wire format\<close>

fun host_wire :: "socket_addr \<Rightarrow> bytes" where
  "host_wire (V4 ip port) = NETCODE_ADDRESS_IPV4 # ip @ le_bytes 2 port"
| "host_wire (V6 ip port _ _) = NETCODE_ADDRESS_IPV6 # ip @ le_bytes 2 port"

definition hosts_wire :: "socket_addr option list \<Rightarrow> bytes" where
  "hosts_wire as = le_bytes 4 (length (somes as)) @ concat (map host_wire (somes as))"

definition pt_wire :: "private_connect_token \<Rightarrow> bytes" where
  "pt_wire t = le_bytes 8 (pt_client_id t) @ i32_le_bytes (pt_timeout_seconds t)
     @ hosts_wire (pt_server_addresses t) @ pt_client_to_server_key t @ pt_server_to_client_key t @ pt_user_data t"

definition ct_wire :: "connect_token \<Rightarrow> bytes" where
  "ct_wire t = le_bytes 8 (ct_client_id t) @ ct_version_info t @ le_bytes 8 (ct_protocol_id t)
     @ le_bytes 8 (ct_create_timestamp t) @ le_bytes 8 (ct_expire_timestamp t) @ ct_xnonce t @ ct_private_data t
     @ i32_le_bytes (ct_timeout_seconds t) @ hosts_wire (ct_server_addresses t) @ ct_client_to_server_key t
     @ ct_server_to_client_key t"

text \<open>What the Rust types say of a token, and that an IPv6 address has neither flow information nor
  scope, which the format does not carry.\<close>

fun plain_addr :: "socket_addr \<Rightarrow> bool" where
  "plain_addr (V4 _ _) = True"
| "plain_addr (V6 _ _ flowinfo scope_id) = (flowinfo = 0 \<and> scope_id = 0)"

definition addresses_ok :: "socket_addr option list \<Rightarrow> bool" where
  "addresses_ok as \<longleftrightarrow> length as = 32 \<and> (\<forall>a \<in> set (somes as). sa_ok a \<and> plain_addr a)"

definition i32_ok :: "int \<Rightarrow> bool" where
  "i32_ok v \<longleftrightarrow> - (2 ^ 31) \<le> v \<and> v < 2 ^ 31"

definition pt_ok :: "private_connect_token \<Rightarrow> bool" where
  "pt_ok t \<longleftrightarrow> pt_client_id t < 2 ^ 64 \<and> i32_ok (pt_timeout_seconds t) \<and> addresses_ok (pt_server_addresses t)
     \<and> length (pt_client_to_server_key t) = 32 \<and> length (pt_server_to_client_key t) = 32
     \<and> length (pt_user_data t) = 256"

definition ct_ok :: "connect_token \<Rightarrow> bool" where
  "ct_ok t \<longleftrightarrow> ct_client_id t < 2 ^ 64 \<and> ct_version_info t = NETCODE_VERSION_INFO \<and> ct_protocol_id t < 2 ^ 64
     \<and> ct_create_timestamp t < 2 ^ 64 \<and> ct_expire_timestamp t < 2 ^ 64 \<and> length (ct_xnonce t) = 24
     \<and> length (ct_private_data t) = 1024 \<and> i32_ok (ct_timeout_seconds t)
     \<and> addresses_ok (ct_server_addresses t) \<and> length (ct_client_to_server_key t) = 32
     \<and> length (ct_server_to_client_key t) = 32"

text \<open>Reading puts the addresses in front.\<close>

definition in_front :: "socket_addr option list \<Rightarrow> socket_addr option list" where
  "in_front as = map Some (somes as) @ replicate (32 - length (somes as)) None"

section \<open>Round trips\<close>

lemma write_all_seq2: "rtry (write_all a w) (\<lambda>w. rtry (write_all b w) k) = rtry (write_all (a @ b) w) k"
  by (auto simp: write_all_def)

lemma rtry_assoc: "rtry (rtry r k) l = rtry r (\<lambda>x. rtry (k x) l)"
  by (cases r) auto

lemma write_host_wire: "write_host h w = write_all (host_wire h) w"
  by (cases h) (simp_all add: write_all_seq2 write_all_seq)

lemma write_hosts_wire: "write_hosts hs w = write_all (concat (map host_wire hs)) w"
proof (induction hs arbitrary: w)
  case Nil
  then show ?case by (simp add: write_all_def)
next
  case (Cons h hs)
  have "write_hosts hs = write_all (concat (map host_wire hs))" by (rule ext) (rule Cons.IH)
  then show ?case by (simp add: write_host_wire write_all_seq)
qed

lemma length_somes: "length (somes xs) = length (filter (\<lambda>x. x \<noteq> None) xs)" "length (somes xs) \<le> length xs"
  by (simp_all add: somes_def)

lemma write_server_addresses_wire: "write_server_addresses as w = write_all (hosts_wire as) w"
proof -
  have "write_hosts hs = write_all (concat (map host_wire hs))" for hs by (rule ext) (rule write_hosts_wire)
  then show ?thesis
    by (simp add: write_server_addresses_def hosts_wire_def length_somes write_all_seq Let_def)
qed

lemma pt_write_wire: "pt_write t w = write_all (pt_wire t) w"
  by (simp add: pt_write_def pt_wire_def write_server_addresses_wire write_all_seq2 write_all_seq)

lemma ct_write_wire: "ct_write t w = write_all (ct_wire t) w"
  by (simp add: ct_write_def ct_wire_def write_server_addresses_wire write_all_seq2 write_all_seq)

lemma read_host_wire:
  assumes "sa_ok h" and "plain_addr h"
  shows "read_host (host_wire h @ r) = Inr (Some h, r)"
  using assms by (cases h) (simp_all add: read_host_def read_simps NETCODE_ADDRESS_IPV4_def NETCODE_ADDRESS_IPV6_def)

lemma read_hosts_wire:
  assumes "\<forall>h \<in> set hs. sa_ok h \<and> plain_addr h"
  shows "read_hosts (length hs) (concat (map host_wire hs) @ r) = Inr (map Some hs, r)"
  using assms by (induction hs arbitrary: r) (simp_all add: read_host_wire)

lemma read_server_addresses_wire [read_simps]:
  assumes "addresses_ok as"
  shows "read_server_addresses (hosts_wire as @ r) = Inr (in_front as, r)"
proof -
  have "length (somes as) \<le> 32" using assms length_somes(2)[of as] by (simp add: addresses_ok_def)
  moreover have "\<forall>h \<in> set (somes as). sa_ok h \<and> plain_addr h" using assms by (simp add: addresses_ok_def)
  ultimately show ?thesis
    using assms
    by (simp add: read_server_addresses_def hosts_wire_def read_simps read_hosts_wire in_front_def Let_def)
qed

lemma length_host_wire: "sa_ok h \<Longrightarrow> length (host_wire h) \<le> 19"
  by (cases h) auto

lemma length_hosts_wire: "addresses_ok as \<Longrightarrow> length (hosts_wire as) \<le> 612"
proof -
  assume ok: "addresses_ok as"
  have "length (concat (map host_wire hs)) \<le> 19 * length hs" if "\<forall>h \<in> set hs. sa_ok h" for hs
    using that by (induction hs) (auto dest!: length_host_wire)
  from this[of "somes as"] ok have "length (concat (map host_wire (somes as))) \<le> 19 * length (somes as)"
    by (simp add: addresses_ok_def)
  moreover have "length (somes as) \<le> 32" using ok length_somes(2)[of as] by (simp add: addresses_ok_def)
  ultimately show ?thesis by (simp add: hosts_wire_def)
qed

lemma length_i32 [simp]: "length (i32_le_bytes v) = 4"
  by (simp add: i32_le_bytes_def)

lemma length_pt_wire: "pt_ok t \<Longrightarrow> length (pt_wire t) \<le> 944"
  using length_hosts_wire[of "pt_server_addresses t"] by (simp add: pt_ok_def pt_wire_def)

lemma pt_read_wire:
  assumes "pt_ok t"
  shows "pt_read (pt_wire t @ r) = Inr (t\<lparr>pt_server_addresses := in_front (pt_server_addresses t)\<rparr>)"
  using assms by (simp add: pt_read_def pt_wire_def pt_ok_def i32_ok_def read_simps)

lemma ct_read_wire:
  assumes "ct_ok t"
  shows "ct_read (ct_wire t @ r) = Inr (t\<lparr>ct_server_addresses := in_front (ct_server_addresses t)\<rparr>)"
proof -
  have "length (ct_version_info t) = 13" using assms by (simp add: ct_ok_def NETCODE_VERSION_INFO_def)
  then show ?thesis using assms
    by (simp add: ct_read_def ct_wire_def ct_ok_def i32_ok_def read_simps netcode_consts)
qed

context aead_contract
begin

lemma pt_encode_decode:
  assumes "pt_ok t" and "length k = 32" and "length n = 24"
  shows "\<exists>data. pt_encode ae t (replicate 1024 0) p e n k = Some (Inr data) \<and> length data = 1024
    \<and> pt_decode ae data p e n k = Some (Inr (t\<lparr>pt_server_addresses := in_front (pt_server_addresses t)\<rparr>))"
proof -
  let ?w = "pt_wire t"
  let ?m = "?w @ replicate (1008 - length ?w) 0"
  have l: "length ?w \<le> 944" by (rule length_pt_wire[OF assms(1)])
  have "replicate (1024 - length ?w) (0::u8) = replicate (1008 - length ?w) 0 @ replicate 16 0"
    using l by (simp flip: replicate_add)
  then have buf: "?w @ drop (length ?w) (replicate 1024 0) = ?m @ replicate 16 0" by simp
  have len: "length ?m = 1008" "length (replicate 16 (0::u8)) = 16" using l by simp_all
  from xencrypt_run[OF assms(2,3), of ?m "replicate 16 0" "token_additional_data p e"] len obtain c tag where
    ct: "encrypt_in_place_xnonce ae (?m @ replicate 16 0) n k (token_additional_data p e) = Some (Inr (c @ tag))"
      "length c = 1008" "length tag = 16"
      "dencrypted_in_place_xnonce ae (c @ tag) n k (token_additional_data p e) = Some (Inr (?m @ tag))" by auto
  have "pt_encode ae t (replicate 1024 0) p e n k = Some (Inr (c @ tag))"
    using l ct(1) by (simp add: pt_encode_def pt_write_wire write_all_def cursor_new_def buf[simplified])
  moreover have "pt_decode ae (c @ tag) p e n k = Some (Inr (t\<lparr>pt_server_addresses := in_front (pt_server_addresses t)\<rparr>))"
    using ct(4) pt_read_wire[OF assms(1), of "replicate (1008 - length ?w) 0 @ tag"] by (simp add: pt_decode_def)
  ultimately show ?thesis using ct(2,3) by auto
qed

end

lemma somes_map_Some: "somes (map Some xs @ replicate n None) = xs"
  by (simp add: somes_def filter_replicate comp_def filter_True)

lemma in_front_map_Some: "length xs \<le> 32 \<Longrightarrow> in_front (map Some xs @ replicate (32 - length xs) None)
    = map Some xs @ replicate (32 - length xs) None"
  by (simp add: in_front_def somes_map_Some)

context aead_contract
begin

lemma ct_generate_run:
  assumes "as_secs now + expire < 2 ^ 64" and "length private_key = 32"
    and "length key1 = 32" "length key2 = 32" "length xnonce = 24" "length random_data = 256"
    and "client_id < 2 ^ 64" "i32_ok timeout" "\<forall>a \<in> set addrs. sa_ok a \<and> plain_addr a"
    and "\<forall>d. user_data = Some d \<longrightarrow> length d = 256" and "0 < length addrs" "length addrs \<le> 32"
  shows "\<exists>data. length data = 1024 \<and>
    ct_generate ae key1 key2 random_data xnonce now protocol expire client_id timeout addrs user_data private_key
      = Some (Inr \<lparr>ct_client_id = client_id, ct_version_info = NETCODE_VERSION_INFO, ct_protocol_id = protocol,
          ct_create_timestamp = as_secs now, ct_expire_timestamp = as_secs now + expire, ct_xnonce = xnonce,
          ct_server_addresses = map Some addrs @ replicate (32 - length addrs) None,
          ct_client_to_server_key = key1, ct_server_to_client_key = key2, ct_private_data = data,
          ct_timeout_seconds = timeout\<rparr>)
    \<and> pt_decode ae data protocol (as_secs now + expire) xnonce private_key
      = Some (Inr \<lparr>pt_client_id = client_id, pt_timeout_seconds = timeout,
          pt_server_addresses = map Some addrs @ replicate (32 - length addrs) None,
          pt_client_to_server_key = key1, pt_server_to_client_key = key2,
          pt_user_data = (case user_data of Some d \<Rightarrow> d | None \<Rightarrow> random_data)\<rparr>)"
proof -
  have u: "uadd (as_secs now) expire = Some (as_secs now + expire)" using assms(1) by (simp add: uadd_def)
  let ?p = "\<lparr>pt_client_id = client_id, pt_timeout_seconds = timeout,
        pt_server_addresses = map Some addrs @ replicate (32 - length addrs) None,
        pt_client_to_server_key = key1, pt_server_to_client_key = key2,
        pt_user_data = (case user_data of Some data \<Rightarrow> data | None \<Rightarrow> random_data)\<rparr>"
  have "pt_ok ?p"
    using assms(3-12) by (auto simp: pt_ok_def addresses_ok_def somes_map_Some split: option.splits)
  from pt_encode_decode[OF this assms(2,5), of protocol "as_secs now + expire"]
  obtain data where d: "pt_encode ae ?p (replicate 1024 0) protocol (as_secs now + expire) xnonce private_key
      = Some (Inr data)" "length data = 1024"
    "pt_decode ae data protocol (as_secs now + expire) xnonce private_key = Some (Inr ?p)"
    using assms(12) by (auto simp: in_front_map_Some)
  then show ?thesis using assms(11,12)
    by (auto simp: ct_generate_def u pt_generate_def NETCODE_CONNECT_TOKEN_PRIVATE_BYTES_def)
qed

end

section \<open>Properties\<close>

text \<open>C23. The token that \<open>ConnectToken::generate\<close> issues for one to 32 addresses is accepted: generation
  does not panic or fail, and the private part decodes, with the same key, protocol and
  expiry, to the client id, timeout, addresses, user data and session keys it was issued for,
  which are also those of the public part. No address, or more than 32, are refused.\<close>

theorem connect_token_issued:
  assumes "aead_contract ae" and "as_secs now + expire < 2 ^ 64" and "length private_key = 32"
    and "length key1 = 32" "length key2 = 32" "length xnonce = 24" "length random_data = 256"
    and "client_id < 2 ^ 64" "i32_ok timeout" "\<forall>a \<in> set addrs. sa_ok a \<and> plain_addr a"
    and "\<forall>d. user_data = Some d \<longrightarrow> length d = 256"
  shows "case ct_generate ae key1 key2 random_data xnonce now protocol expire client_id timeout addrs user_data private_key
    of None \<Rightarrow> False
    | Some (Inl e) \<Rightarrow> length addrs > 32 \<and> e = MaxHostCount \<or> addrs = [] \<and> e = NoServerAddressAvailable
    | Some (Inr t) \<Rightarrow> 0 < length addrs \<and> length addrs \<le> 32
        \<and> ct_client_id t = client_id \<and> ct_protocol_id t = protocol \<and> ct_expire_timestamp t = as_secs now + expire
        \<and> ct_server_addresses t = map Some addrs @ replicate (32 - length addrs) None
        \<and> pt_decode ae (ct_private_data t) protocol (as_secs now + expire) (ct_xnonce t) private_key
          = Some (Inr \<lparr>pt_client_id = client_id, pt_timeout_seconds = timeout,
              pt_server_addresses = ct_server_addresses t,
              pt_client_to_server_key = ct_client_to_server_key t,
              pt_server_to_client_key = ct_server_to_client_key t,
              pt_user_data = (case user_data of Some d \<Rightarrow> d | None \<Rightarrow> random_data)\<rparr>)"
proof -
  show ?thesis
  proof (cases "0 < length addrs \<and> length addrs \<le> 32")
    case False
    then show ?thesis using assms(2) by (auto simp: ct_generate_def uadd_def pt_generate_def)
  next
    case True
    with aead_contract.ct_generate_run[OF assms(1,2,3,4,5,6,7,8,9,10,11), of protocol] show ?thesis by auto
  qed
qed

theorem connect_token_issued_witness:
  "case ct_generate chacha20poly1305 (replicate 32 1) (replicate 32 2) (replicate 256 3) (replicate 24 4) (from_secs 10)
      7 30 5 15 [V4 [127, 0, 0, 1] 5000] None (replicate 32 9)
    of None \<Rightarrow> False
    | Some (Inl e) \<Rightarrow> False
    | Some (Inr t) \<Rightarrow> ct_client_id t = 5 \<and> ct_expire_timestamp t = 40
        \<and> ct_server_addresses t = Some (V4 [127, 0, 0, 1] 5000) # replicate 31 None
        \<and> pt_decode chacha20poly1305 (ct_private_data t) 7 40 (ct_xnonce t) (replicate 32 9)
          = Some (Inr \<lparr>pt_client_id = 5, pt_timeout_seconds = 15,
              pt_server_addresses = ct_server_addresses t,
              pt_client_to_server_key = ct_client_to_server_key t,
              pt_server_to_client_key = ct_server_to_client_key t,
              pt_user_data = replicate 256 3\<rparr>)"
  using connect_token_issued[OF chacha.aead_contract_axioms, of "from_secs 10" 30 "replicate 32 9" "replicate 32 1"
      "replicate 32 2" "replicate 24 4" "replicate 256 3" 5 15 "[V4 [127, 0, 0, 1] 5000]" None 7]
  by (simp add: i32_ok_def as_secs_def from_secs_def split: option.splits sum.splits)

text \<open>C24. A public connect token written into the client's buffer of 2048 bytes fits, and is read back with
  its addresses moved to the front.\<close>

theorem connect_token_roundtrip:
  assumes "ct_ok t" and "room \<ge> 1773"
  shows "\<exists>w. ct_write t (cursor_new room) = Inr w \<and> length (cur_written w) \<le> 1773
    \<and> ct_read (cur_written w @ rest) = Inr (t\<lparr>ct_server_addresses := in_front (ct_server_addresses t)\<rparr>)"
proof -
  have "length (ct_wire t) \<le> 1773"
    using assms(1) length_hosts_wire[of "ct_server_addresses t"]
    by (simp add: ct_ok_def ct_wire_def NETCODE_VERSION_INFO_def)
  then show ?thesis
    using assms ct_read_wire[OF assms(1), of rest] by (simp add: ct_write_wire write_all_def cursor_new_def)
qed

theorem connect_token_roundtrip_witness:
  "\<exists>w. ct_write \<lparr>ct_client_id = 5, ct_version_info = NETCODE_VERSION_INFO, ct_protocol_id = 7, ct_create_timestamp = 10,
      ct_expire_timestamp = 40, ct_xnonce = replicate 24 4,
      ct_server_addresses = None # Some (V4 [127, 0, 0, 1] 5000) # replicate 30 None,
      ct_client_to_server_key = replicate 32 1, ct_server_to_client_key = replicate 32 2,
      ct_private_data = replicate 1024 6, ct_timeout_seconds = - 1\<rparr> (cursor_new 2048) = Inr w
    \<and> ct_read (cur_written w) = Inr \<lparr>ct_client_id = 5, ct_version_info = NETCODE_VERSION_INFO, ct_protocol_id = 7,
      ct_create_timestamp = 10, ct_expire_timestamp = 40, ct_xnonce = replicate 24 4,
      ct_server_addresses = Some (V4 [127, 0, 0, 1] 5000) # replicate 31 None,
      ct_client_to_server_key = replicate 32 1, ct_server_to_client_key = replicate 32 2,
      ct_private_data = replicate 1024 6, ct_timeout_seconds = - 1\<rparr>"
proof -
  let ?t = "\<lparr>ct_client_id = 5, ct_version_info = NETCODE_VERSION_INFO, ct_protocol_id = 7, ct_create_timestamp = 10,
      ct_expire_timestamp = 40, ct_xnonce = replicate 24 4,
      ct_server_addresses = None # Some (V4 [127, 0, 0, 1] 5000) # replicate 30 None,
      ct_client_to_server_key = replicate 32 1, ct_server_to_client_key = replicate 32 2,
      ct_private_data = replicate 1024 6, ct_timeout_seconds = - 1\<rparr>"
  have s: "somes (None # Some (V4 [127, 0, 0, 1] 5000) # replicate 30 None) = [V4 [127, 0, 0, 1] 5000]"
    by (simp add: somes_def filter_replicate)
  have "ct_ok ?t" by (simp add: ct_ok_def i32_ok_def addresses_ok_def s)
  from connect_token_roundtrip[OF this, of 2048 "[]"] show ?thesis by (fastforce simp: in_front_def s)
qed

end
