(* ===== verification/NetcodeReplay.thy ===== *)
theory NetcodeReplay
  imports NetcodeBase
begin

text \<open>
  Replay protection, \<open>src/renetcode/src/replay_protection.rs\<close>: a ring of the last sequence numbers
  received, by their residue modulo 256. It decides exactly whether a number was received or is
  too old to tell, so that no number is accepted twice.
\<close>

definition NETCODE_REPLAY_BUFFER_SIZE :: usize where
  "NETCODE_REPLAY_BUFFER_SIZE = 256"

definition EMPTY :: u64 where
  "EMPTY = 2 ^ 64 - 1"

record replay_protection =
  rp_most_recent_sequence :: u64
  rp_received_packet :: "u64 list"

definition rp_new :: replay_protection where
  "rp_new = \<lparr>rp_most_recent_sequence = 0, rp_received_packet = replicate NETCODE_REPLAY_BUFFER_SIZE EMPTY\<rparr>"

definition rp_already_received :: "replay_protection \<Rightarrow> u64 \<Rightarrow> bool option" where
  "rp_already_received r sequence = do {
     newest \<leftarrow> uadd sequence NETCODE_REPLAY_BUFFER_SIZE;
     (if newest \<le> rp_most_recent_sequence r then Some True
      else do {
        let index = sequence mod NETCODE_REPLAY_BUFFER_SIZE;
        received \<leftarrow> vec_get (rp_received_packet r) index;
        Some (if received = EMPTY then False else received \<ge> sequence)
      })
   }"

definition rp_advance_sequence :: "replay_protection \<Rightarrow> u64 \<Rightarrow> replay_protection option" where
  "rp_advance_sequence r sequence = do {
     let r = (if sequence > rp_most_recent_sequence r then r\<lparr>rp_most_recent_sequence := sequence\<rparr> else r);
     let index = sequence mod NETCODE_REPLAY_BUFFER_SIZE;
     received \<leftarrow> vec_set (rp_received_packet r) index sequence;
     Some (r\<lparr>rp_received_packet := received\<rparr>)
   }"

section \<open>Refinement of the set of accepted numbers\<close>

definition rp_rel :: "replay_protection \<Rightarrow> u64 set \<Rightarrow> bool" where
  "rp_rel r S \<longleftrightarrow> length (rp_received_packet r) = 256
     \<and> (\<forall>s \<in> S. s + 256 < 2 ^ 64 \<and> s \<le> rp_most_recent_sequence r)
     \<and> (rp_most_recent_sequence r = 0 \<or> rp_most_recent_sequence r \<in> S)
     \<and> (\<forall>i < 256. let x = rp_received_packet r ! i in
          if x = EMPTY then \<forall>s \<in> S. s mod 256 \<noteq> i
          else x \<in> S \<and> x mod 256 = i \<and> (\<forall>s \<in> S. s mod 256 = i \<longrightarrow> s \<le> x))"

lemma rp_rel_new: "rp_rel rp_new {}"
  by (simp add: rp_rel_def rp_new_def NETCODE_REPLAY_BUFFER_SIZE_def Let_def)

text \<open>Numbers of one residue that differ are 256 apart.\<close>

lemma residue_gap:
  fixes s x :: nat
  assumes "s mod 256 = x mod 256" and "s < x"
  shows "s + 256 \<le> x"
proof -
  have "256 dvd x - s" using assms mod_eq_dvd_iff_nat[of s x 256] by simp
  then have "256 \<le> x - s" using assms(2) by (intro dvd_imp_le) auto
  with assms(2) show ?thesis by linarith
qed

lemma already_received_exact:
  assumes "rp_rel r S" and "s + 256 < 2 ^ 64"
  shows "rp_already_received r s = Some (s \<in> S \<or> (\<exists>t \<in> S. s + 256 \<le> t))"
proof -
  let ?i = "s mod 256" and ?most = "rp_most_recent_sequence r"
  let ?x = "rp_received_packet r ! ?i"
  have len: "length (rp_received_packet r) = 256" and S: "\<And>s. s \<in> S \<Longrightarrow> s \<le> ?most"
    and most: "?most = 0 \<or> ?most \<in> S"
    and x: "if ?x = EMPTY then \<forall>t \<in> S. t mod 256 \<noteq> ?i
      else ?x \<in> S \<and> ?x mod 256 = ?i \<and> (\<forall>t \<in> S. t mod 256 = ?i \<longrightarrow> t \<le> ?x)"
    using assms(1) by (auto simp: rp_rel_def Let_def)
  have run: "rp_already_received r s =
      Some (s + 256 \<le> ?most \<or> ?x \<noteq> EMPTY \<and> s \<le> ?x)"
    using assms(2) len
    by (auto simp: rp_already_received_def uadd_def vec_get_def NETCODE_REPLAY_BUFFER_SIZE_def Let_def)
  have old: "s + 256 \<le> ?most \<longleftrightarrow> (\<exists>t \<in> S. s + 256 \<le> t)" using most S by force
  have "s \<in> S \<or> (\<exists>t \<in> S. s + 256 \<le> t)" if "?x \<noteq> EMPTY" "s \<le> ?x"
  proof (cases "s = ?x")
    case True
    then show ?thesis using x that(1) by auto
  next
    case False
    then show ?thesis using residue_gap[of s ?x] x that by auto
  qed
  moreover have "?x \<noteq> EMPTY \<and> s \<le> ?x" if "s \<in> S" using x that by (auto split: if_splits)
  ultimately show ?thesis unfolding run old by blast
qed

lemma advance_rel:
  assumes "rp_rel r S" and "s + 256 < 2 ^ 64" and "s \<notin> S" and "\<forall>t \<in> S. t < s + 256"
  shows "\<exists>r'. rp_advance_sequence r s = Some r' \<and> rp_rel r' (insert s S)"
proof -
  let ?i = "s mod 256" and ?most = "rp_most_recent_sequence r"
  let ?r = "r\<lparr>rp_most_recent_sequence := max ?most s, rp_received_packet := (rp_received_packet r)[?i := s]\<rparr>"
  have len: "length (rp_received_packet r) = 256" using assms(1) by (simp add: rp_rel_def)
  have run: "rp_advance_sequence r s = Some ?r"
    using len by (auto simp: rp_advance_sequence_def vec_set_def NETCODE_REPLAY_BUFFER_SIZE_def Let_def max_def)
  have top: "t \<le> s" if "t \<in> S" "t mod 256 = ?i" for t
  proof (rule ccontr)
    assume "\<not> t \<le> s"
    then have "s + 256 \<le> t" using residue_gap[of s t] that(2) by simp
    with assms(4) that(1) show False by fastforce
  qed
  have slot: "let x = rp_received_packet ?r ! i in
      if x = EMPTY then \<forall>t \<in> insert s S. t mod 256 \<noteq> i
      else x \<in> insert s S \<and> x mod 256 = i \<and> (\<forall>t \<in> insert s S. t mod 256 = i \<longrightarrow> t \<le> x)" if "i < 256" for i
  proof (cases "i = ?i")
    case True
    have "s \<noteq> EMPTY" using assms(2) by (simp add: EMPTY_def)
    then show ?thesis using True len top by (simp add: Let_def)
  next
    case False
    then show ?thesis using assms(1) that by (auto simp: rp_rel_def Let_def)
  qed
  have "rp_rel ?r (insert s S)"
    unfolding rp_rel_def
  proof (intro conjI allI impI)
    show "\<forall>t \<in> insert s S. t + 256 < 2 ^ 64 \<and> t \<le> rp_most_recent_sequence ?r"
      using assms(1,2) by (auto simp: rp_rel_def le_max_iff_disj)
    show "rp_most_recent_sequence ?r = 0 \<or> rp_most_recent_sequence ?r \<in> insert s S"
      using assms(1) by (auto simp: rp_rel_def max_def)
  qed (use slot len in auto)
  with run show ?thesis by blast
qed

section \<open>The guard of a decoder\<close>

text \<open>A number is checked before it is recorded, as \<open>decode\<close> does.\<close>

definition rp_accept :: "replay_protection \<Rightarrow> u64 \<Rightarrow> (replay_protection \<times> bool) option" where
  "rp_accept r s = do {
     received \<leftarrow> rp_already_received r s;
     (if received then Some (r, False)
      else do { r \<leftarrow> rp_advance_sequence r s; Some (r, True) })
   }"

fun rp_run :: "replay_protection \<Rightarrow> u64 list \<Rightarrow> (replay_protection \<times> u64 list) option" where
  "rp_run r [] = Some (r, [])"
| "rp_run r (s # ss) = do {
     (r, ok) \<leftarrow> rp_accept r s;
     (r, accepted) \<leftarrow> rp_run r ss;
     Some (r, if ok then s # accepted else accepted)
   }"

lemma rp_accept_rel:
  assumes "rp_rel r S" and "s + 256 < 2 ^ 64"
  shows "\<exists>r'. rp_accept r s = Some (r', \<not> (s \<in> S \<or> (\<exists>t \<in> S. s + 256 \<le> t)))
    \<and> rp_rel r' (if s \<in> S \<or> (\<exists>t \<in> S. s + 256 \<le> t) then S else insert s S)"
proof (cases "s \<in> S \<or> (\<exists>t \<in> S. s + 256 \<le> t)")
  case True
  with already_received_exact[OF assms] assms(1) show ?thesis by (auto simp: rp_accept_def)
next
  case False
  then have "\<forall>t \<in> S. t < s + 256" by (auto simp: not_le)
  with advance_rel[OF assms] already_received_exact[OF assms] False show ?thesis
    by (auto simp: rp_accept_def)
qed

text \<open>The specification: a number is accepted unless it was accepted before or lies 256 or more
  behind one that was.\<close>

fun accepts :: "u64 set \<Rightarrow> u64 list \<Rightarrow> u64 list" where
  "accepts S [] = []"
| "accepts S (s # ss) =
     (if s \<in> S \<or> (\<exists>t \<in> S. s + 256 \<le> t) then accepts S ss else s # accepts (insert s S) ss)"

lemma accepts_fresh: "distinct (accepts S ss) \<and> set (accepts S ss) \<inter> S = {}"
  by (induction S ss rule: accepts.induct) auto

text \<open>C22. Replay protection is exact: whatever sequence numbers (below \<open>2 ^ 64 - 256\<close>) arrive in
  whatever order, nothing panics, and exactly the numbers are accepted that were not accepted
  before and do not lie 256 or more behind one that was; in particular none is accepted twice.
  At the end a number counts as received by the same rule.\<close>

theorem replay_protection_exact:
  assumes "\<forall>s \<in> set ss. s + 256 < 2 ^ 64"
  shows "\<exists>r. rp_run rp_new ss = Some (r, accepts {} ss) \<and> distinct (accepts {} ss)
    \<and> (\<forall>s. s + 256 < 2 ^ 64 \<longrightarrow> rp_already_received r s =
        Some (s \<in> set (accepts {} ss) \<or> (\<exists>t \<in> set (accepts {} ss). s + 256 \<le> t)))"
proof -
  have "\<exists>r'. rp_run r ss = Some (r', accepts S ss) \<and> rp_rel r' (S \<union> set (accepts S ss))"
    if "rp_rel r S" for r S
    using that assms
  proof (induction ss arbitrary: r S)
    case Nil
    then show ?case by simp
  next
    case (Cons s ss)
    let ?old = "s \<in> S \<or> (\<exists>t \<in> S. s + 256 \<le> t)"
    from rp_accept_rel[OF Cons.prems(1), of s] Cons.prems(2) obtain r1 where
      r1: "rp_accept r s = Some (r1, \<not> ?old)" "rp_rel r1 (if ?old then S else insert s S)" by auto
    from Cons.IH[OF r1(2)] Cons.prems(2) show ?case using r1(1) by (cases ?old) auto
  qed
  from this[OF rp_rel_new] obtain r where
    "rp_run rp_new ss = Some (r, accepts {} ss)" "rp_rel r (set (accepts {} ss))" by auto
  with already_received_exact[of r "set (accepts {} ss)"] accepts_fresh[of "{}" ss] show ?thesis by blast
qed

theorem replay_protection_exact_witness:
  "\<exists>r. rp_run rp_new [5, 7, 5, 300, 6, 44, 45] = Some (r, [5, 7, 300, 45])
    \<and> rp_already_received r 44 = Some True \<and> rp_already_received r 301 = Some False"
proof -
  let ?ss = "[5, 7, 5, 300, 6, 44, 45] :: u64 list"
  have a: "accepts {} ?ss = [5, 7, 300, 45]" by simp
  from replay_protection_exact[of ?ss, unfolded a] obtain r where
    r: "rp_run rp_new ?ss = Some (r, [5, 7, 300, 45])"
      "\<forall>s. s + 256 < 2 ^ 64 \<longrightarrow>
        rp_already_received r s = Some (s \<in> set [5, 7, 300, 45] \<or> (\<exists>t \<in> set [5, 7, 300, 45]. s + 256 \<le> t))"
    by auto
  show ?thesis using r(1) r(2)[rule_format, of 44] r(2)[rule_format, of 301] by auto
qed

end
