(* ===== verification/NetcodePacket.thy ===== *)
theory NetcodePacket
  imports NetcodeToken NetcodeReplay
begin

text \<open>
  The packets of the netcode protocol, \<open>src/renetcode/src/packet.rs\<close>: a prefix byte with the type of
  the packet and the length of its sequence number, the sequence number, and the encrypted body.
  A connection request is not encrypted.
\<close>

unbundle bit_operations_syntax

section \<open>Data\<close>

datatype packet_type =
    ConnectionRequestType
  | ConnectionDeniedType
  | ChallengeType
  | ResponseType
  | KeepAliveType
  | PayloadType
  | DisconnectType

text \<open>\<open>Packet\<close>: the fields of \<open>ConnectionRequest\<close> are version, protocol id, expiry, nonce and private
  token; those of \<open>KeepAlive\<close> the client index and the number of slots.\<close>

datatype nc_packet =
    ConnectionRequest bytes u64 u64 bytes bytes
  | ConnectionDenied
  | Challenge u64 bytes
  | Response u64 bytes
  | KeepAlive nat nat
  | Payload bytes
  | DisconnectPacket

record challenge_token =
  cht_client_id :: u64
  cht_user_data :: bytes

definition packet_type_from_u8 :: "u8 \<Rightarrow> netcode_error + packet_type" where
  "packet_type_from_u8 value =
     (if value = 0 then Inr ConnectionRequestType
      else if value = 1 then Inr ConnectionDeniedType
      else if value = 2 then Inr ChallengeType
      else if value = 3 then Inr ResponseType
      else if value = 4 then Inr KeepAliveType
      else if value = 5 then Inr PayloadType
      else if value = 6 then Inr DisconnectType
      else Inl InvalidType)"

definition apply_replay_protection :: "packet_type \<Rightarrow> bool" where
  "apply_replay_protection t \<longleftrightarrow> t = KeepAliveType \<or> t = PayloadType \<or> t = DisconnectType"

fun packet_type_of :: "nc_packet \<Rightarrow> packet_type" where
  "packet_type_of (ConnectionRequest _ _ _ _ _) = ConnectionRequestType"
| "packet_type_of ConnectionDenied = ConnectionDeniedType"
| "packet_type_of (Challenge _ _) = ChallengeType"
| "packet_type_of (Response _ _) = ResponseType"
| "packet_type_of (KeepAlive _ _) = KeepAliveType"
| "packet_type_of (Payload _) = PayloadType"
| "packet_type_of DisconnectPacket = DisconnectType"

text \<open>\<open>self.packet_type() as u8\<close>, by the discriminants of \<open>PacketType\<close>\<close>

fun packet_type_u8 :: "packet_type \<Rightarrow> u8" where
  "packet_type_u8 ConnectionRequestType = 0"
| "packet_type_u8 ConnectionDeniedType = 1"
| "packet_type_u8 ChallengeType = 2"
| "packet_type_u8 ResponseType = 3"
| "packet_type_u8 KeepAliveType = 4"
| "packet_type_u8 PayloadType = 5"
| "packet_type_u8 DisconnectType = 6"

definition packet_id :: "nc_packet \<Rightarrow> u8" where
  "packet_id p = packet_type_u8 (packet_type_of p)"

definition connection_request_from_token :: "connect_token \<Rightarrow> nc_packet" where
  "connection_request_from_token t =
     ConnectionRequest NETCODE_VERSION_INFO (ct_protocol_id t) (ct_expire_timestamp t) (ct_xnonce t) (ct_private_data t)"

section \<open>The challenge token\<close>

definition challenge_token_new :: "u64 \<Rightarrow> bytes \<Rightarrow> challenge_token" where
  "challenge_token_new client_id user_data = \<lparr>cht_client_id = client_id, cht_user_data = user_data\<rparr>"

definition challenge_token_read :: "bytes \<Rightarrow> io_error + challenge_token" where
  "challenge_token_read src =
     rtry (read_u64 src) (\<lambda>(client_id, src).
     rtry (read_bytes NETCODE_USER_DATA_BYTES src) (\<lambda>(user_data, src).
     Inr \<lparr>cht_client_id = client_id, cht_user_data = user_data\<rparr>))"

definition challenge_token_write :: "challenge_token \<Rightarrow> cursor \<Rightarrow> io_error + cursor" where
  "challenge_token_write t out =
     rtry (write_all (le_bytes 8 (cht_client_id t)) out) (\<lambda>out.
     write_all (cht_user_data t) out)"

definition challenge_token_decode ::
    "aead_api \<Rightarrow> bytes \<Rightarrow> u64 \<Rightarrow> bytes \<Rightarrow> (netcode_error + challenge_token) option" where
  "challenge_token_decode ae token_data token_sequence challenge_key = do {
     r \<leftarrow> dencrypted_in_place ae token_data token_sequence challenge_key [];
     Some (rtry (conv_err (\<lambda>_. CryptoError) r) (\<lambda>decoded. conv_err IoError (challenge_token_read decoded)))
   }"

definition generate_challenge ::
    "aead_api \<Rightarrow> u64 \<Rightarrow> bytes \<Rightarrow> u64 \<Rightarrow> bytes \<Rightarrow> (netcode_error + nc_packet) option" where
  "generate_challenge ae client_id user_data challenge_sequence challenge_key =
     (let token = challenge_token_new client_id user_data;
          buffer = replicate NETCODE_CHALLENGE_TOKEN_BYTES 0 in
      ptry (Some (conv_err IoError (challenge_token_write token (cursor_new (length buffer))))) (\<lambda>w.
      do {
        r \<leftarrow> encrypt_in_place ae (cur_written w @ drop (length (cur_written w)) buffer)
          challenge_sequence challenge_key [];
        Some (rtry (conv_err (\<lambda>_. CryptoError) r) (\<lambda>buffer. Inr (Challenge challenge_sequence buffer)))
      }))"

section \<open>The body of a packet\<close>

fun packet_write :: "nc_packet \<Rightarrow> cursor \<Rightarrow> io_error + cursor" where
  "packet_write (ConnectionRequest version_info protocol_id expire_timestamp xnonce data) w =
     rtry (write_all version_info w) (\<lambda>w.
     rtry (write_all (le_bytes 8 protocol_id) w) (\<lambda>w.
     rtry (write_all (le_bytes 8 expire_timestamp) w) (\<lambda>w.
     rtry (write_all xnonce w) (\<lambda>w.
     write_all data w))))"
| "packet_write (Challenge token_sequence token_data) w =
     rtry (write_all (le_bytes 8 token_sequence) w) (\<lambda>w. write_all token_data w)"
| "packet_write (Response token_sequence token_data) w =
     rtry (write_all (le_bytes 8 token_sequence) w) (\<lambda>w. write_all token_data w)"
| "packet_write (KeepAlive client_index max_clients) w =
     rtry (write_all (le_bytes 4 client_index) w) (\<lambda>w. write_all (le_bytes 4 max_clients) w)"
| "packet_write (Payload p) w = write_all p w"
| "packet_write ConnectionDenied w = Inr w"
| "packet_write DisconnectPacket w = Inr w"

fun packet_read :: "packet_type \<Rightarrow> bytes \<Rightarrow> io_error + nc_packet" where
  "packet_read PayloadType src = Inr (Payload src)"
| "packet_read ConnectionRequestType src =
     rtry (read_bytes 13 src) (\<lambda>(version_info, src).
     rtry (read_u64 src) (\<lambda>(protocol_id, src).
     rtry (read_u64 src) (\<lambda>(expire_timestamp, src).
     rtry (read_bytes NETCODE_CONNECT_TOKEN_XNONCE_BYTES src) (\<lambda>(xnonce, src).
     rtry (read_bytes NETCODE_CONNECT_TOKEN_PRIVATE_BYTES src) (\<lambda>(token_data, src).
     Inr (ConnectionRequest version_info protocol_id expire_timestamp xnonce token_data))))))"
| "packet_read ChallengeType src =
     rtry (read_u64 src) (\<lambda>(token_sequence, src).
     rtry (read_bytes NETCODE_CHALLENGE_TOKEN_BYTES src) (\<lambda>(token_data, src).
     Inr (Challenge token_sequence token_data)))"
| "packet_read ResponseType src =
     rtry (read_u64 src) (\<lambda>(token_sequence, src).
     rtry (read_bytes NETCODE_CHALLENGE_TOKEN_BYTES src) (\<lambda>(token_data, src).
     Inr (Response token_sequence token_data)))"
| "packet_read KeepAliveType src =
     rtry (read_u32 src) (\<lambda>(client_index, src).
     rtry (read_u32 src) (\<lambda>(max_clients, src).
     Inr (KeepAlive client_index max_clients)))"
| "packet_read ConnectionDeniedType src = Inr ConnectionDenied"
| "packet_read DisconnectType src = Inr DisconnectPacket"

section \<open>The prefix and the sequence number\<close>

definition packet_additional_data :: "u8 \<Rightarrow> u64 \<Rightarrow> bytes" where
  "packet_additional_data prefix protocol_id = NETCODE_VERSION_INFO @ le_bytes 8 protocol_id @ [prefix]"

definition decode_prefix :: "u8 \<Rightarrow> u8 \<times> usize" where
  "decode_prefix value = (value AND 0xF, unat (drop_bit 4 value))"

text \<open>The loop over the iterations that are left, with its mask.\<close>

fun sequence_bytes_loop :: "usize list \<Rightarrow> 64 word \<Rightarrow> 64 word \<Rightarrow> usize" where
  "sequence_bytes_loop [] sequence byte_mask = 0"
| "sequence_bytes_loop (i # rest) sequence byte_mask =
     (if sequence AND byte_mask \<noteq> 0 then 8 - i else sequence_bytes_loop rest sequence (drop_bit 8 byte_mask))"

definition sequence_bytes_required :: "u64 \<Rightarrow> usize" where
  "sequence_bytes_required sequence = sequence_bytes_loop [0..<8] (word_of_nat sequence) 0xFF00000000000000"

definition encode_prefix :: "u8 \<Rightarrow> u64 \<Rightarrow> u8" where
  "encode_prefix value sequence = value OR push_bit 4 (word_of_nat (sequence_bytes_required sequence))"

text \<open>\<open>write_sequence\<close> calls \<open>write\<close>, which writes what fits.\<close>

definition write_sequence :: "cursor \<Rightarrow> u64 \<Rightarrow> cursor" where
  "write_sequence out seq =
     (let len = sequence_bytes_required seq;
          sequence_scratch = le_bytes 8 seq in
      write_some (take len sequence_scratch) out)"

text \<open>\<open>seq_scratch[0..len]\<close> panics when \<open>len\<close> is above 8.\<close>

definition read_sequence :: "bytes \<Rightarrow> usize \<Rightarrow> (io_error + u64 \<times> bytes) option" where
  "read_sequence source len = do {
     rust_assert (len \<le> 8);
     Some (rtry (read_exact len source) (\<lambda>(scratch, source). Inr (le_value (scratch @ replicate (8 - len) 0), source)))
   }"

section \<open>Encoding and decoding\<close>

text \<open>The result of \<open>encode\<close> is the used part of the buffer, whose length is \<open>room\<close>.\<close>

definition packet_encode ::
    "aead_api \<Rightarrow> nc_packet \<Rightarrow> usize \<Rightarrow> u64 \<Rightarrow> (u64 \<times> bytes) option \<Rightarrow> (netcode_error + bytes) option" where
  "packet_encode ae p room protocol_id crypto_info =
     (if packet_type_of p = ConnectionRequestType then
        let prefix_byte = encode_prefix (packet_id p) 0 in
        Some (rtry (conv_err IoError (write_all [prefix_byte] (cursor_new room))) (\<lambda>w.
          rtry (conv_err IoError (packet_write p w)) (\<lambda>w. Inr (cur_written w))))
      else case crypto_info of
        Some (sequence, private_key) \<Rightarrow>
          let prefix_byte = encode_prefix (packet_id p) sequence in
          ptry (Some (conv_err IoError (write_all [prefix_byte] (cursor_new room)))) (\<lambda>w.
          let w = write_sequence w sequence;
              start = length (cur_written w) in
          ptry (Some (conv_err IoError (packet_write p w))) (\<lambda>w.
          let aad = packet_additional_data prefix_byte protocol_id;
              end_pos = length (cur_written w) in
          if room < end_pos + NETCODE_MAC_BYTES then Some (Inl (IoError WriteZero))
          else do {
            r \<leftarrow> encrypt_in_place ae (drop start (cur_written w) @ replicate NETCODE_MAC_BYTES 0) sequence private_key aad;
            Some (rtry (conv_err (\<lambda>_. CryptoError) r) (\<lambda>body. Inr (take start (cur_written w) @ body)))
          }))
      | None \<Rightarrow> Some (Inl UnavailablePrivateKey))"

text \<open>The two uses of the optional replay protection.\<close>

definition replayed :: "replay_protection option \<Rightarrow> packet_type \<Rightarrow> u64 \<Rightarrow> bool option" where
  "replayed rp packet_type sequence =
     (case rp of
        Some r \<Rightarrow> if apply_replay_protection packet_type then rp_already_received r sequence else Some False
      | None \<Rightarrow> Some False)"

definition replay_advance ::
    "replay_protection option \<Rightarrow> packet_type \<Rightarrow> u64 \<Rightarrow> replay_protection option option" where
  "replay_advance rp packet_type sequence =
     (case rp of
        Some r \<Rightarrow> if apply_replay_protection packet_type then map_option Some (rp_advance_sequence r sequence)
          else Some rp
      | None \<Rightarrow> Some None)"

text \<open>\<open>decode\<close> returns the replay protection next to its result; the contents it leaves in the buffer
  are only read through the packet.\<close>

definition packet_decode ::
    "aead_api \<Rightarrow> bytes \<Rightarrow> u64 \<Rightarrow> bytes option \<Rightarrow> replay_protection option
     \<Rightarrow> ((netcode_error + u64 \<times> nc_packet) \<times> replay_protection option) option" where
  "packet_decode ae buffer protocol_id private_key rp =
     (if length buffer < 2 + NETCODE_MAC_BYTES then Some (Inl PacketTooSmall, rp)
      else do {
        prefix_byte \<leftarrow> vec_get buffer 0;
        let (packet_type, sequence_len) = decode_prefix prefix_byte;
        (case packet_type_from_u8 packet_type of
          Inl e \<Rightarrow> Some (Inl e, rp)
        | Inr packet_type \<Rightarrow>
            if packet_type = ConnectionRequestType then
              Some (rtry (conv_err IoError (packet_read ConnectionRequestType (drop 1 buffer))) (\<lambda>p. Inr (0, p)), rp)
            else (case private_key of
              None \<Rightarrow> Some (Inl UnavailablePrivateKey, rp)
            | Some private_key \<Rightarrow> do {
                r \<leftarrow> read_sequence (drop 1 buffer) sequence_len;
                (case r of
                  Inl e \<Rightarrow> Some (Inl (IoError e), rp)
                | Inr (sequence, src) \<Rightarrow> do {
                    let aad = packet_additional_data prefix_byte protocol_id;
                    duplicated \<leftarrow> replayed rp packet_type sequence;
                    if duplicated then Some (Inl DuplicatedSequence, rp)
                    else do {
                      r \<leftarrow> dencrypted_in_place ae src sequence private_key aad;
                      (case r of
                        Inl _ \<Rightarrow> Some (Inl CryptoError, rp)
                      | Inr src \<Rightarrow> do {
                          rp \<leftarrow> replay_advance rp packet_type sequence;
                          n \<leftarrow> usub (length src) NETCODE_MAC_BYTES;
                          Some (rtry (conv_err IoError (packet_read packet_type (take n src))) (\<lambda>p. Inr (sequence, p)), rp)
                        })
                    }
                  })
              }))
      })"

section \<open>The length of a sequence number\<close>

lemma masked_byte:
  fixes w :: "64 word"
  assumes "k \<le> 56"
  shows "w AND push_bit k (mask 8) = 0 \<longleftrightarrow> unat w div 2 ^ k mod 2 ^ 8 = 0"
proof -
  have "w AND push_bit k (mask 8) = 0 \<longleftrightarrow> (\<forall>i < 8. \<not> bit w (k + i))"
  proof
    assume 0: "w AND push_bit k (mask 8) = 0"
    show "\<forall>i < 8. \<not> bit w (k + i)"
    proof (intro allI impI notI)
      fix i :: nat assume "i < 8" "bit w (k + i)"
      then have "bit (w AND push_bit k (mask 8)) (k + i)" using assms by (simp add: bit_simps)
      then show False using 0 by simp
    qed
  next
    assume "\<forall>i < 8. \<not> bit w (k + i)"
    then have "\<not> bit w n" if "k \<le> n" "n < k + 8" for n using that by (metis add_diff_inverse_nat less_diff_conv2 add.commute not_le)
    then show "w AND push_bit k (mask 8) = 0" by (intro bit_eqI) (auto simp: bit_simps)
  qed
  also have "\<dots> \<longleftrightarrow> take_bit 8 (drop_bit k (unat w)) = 0"
  proof
    assume "\<forall>i < 8. \<not> bit w (k + i)"
    then show "take_bit 8 (drop_bit k (unat w)) = 0" by (intro bit_eqI) (auto simp: bit_simps)
  next
    assume 0: "take_bit 8 (drop_bit k (unat w)) = 0"
    show "\<forall>i < 8. \<not> bit w (k + i)"
    proof (intro allI impI notI)
      fix i :: nat assume "i < 8" "bit w (k + i)"
      then have "bit (take_bit 8 (drop_bit k (unat w))) i" using assms by (auto simp: bit_simps)
      then show False using 0 by simp
    qed
  qed
  finally show ?thesis by (simp add: take_bit_eq_mod drop_bit_eq_div)
qed

lemma sequence_bytes_loop_run:
  assumes "i \<le> 8" and "s < 256 ^ (8 - i)"
  shows "sequence_bytes_loop [i..<8] (word_of_nat s) (push_bit (8 * (7 - i)) (mask 8)) = (LEAST n. s < 256 ^ n)"
  using assms
proof (induction "8 - i" arbitrary: i)
  case 0
  then have "s = 0" "i = 8" by simp_all
  moreover have "(LEAST n. (0::nat) < 256 ^ n) = 0" by (rule Least_equality) simp_all
  ultimately show ?case by simp
next
  case (Suc m)
  let ?k = "8 * (7 - i)"
  have i: "i < 8" using Suc.hyps(2) by simp
  then have e: "8 - i = Suc (7 - i)" by simp
  have pow: "(2::nat) ^ ?k = 256 ^ (7 - i)" by (simp add: power_mult)
  have "256 ^ (8 - i) \<le> (256::nat) ^ 8" by (rule power_increasing) simp_all
  then have s: "unat (word_of_nat s :: 64 word) = s" using Suc.prems(2) by (simp add: unat_of_nat take_bit_eq_mod)
  have "s div 256 ^ (7 - i) < 256" using Suc.prems(2) by (simp add: e div_less_iff_less_mult mult.commute)
  then have z: "(word_of_nat s :: 64 word) AND push_bit ?k (mask 8) = 0 \<longleftrightarrow> s < 256 ^ (7 - i)"
    using masked_byte[of ?k "word_of_nat s"] i by (simp add: s pow div_eq_0_iff)
  show ?case
  proof (cases "s < 256 ^ (7 - i)")
    case True
    have "drop_bit 8 (push_bit ?k (mask 8)) = (push_bit (8 * (7 - Suc i)) (mask 8) :: 64 word) \<or> i = 7"
    proof (cases "i = 7")
      case False
      then have k: "?k = 8 + 8 * (7 - Suc i)" using i by simp
      show ?thesis unfolding k using i False by (intro disjI1 bit_eqI) (auto simp: bit_simps)
    qed simp
    then show ?thesis using Suc.hyps(1)[of "Suc i"] Suc.hyps(2) True i z
      by (auto simp: upt_conv_Cons Suc_diff_Suc)
  next
    case False
    have "(LEAST n. s < 256 ^ n) = 8 - i"
    proof (rule Least_equality)
      show "s < 256 ^ (8 - i)" by (rule Suc.prems(2))
      fix n assume n: "s < 256 ^ n"
      show "8 - i \<le> n"
      proof (rule ccontr)
        assume "\<not> 8 - i \<le> n"
        then have "(256::nat) ^ n \<le> 256 ^ (7 - i)" using e by (intro power_increasing) simp_all
        with n False show False by simp
      qed
    qed
    then show ?thesis using False z i by (simp add: upt_conv_Cons)
  qed
qed

lemma sequence_bytes_least: "s < 2 ^ 64 \<Longrightarrow> sequence_bytes_required s = (LEAST n. s < 256 ^ n)"
  using sequence_bytes_loop_run[of 0 s] by (simp add: sequence_bytes_required_def push_bit_eq_mult mask_eq_exp_minus_1)

section \<open>Encoding and decoding are inverse\<close>

fun packet_wire :: "nc_packet \<Rightarrow> bytes" where
  "packet_wire (ConnectionRequest version_info protocol_id expire_timestamp xnonce data) =
     version_info @ le_bytes 8 protocol_id @ le_bytes 8 expire_timestamp @ xnonce @ data"
| "packet_wire (Challenge token_sequence token_data) = le_bytes 8 token_sequence @ token_data"
| "packet_wire (Response token_sequence token_data) = le_bytes 8 token_sequence @ token_data"
| "packet_wire (KeepAlive client_index max_clients) = le_bytes 4 client_index @ le_bytes 4 max_clients"
| "packet_wire (Payload p) = p"
| "packet_wire ConnectionDenied = []"
| "packet_wire DisconnectPacket = []"

text \<open>The sizes that the Rust types give, and the limit that the callers check for a payload.\<close>

fun packet_ok :: "nc_packet \<Rightarrow> bool" where
  "packet_ok (ConnectionRequest version_info protocol_id expire_timestamp xnonce data) \<longleftrightarrow>
     length version_info = 13 \<and> protocol_id < 2 ^ 64 \<and> expire_timestamp < 2 ^ 64 \<and> length xnonce = 24
     \<and> length data = 1024"
| "packet_ok (Challenge token_sequence token_data) \<longleftrightarrow> token_sequence < 2 ^ 64 \<and> length token_data = 300"
| "packet_ok (Response token_sequence token_data) \<longleftrightarrow> token_sequence < 2 ^ 64 \<and> length token_data = 300"
| "packet_ok (KeepAlive client_index max_clients) \<longleftrightarrow> client_index < 2 ^ 32 \<and> max_clients < 2 ^ 32"
| "packet_ok (Payload p) \<longleftrightarrow> length p \<le> NETCODE_MAX_PAYLOAD_BYTES"
| "packet_ok ConnectionDenied \<longleftrightarrow> True"
| "packet_ok DisconnectPacket \<longleftrightarrow> True"

lemma packet_write_wire: "packet_write p w = write_all (packet_wire p) w"
proof (cases p)
  case ConnectionDenied
  then show ?thesis by (simp add: write_all_def)
next
  case DisconnectPacket
  then show ?thesis by (simp add: write_all_def)
qed (simp_all add: write_all_seq2 write_all_seq)

lemma read_bytes_all: "length b = n \<Longrightarrow> read_bytes n b = Inr (b, [])"
  using read_bytes_append[of b n "[]"] by simp

lemma packet_read_wire: "packet_ok p \<Longrightarrow> packet_read (packet_type_of p) (packet_wire p) = Inr p"
  using read_u32_append[of _ "[]"]
  by (cases p) (simp_all add: read_simps read_bytes_all netcode_consts)

lemma length_packet_wire: "packet_ok p \<Longrightarrow> length (packet_wire p) \<le> 1300"
  by (cases p) (simp_all add: NETCODE_MAX_PAYLOAD_BYTES_def)

lemma sequence_bytes_bound:
  assumes "s < 2 ^ 64"
  shows "sequence_bytes_required s \<le> 8" "s < 256 ^ sequence_bytes_required s"
proof -
  have "s < 256 ^ 8" using assms by simp
  then show "sequence_bytes_required s \<le> 8" unfolding sequence_bytes_least[OF assms] by (rule Least_le)
  show "s < 256 ^ sequence_bytes_required s"
    unfolding sequence_bytes_least[OF assms] by (rule LeastI[of "\<lambda>n. s < 256 ^ n" 8]) fact
qed

lemma sequence_bytes_zero: "s < 2 ^ 64 \<Longrightarrow> sequence_bytes_required s = 0 \<longleftrightarrow> s = 0"
  using sequence_bytes_bound[of s] by (auto simp: sequence_bytes_least intro: Least_eq_0)

lemma decode_encode_prefix:
  assumes "s < 2 ^ 64"
  shows "decode_prefix (encode_prefix (packet_id p) s) = (packet_id p, sequence_bytes_required s)"
proof -
  obtain n where n: "sequence_bytes_required s = n" "n \<le> 8" using sequence_bytes_bound(1)[OF assms] by blast
  then have "n \<in> {0, 1, 2, 3, 4, 5, 6, 7, 8}" by auto
  then show ?thesis
    unfolding decode_prefix_def encode_prefix_def n(1) packet_id_def
    by (cases "packet_type_of p") auto
qed

lemma packet_type_from_id [simp]: "packet_type_from_u8 (packet_id p) = Inr (packet_type_of p)"
  by (cases "packet_type_of p") (simp_all add: packet_type_from_u8_def packet_id_def)

lemma take_le_bytes: "n \<le> m \<Longrightarrow> take n (le_bytes m v) = le_bytes n v"
proof (induction n arbitrary: m v)
  case (Suc n)
  then show ?case by (cases m) simp_all
qed simp

lemma le_value_pad: "le_value (bs @ replicate k 0) = le_value bs"
proof -
  have "le_value (replicate k 0) = 0" by (induction k) simp_all
  then show ?thesis by (induction bs) simp_all
qed

lemma read_sequence_wire:
  assumes "s < 2 ^ 64"
  shows "read_sequence (le_bytes (sequence_bytes_required s) s @ r) (sequence_bytes_required s) = Some (Inr (s, r))"
  using sequence_bytes_bound[OF assms]
  by (simp add: read_sequence_def rust_assert_def read_simps le_value_pad le_value_le_bytes)

text \<open>What an encrypted packet looks like.\<close>

definition packet_frame :: "nc_packet \<Rightarrow> u64 \<Rightarrow> bytes \<Rightarrow> bytes" where
  "packet_frame p s body = encode_prefix (packet_id p) s # le_bytes (sequence_bytes_required s) s @ body"

definition frame_aad :: "nc_packet \<Rightarrow> u64 \<Rightarrow> u64 \<Rightarrow> bytes" where
  "frame_aad p s protocol_id = packet_additional_data (encode_prefix (packet_id p) s) protocol_id"

lemma connection_request_run:
  assumes "packet_ok p" and "packet_type_of p = ConnectionRequestType" and "1325 \<le> room"
  defines "b \<equiv> encode_prefix (packet_id p) 0 # packet_wire p"
  shows "packet_encode ae p room protocol_id info = Some (Inr b)" and "length b \<le> 1325"
    and "packet_decode ae b protocol_id key rp = Some (Inr (0, p), rp)"
proof -
  have len: "length (packet_wire p) = 1077" using assms(1,2) by (cases p) simp_all
  then show "packet_encode ae p room protocol_id info = Some (Inr b)" "length b \<le> 1325"
    using assms by (simp_all add: packet_encode_def packet_write_wire write_all_def cursor_new_def Let_def)
  show "packet_decode ae b protocol_id key rp = Some (Inr (0, p), rp)"
    using assms len packet_read_wire[OF assms(1)] decode_encode_prefix[of 0 p]
    by (simp add: packet_decode_def vec_get_def NETCODE_MAC_BYTES_def)
qed

context aead_contract
begin

lemma packet_encode_run:
  assumes "packet_ok p" and "packet_type_of p \<noteq> ConnectionRequestType" and "s < 2 ^ 64" and "length k = 32"
    and "1325 \<le> room"
  shows "\<exists>c t. packet_encode ae p room protocol_id (Some (s, k)) = Some (Inr (packet_frame p s (c @ t)))
    \<and> length c = length (packet_wire p) \<and> length t = 16
    \<and> dencrypted_in_place ae (c @ t) s k (frame_aad p s protocol_id) = Some (Inr (packet_wire p @ t))"
proof -
  let ?n = "sequence_bytes_required s"
  have n: "?n \<le> 8" by (rule sequence_bytes_bound(1)[OF assms(3)])
  have l: "length (packet_wire p) \<le> 1300" by (rule length_packet_wire[OF assms(1)])
  from encrypt_run[OF assms(4), of "packet_wire p" "replicate 16 0" s "frame_aad p s protocol_id"] l
  obtain c t where ct: "encrypt_in_place ae (packet_wire p @ replicate 16 0) s k (frame_aad p s protocol_id) = Some (Inr (c @ t))"
    "length c = length (packet_wire p)" "length t = 16"
    "dencrypted_in_place ae (c @ t) s k (frame_aad p s protocol_id) = Some (Inr (packet_wire p @ t))" by auto
  have "packet_encode ae p room protocol_id (Some (s, k)) = Some (Inr (packet_frame p s (c @ t)))"
    using assms(2,5) n l ct(1)
    by (simp add: packet_encode_def packet_write_wire write_all_def cursor_new_def write_sequence_def write_some_def
        take_le_bytes Let_def NETCODE_MAC_BYTES_def packet_frame_def frame_aad_def)
  then show ?thesis using ct by blast
qed

lemma packet_decode_frame:
  assumes "packet_type_of p \<noteq> ConnectionRequestType" and "s < 2 ^ 64"
    and "replayed rp (packet_type_of p) s = Some False" and "replay_advance rp (packet_type_of p) s = Some rp'"
    and "dencrypted_in_place ae b s k (frame_aad p s protocol_id) = Some (Inr (m @ t))" and "length t = 16"
    and "17 \<le> length b + sequence_bytes_required s"
  shows "packet_decode ae (packet_frame p s b) protocol_id (Some k) rp =
    Some (rtry (conv_err IoError (packet_read (packet_type_of p) m)) (\<lambda>p. Inr (s, p)), rp')"
  using assms
  by (simp add: packet_decode_def packet_frame_def vec_get_def decode_encode_prefix read_sequence_wire
      NETCODE_MAC_BYTES_def usub_def flip: frame_aad_def)

text \<open>A challenge holds the client id and user data it was made for.\<close>

lemma challenge_run:
  assumes "client_id < 2 ^ 64" and "length user_data = 256" and "length k = 32"
  shows "\<exists>data. generate_challenge ae client_id user_data s k = Some (Inr (Challenge s data)) \<and> length data = 300
    \<and> challenge_token_decode ae data s k = Some (Inr \<lparr>cht_client_id = client_id, cht_user_data = user_data\<rparr>)"
proof -
  let ?w = "le_bytes 8 client_id @ user_data"
  have m: "length (?w @ replicate 20 0) < 2 ^ 16" "length (replicate 16 (0::u8)) = 16" using assms(2) by simp_all
  have pad: "replicate 36 (0::u8) = replicate 20 0 @ replicate 16 0" by (simp flip: replicate_add)
  from encrypt_run[OF assms(3) m, of s "[]"] assms(2) obtain c t where
    ct: "encrypt_in_place ae (?w @ replicate 36 0) s k [] = Some (Inr (c @ t))" "length c = 284" "length t = 16"
    "dencrypted_in_place ae (c @ t) s k [] = Some (Inr ((?w @ replicate 20 0) @ t))"
    unfolding pad by auto
  have "generate_challenge ae client_id user_data s k = Some (Inr (Challenge s (c @ t)))"
    using assms(2) ct(1)
    by (simp add: generate_challenge_def challenge_token_new_def challenge_token_write_def write_all_def cursor_new_def
        NETCODE_CHALLENGE_TOKEN_BYTES_def Let_def)
  moreover have "challenge_token_decode ae (c @ t) s k = Some (Inr \<lparr>cht_client_id = client_id, cht_user_data = user_data\<rparr>)"
    using assms(1,2) ct(4)
    by (simp add: challenge_token_decode_def challenge_token_read_def read_simps NETCODE_USER_DATA_BYTES_def)
  ultimately show ?thesis using ct(2,3) by auto
qed

lemma packet_encode_returns:
  assumes "packet_ok p" and "s < 2 ^ 64" and "length k = 32" and "1325 \<le> room"
  shows "\<exists>b. packet_encode ae p room protocol_id (Some (s, k)) = Some (Inr b) \<and> length b \<le> 1325"
proof (cases "packet_type_of p = ConnectionRequestType")
  case True
  then show ?thesis using connection_request_run(1,2)[OF assms(1) True assms(4)] by blast
next
  case False
  from packet_encode_run[OF assms(1) False assms(2,3,4), of protocol_id] show ?thesis
    using length_packet_wire[OF assms(1)] sequence_bytes_bound(1)[OF assms(2)] by (auto simp: packet_frame_def)
qed

end

section \<open>What decoding does with arbitrary bytes\<close>

lemma dencrypted_None_iff: "dencrypted_in_place ae b s k a = None \<longleftrightarrow> length b < 16"
  by (auto simp: dencrypted_in_place_def split_mac_def usub_def NETCODE_MAC_BYTES_def)

lemma dencrypted_length: "dencrypted_in_place ae b s k a = Some (Inr m) \<Longrightarrow> 16 \<le> length m"
  by (auto simp: dencrypted_in_place_def split_mac_def usub_def NETCODE_MAC_BYTES_def bind_eq_Some_conv
      split: option.splits if_splits)

definition rp_size_ok :: "replay_protection option \<Rightarrow> bool" where
  "rp_size_ok rp \<longleftrightarrow> (\<forall>r. rp = Some r \<longrightarrow> length (rp_received_packet r) = 256)"

lemma replay_advance_returns: "rp_size_ok rp \<Longrightarrow> \<exists>rp'. replay_advance rp t s = Some rp' \<and> rp_size_ok rp'"
  by (auto simp: replay_advance_def rp_advance_sequence_def rp_size_ok_def vec_set_def NETCODE_REPLAY_BUFFER_SIZE_def Let_def
      split: option.splits)

lemma replayed_None_iff:
  "rp_size_ok rp \<Longrightarrow> replayed rp t s = None \<longleftrightarrow> rp \<noteq> None \<and> apply_replay_protection t \<and> 2 ^ 64 \<le> s + 256"
  by (auto simp: replayed_def rp_already_received_def rp_size_ok_def uadd_def vec_get_def NETCODE_REPLAY_BUFFER_SIZE_def Let_def
      split: option.splits)

text \<open>The fields of a buffer, by its first byte.\<close>

definition frame_type :: "bytes \<Rightarrow> netcode_error + packet_type" where
  "frame_type b = packet_type_from_u8 (fst (decode_prefix (hd b)))"

definition frame_seq_len :: "bytes \<Rightarrow> usize" where
  "frame_seq_len b = snd (decode_prefix (hd b))"

definition frame_seq :: "bytes \<Rightarrow> u64" where
  "frame_seq b = le_value (take (frame_seq_len b) (tl b))"

definition frame_body :: "bytes \<Rightarrow> bytes" where
  "frame_body b = drop (frame_seq_len b) (tl b)"

lemma packet_decode_fields:
  assumes "18 \<le> length b" and "frame_type b = Inr T" and "T \<noteq> ConnectionRequestType"
  shows "packet_decode ae b protocol_id (Some k) rp =
    (if frame_seq_len b > 8 then None
     else do {
       duplicated \<leftarrow> replayed rp T (frame_seq b);
       if duplicated then Some (Inl DuplicatedSequence, rp)
       else do {
         r \<leftarrow> dencrypted_in_place ae (frame_body b) (frame_seq b) k (packet_additional_data (hd b) protocol_id);
         (case r of
           Inl _ \<Rightarrow> Some (Inl CryptoError, rp)
         | Inr src \<Rightarrow> do {
             rp \<leftarrow> replay_advance rp T (frame_seq b);
             n \<leftarrow> usub (length src) NETCODE_MAC_BYTES;
             Some (rtry (conv_err IoError (packet_read T (take n src))) (\<lambda>p. Inr (frame_seq b, p)), rp)
           })
       }
     })"
proof -
  obtain x bs where b: "b = x # bs" using assms(1) by (cases b) simp_all
  obtain v n where v: "decode_prefix x = (v, n)" by (cases "decode_prefix x")
  have T: "packet_type_from_u8 v = Inr T" using assms(2) by (simp add: frame_type_def b v)
  have "read_sequence bs n = (if n > 8 then None else Some (Inr (le_value (take n bs), drop n bs)))"
    using assms(1) by (auto simp: read_sequence_def rust_assert_def read_exact_def le_value_pad b)
  moreover have f: "frame_seq_len b = n" "frame_seq b = le_value (take n bs)" "frame_body b = drop n bs" "hd b = x"
    by (simp_all add: frame_seq_len_def frame_seq_def frame_body_def b v)
  ultimately show ?thesis
    using assms(1,3) T unfolding f by (simp add: packet_decode_def b v vec_get_def NETCODE_MAC_BYTES_def)
qed

lemma packet_read_type: "packet_read T m = Inr p \<Longrightarrow> packet_type_of p = T"
  by (cases T) (auto simp: rtry_Inr_iff)

text \<open>What reading gives is well formed, but for the size of a payload.\<close>

definition packet_read_ok :: "nc_packet \<Rightarrow> bool" where
  "packet_read_ok p \<longleftrightarrow> (case p of Payload _ \<Rightarrow> True | _ \<Rightarrow> packet_ok p)"

lemma read_bytes_length: "read_bytes n src = Inr (b, src') \<Longrightarrow> length b = n"
  by (auto simp: read_bytes_def read_exact_def split: if_splits)

lemma read_u64_less: "read_u64 src = Inr (v, src') \<Longrightarrow> v < 2 ^ 64"
  using le_value_less[of "take 8 src"] by (auto simp: read_u64_def read_exact_def split: if_splits)

lemma read_u32_less: "read_u32 src = Inr (v, src') \<Longrightarrow> v < 2 ^ 32"
  using le_value_less[of "take 4 src"] by (auto simp: read_u32_def read_exact_def split: if_splits)

lemma packet_read_wf: "packet_read T m = Inr p \<Longrightarrow> packet_read_ok p"
  by (cases T) (auto simp: rtry_Inr_iff packet_read_ok_def netcode_consts
      dest!: read_bytes_length read_u64_less read_u32_less)

lemma packet_read_request:
  "packet_read ConnectionRequestType m = Inr p \<Longrightarrow> packet_type_of p = ConnectionRequestType \<and> packet_ok p"
  using packet_read_type[of ConnectionRequestType m p] packet_read_wf[of ConnectionRequestType m p]
  by (auto simp: packet_read_ok_def simp del: packet_read.simps split: nc_packet.splits)

text \<open>Buffers on which decoding does not panic.\<close>

definition buffer_ok :: "bytes \<Rightarrow> bool" where
  "buffer_ok b \<longleftrightarrow> length b < 18 \<or> frame_seq_len b \<le> 8 \<and> 17 + frame_seq_len b \<le> length b \<and> frame_seq b + 256 < 2 ^ 64"

lemma replay_advance_size:
  "replay_advance (Some rp) T s = Some rp' \<Longrightarrow> length (rp_received_packet rp) = 256 \<Longrightarrow>
    \<exists>r. rp' = Some r \<and> length (rp_received_packet r) = 256"
  by (auto simp: replay_advance_def rp_advance_sequence_def vec_set_def Let_def split: if_splits)

lemma packet_decode_returns:
  assumes "buffer_ok b" and "length (rp_received_packet rp) = 256"
  shows "\<exists>r rp'. packet_decode ae b protocol_id key (Some rp) = Some (r, Some rp')
    \<and> length (rp_received_packet rp') = 256 \<and> (\<forall>n p. r = Inr (n, p) \<longrightarrow> packet_read_ok p)"
proof (cases "18 \<le> length b \<and> key \<noteq> None \<and> (\<exists>T. frame_type b = Inr T \<and> T \<noteq> ConnectionRequestType)")
  case False
  then show ?thesis using assms(2)
    by (cases b; cases key)
      (auto simp: packet_decode_def NETCODE_MAC_BYTES_def vec_get_def frame_type_def case_prod_unfold Let_def rtry_Inr_iff
        simp del: packet_read.simps dest!: packet_read_wf split: sum.splits)
next
  case True
  then obtain T k where T: "frame_type b = Inr T" "T \<noteq> ConnectionRequestType" and k: "key = Some k"
    and b: "18 \<le> length b" by auto
  let ?s = "frame_seq b" and ?aad = "packet_additional_data (hd b) protocol_id"
  have bok: "frame_seq_len b \<le> 8" "17 + frame_seq_len b \<le> length b" "?s + 256 < 2 ^ 64"
    using assms(1) b by (auto simp: buffer_ok_def)
  have size: "rp_size_ok (Some rp)" using assms(2) by (simp add: rp_size_ok_def)
  obtain dup where dup: "replayed (Some rp) T ?s = Some dup"
    using replayed_None_iff[OF size, of T ?s] bok(3) by auto
  have "length (frame_body b) \<ge> 16" using bok(2) b by (simp add: frame_body_def)
  then obtain d where d: "dencrypted_in_place ae (frame_body b) ?s k ?aad = Some d"
    using dencrypted_None_iff[of ae "frame_body b" ?s k ?aad] by (metis not_None_eq not_le)
  obtain rp' where rp': "replay_advance (Some rp) T ?s = Some (Some rp')" "length (rp_received_packet rp') = 256"
    using replay_advance_returns[OF size, of T ?s] replay_advance_size[OF _ assms(2)] by metis
  show ?thesis
  proof (cases d)
    case (Inl e)
    then show ?thesis using dup d assms(2) bok(1) k by (cases dup) (simp_all add: packet_decode_fields[OF b T])
  next
    case (Inr src)
    then have "16 \<le> length src" using d by (auto dest: dencrypted_length)
    then show ?thesis using dup d Inr rp' assms(2) bok(1) k
      by (cases dup) (auto simp: packet_decode_fields[OF b T] usub_def NETCODE_MAC_BYTES_def rtry_Inr_iff
          dest!: packet_read_wf)
  qed
qed

text \<open>Without a key only connection requests are accepted.\<close>

lemma packet_decode_no_key:
  "\<exists>r. packet_decode ae b protocol_id None None = Some (r, None)
    \<and> (\<forall>n p. r = Inr (n, p) \<longrightarrow> packet_type_of p = ConnectionRequestType \<and> packet_ok p)"
  by (cases b)
    (auto simp: packet_decode_def NETCODE_MAC_BYTES_def vec_get_def case_prod_unfold Let_def rtry_Inr_iff
      simp del: packet_read.simps dest: packet_read_request split: sum.splits)

section \<open>Properties\<close>

text \<open>C25. The number of bytes of a sequence number, found by a mask that moves down a byte at a time, is
  the least number of bytes that holds it.\<close>

theorem sequence_bytes_required_least:
  assumes "s < 2 ^ 64"
  shows "sequence_bytes_required s = (LEAST n. s < 256 ^ n)"
  by (rule sequence_bytes_least[OF assms])

theorem sequence_bytes_required_least_witness:
  "(2 ^ 40 :: nat) < 2 ^ 64 \<and> sequence_bytes_required (2 ^ 40) = (LEAST n. (2 ^ 40 :: nat) < 256 ^ n)"
  using sequence_bytes_required_least[of "2 ^ 40"] by simp

text \<open>C26. Every packet whose payload is within the limit is encoded into at most 1325 bytes, so it fits
  the buffer of 1400 bytes, and decoding the result under the same key and protocol, with a
  replay protection that has not seen its sequence number, gives the packet and the
  sequence number back, and advances the replay protection. The exception is a packet of no
  body sent with the sequence number 0: it is one byte shorter than \<open>decode\<close> accepts.\<close>

theorem packet_encode_decode:
  assumes "aead_contract ae" and "packet_ok p" and "s < 2 ^ 64" and "length k = 32" and "1325 \<le> room"
    and "replayed rp (packet_type_of p) s = Some False" and "replay_advance rp (packet_type_of p) s = Some rp'"
  shows "\<exists>b. packet_encode ae p room protocol_id (Some (s, k)) = Some (Inr b) \<and> length b \<le> 1325
    \<and> packet_decode ae b protocol_id (Some k) rp =
       (if packet_type_of p = ConnectionRequestType then Some (Inr (0, p), rp)
        else if s = 0 \<and> p \<in> {ConnectionDenied, DisconnectPacket, Payload []} then Some (Inl PacketTooSmall, rp)
        else Some (Inr (s, p), rp'))"
proof (cases "packet_type_of p = ConnectionRequestType")
  case True
  then show ?thesis using connection_request_run[OF assms(2) True assms(5)] by auto
next
  case False
  from aead_contract.packet_encode_run[OF assms(1,2) False assms(3,4,5), of protocol_id] obtain c t where
    ct: "packet_encode ae p room protocol_id (Some (s, k)) = Some (Inr (packet_frame p s (c @ t)))"
    "length c = length (packet_wire p)" "length t = 16"
    "dencrypted_in_place ae (c @ t) s k (frame_aad p s protocol_id) = Some (Inr (packet_wire p @ t))" by blast
  let ?n = "sequence_bytes_required s" and ?b = "packet_frame p s (c @ t)"
  have len: "length ?b = 17 + ?n + length (packet_wire p)" using ct by (simp add: packet_frame_def)
  have bound: "length ?b \<le> 1325"
    using len length_packet_wire[OF assms(2)] sequence_bytes_bound(1)[OF assms(3)] by simp
  have short: "?n + length (packet_wire p) = 0 \<longleftrightarrow> s = 0 \<and> p \<in> {ConnectionDenied, DisconnectPacket, Payload []}"
    using sequence_bytes_zero[OF assms(3)] assms(2) False by (cases p) auto
  show ?thesis
  proof (cases "?n + length (packet_wire p) = 0")
    case True
    then have "packet_decode ae ?b protocol_id (Some k) rp = Some (Inl PacketTooSmall, rp)"
      using len by (simp add: packet_decode_def NETCODE_MAC_BYTES_def)
    then show ?thesis using ct(1) bound True short False by simp
  next
    case n: False
    have "packet_decode ae ?b protocol_id (Some k) rp = Some (Inr (s, p), rp')"
      using aead_contract.packet_decode_frame[OF assms(1) False assms(3,6,7) ct(4,3)] n ct(2,3)
      by (simp add: packet_read_wire[OF assms(2)])
    then show ?thesis using ct(1) bound n short False by auto
  qed
qed

theorem packet_encode_decode_witness:
  "\<exists>b. packet_encode chacha20poly1305 (KeepAlive 3 64) 1400 7 (Some (300, replicate 32 1)) = Some (Inr b)
    \<and> length b \<le> 1325
    \<and> packet_decode chacha20poly1305 b 7 (Some (replicate 32 1)) None = Some (Inr (300, KeepAlive 3 64), None)"
  using packet_encode_decode[OF chacha.aead_contract_axioms, of "KeepAlive 3 64" 300 "replicate 32 1" 1400 None None 7]
  by (simp add: replayed_def replay_advance_def)

text \<open>C27. Decoding panics on exactly these buffers: at least 18 bytes of a type that is encrypted,
  with a key at hand, whose prefix claims more than eight bytes of sequence number, or whose
  sequence number is within 256 of the end of the range and is checked for replay, or which are
  not refused as a replay and leave less than a tag after the sequence number. None of this is
  authenticated, so anyone who can send a datagram can choose such a buffer.\<close>

theorem decode_panics_iff:
  assumes "rp_size_ok rp"
  shows "packet_decode ae b protocol_id key rp = None \<longleftrightarrow>
    18 \<le> length b \<and> key \<noteq> None \<and>
    (\<exists>T. frame_type b = Inr T \<and> T \<noteq> ConnectionRequestType \<and>
      (8 < frame_seq_len b
       \<or> rp \<noteq> None \<and> apply_replay_protection T \<and> 2 ^ 64 \<le> frame_seq b + 256
       \<or> replayed rp T (frame_seq b) \<noteq> Some True \<and> length b < 17 + frame_seq_len b))"
proof (cases "18 \<le> length b \<and> key \<noteq> None \<and> (\<exists>T. frame_type b = Inr T \<and> T \<noteq> ConnectionRequestType)")
  case True
  then obtain T k where T: "frame_type b = Inr T" "T \<noteq> ConnectionRequestType" and k: "key = Some k"
    and b: "18 \<le> length b" by auto
  let ?s = "frame_seq b" and ?n = "frame_seq_len b"
  have body: "length (frame_body b) < 16 \<longleftrightarrow> length b < 17 + ?n" using b by (auto simp: frame_body_def)
  have late: "(case r of Inl _ \<Rightarrow> Some (Inl CryptoError, rp)
         | Inr src \<Rightarrow> do {
             rp \<leftarrow> replay_advance rp T ?s;
             n \<leftarrow> usub (length src) NETCODE_MAC_BYTES;
             Some (rtry (conv_err IoError (packet_read T (take n src))) (\<lambda>p. Inr (?s, p)), rp)
           }) \<noteq> None"
    if "dencrypted_in_place ae (frame_body b) ?s k (packet_additional_data (hd b) protocol_id) = Some r" for r
    using replay_advance_returns[OF assms, of T ?s] that dencrypted_length[of ae "frame_body b" ?s k]
    by (cases r) (auto simp: usub_def NETCODE_MAC_BYTES_def)
  show ?thesis
  proof (cases "replayed rp T ?s")
    case None
    then show ?thesis using b k T replayed_None_iff[OF assms, of T ?s] by (auto simp: packet_decode_fields)
  next
    case (Some d)
    then show ?thesis
      using b k T body late replayed_None_iff[OF assms, of T ?s]
        dencrypted_None_iff[of ae "frame_body b" ?s k "packet_additional_data (hd b) protocol_id"]
      by (cases "dencrypted_in_place ae (frame_body b) ?s k (packet_additional_data (hd b) protocol_id)")
        (auto simp: packet_decode_fields)
  qed
next
  case False
  then show ?thesis
    by (cases b; cases key)
      (auto simp: packet_decode_def NETCODE_MAC_BYTES_def vec_get_def frame_type_def case_prod_unfold Let_def
        split: sum.splits)
qed

theorem decode_panics_iff_witness:
  "packet_decode chacha20poly1305 (0x95 # replicate 17 0) 7 (Some (replicate 32 1)) (Some rp_new) = None"
  using decode_panics_iff[of "Some rp_new" chacha20poly1305 "0x95 # replicate 17 0" 7 "Some (replicate 32 1)"]
  by (simp add: rp_size_ok_def rp_new_def NETCODE_REPLAY_BUFFER_SIZE_def frame_type_def frame_seq_len_def
      decode_prefix_def packet_type_from_u8_def)

text \<open>C28. A packet that is accepted, a connection request apart, was encrypted under the key with its
  sequence number as the nonce, and with its prefix and the protocol id as additional data;
  replay protection had not seen the number, and has it now.\<close>

theorem decode_authentic:
  assumes "aead_contract ae" and "packet_decode ae b protocol_id (Some k) rp = Some (Inr (s, p), rp')"
    and "packet_type_of p \<noteq> ConnectionRequestType"
  shows "s = frame_seq b \<and> replayed rp (packet_type_of p) s = Some False
    \<and> replay_advance rp (packet_type_of p) s = Some rp'
    \<and> (\<exists>m c t. frame_body b = c @ t \<and> length t = 16 \<and> packet_read (packet_type_of p) m = Inr p
        \<and> aead_encrypt ae k (sequence_nonce s) (packet_additional_data (hd b) protocol_id) m = Some (c, t))"
proof -
  have b: "18 \<le> length b"
    using assms(2) by (auto simp: packet_decode_def NETCODE_MAC_BYTES_def split: if_splits)
  moreover obtain T where T: "frame_type b = Inr T" "T \<noteq> ConnectionRequestType"
  proof (cases "frame_type b")
    case (Inl e)
    then show ?thesis using assms(2) b
      by (cases b) (auto simp: packet_decode_def NETCODE_MAC_BYTES_def vec_get_def frame_type_def case_prod_unfold Let_def split: sum.splits)
  next
    case (Inr T)
    have False if "T = ConnectionRequestType"
      using assms(2,3) b Inr that
      by (cases b) (auto simp: packet_decode_def NETCODE_MAC_BYTES_def vec_get_def frame_type_def rtry_Inr_iff case_prod_unfold Let_def
          simp del: packet_read.simps dest: packet_read_type split: sum.splits)
    with Inr show ?thesis using that by blast
  qed
  note run = assms(2)[unfolded packet_decode_fields[OF b T]]
  obtain d where r1: "replayed rp T (frame_seq b) = Some False"
    "dencrypted_in_place ae (frame_body b) (frame_seq b) k (packet_additional_data (hd b) protocol_id) = Some d"
    using run by (auto simp: bind_eq_Some_conv split: if_split_asm)
  then obtain src where r2: "d = Inr src" using run by (cases d) (auto split: if_split_asm)
  from run r1 r2 obtain n where r: "replay_advance rp T (frame_seq b) = Some rp'"
    "usub (length src) NETCODE_MAC_BYTES = Some n" "packet_read T (take n src) = Inr p" "s = frame_seq b"
    by (auto simp: bind_eq_Some_conv rtry_Inr_iff split: if_split_asm)
  have "16 \<le> length (frame_body b)" using r1(2) dencrypted_None_iff[of ae "frame_body b"] by (metis not_le option.distinct(1))
  from aead_contract.decrypt_run[OF assms(1) this, of "frame_seq b" k "packet_additional_data (hd b) protocol_id"] r1(2) r2
  obtain c t m where m: "frame_body b = c @ t" "length t = 16" "src = m @ t"
    "aead_encrypt ae k (sequence_nonce (frame_seq b)) (packet_additional_data (hd b) protocol_id) m = Some (c, t)" by auto
  have "take n src = m" using r(2) m(2,3) by (simp add: usub_def NETCODE_MAC_BYTES_def split: if_splits)
  moreover have "packet_type_of p = T" by (rule packet_read_type[OF r(3)])
  ultimately show ?thesis using r r1 m by blast
qed

theorem decode_authentic_witness:
  "\<exists>b. packet_decode chacha20poly1305 b 7 (Some (replicate 32 1)) None = Some (Inr (300, KeepAlive 3 64), None)
    \<and> frame_seq b = 300
    \<and> (\<exists>m c t. frame_body b = c @ t \<and> length t = 16 \<and> packet_read KeepAliveType m = Inr (KeepAlive 3 64)
        \<and> aead_encrypt chacha20poly1305 (replicate 32 1) (sequence_nonce 300) (packet_additional_data (hd b) 7) m
          = Some (c, t))"
proof -
  from chacha.packet_encode_run[of "KeepAlive 3 64" 300 "replicate 32 1" 1400 7] obtain c t where
    ct: "length c = 8" "length t = 16"
    "dencrypted_in_place chacha20poly1305 (c @ t) 300 (replicate 32 1) (frame_aad (KeepAlive 3 64) 300 7)
      = Some (Inr (packet_wire (KeepAlive 3 64) @ t))" by auto
  let ?b = "packet_frame (KeepAlive 3 64) 300 (c @ t)"
  have "packet_decode chacha20poly1305 ?b 7 (Some (replicate 32 1)) None = Some (Inr (300, KeepAlive 3 64), None)"
    using chacha.packet_decode_frame[of "KeepAlive 3 64" 300 None None, OF _ _ _ _ ct(3,2)] ct(1,2)
      packet_read_wire[of "KeepAlive 3 64"] by (simp add: replayed_def replay_advance_def del: packet_read.simps)
  from this decode_authentic[OF chacha.aead_contract_axioms this] show ?thesis
    by (intro exI[of _ ?b]) (simp del: packet_read.simps)
qed

end
