(* ===== verification/NetcodeClient.thy ===== *)
theory NetcodeClient
  imports NetcodePacket
begin

text \<open>
  The client of the netcode protocol, \<open>src/renetcode/src/client.rs\<close>. Its scratch buffer \<open>out\<close> is
  not part of the state: every operation that encodes a packet overwrites the part of it that
  it returns. Random bytes are arguments of \<open>ncl_new\<close>.
\<close>

section \<open>State\<close>

datatype client_state =
    ClientDisconnectedFor netcode_disconnect_reason
  | SendingConnectionRequest
  | SendingConnectionResponse
  | ClientIsConnected

datatype client_authentication =
    ClientSecure connect_token
  | ClientUnsecure u64 u64 socket_addr "bytes option"

record netcode_client =
  ncl_state :: client_state
  ncl_client_id :: u64
  ncl_connect_start_time :: duration
  ncl_last_packet_send_time :: "duration option"
  ncl_last_packet_received_time :: duration
  ncl_current_time :: duration
  ncl_sequence :: u64
  ncl_server_addr :: socket_addr
  ncl_server_addr_index :: usize
  ncl_connect_token :: connect_token
  ncl_challenge_token_sequence :: u64
  ncl_challenge_token_data :: bytes
  ncl_max_clients :: nat
  ncl_client_index :: nat
  ncl_send_rate :: duration
  ncl_replay_protection :: replay_protection

section \<open>Operations\<close>

definition ncl_new ::
    "aead_api \<Rightarrow> bytes \<Rightarrow> bytes \<Rightarrow> bytes \<Rightarrow> bytes \<Rightarrow> duration \<Rightarrow> client_authentication
     \<Rightarrow> (netcode_error + netcode_client) option" where
  "ncl_new ae key1 key2 random_data xnonce current_time authentication =
     ptry (case authentication of
         ClientUnsecure protocol_id client_id server_addr user_data \<Rightarrow>
           map_option (conv_err TokenError) (ct_generate ae key1 key2 random_data xnonce current_time protocol_id 300
             client_id 15 [server_addr] user_data (replicate NETCODE_KEY_BYTES 0))
       | ClientSecure connect_token \<Rightarrow> Some (Inr connect_token)) (\<lambda>connect_token. do {
     first \<leftarrow> vec_get (ct_server_addresses connect_token) 0;
     server_addr \<leftarrow> first;
     Some (Inr \<lparr>ncl_state = SendingConnectionRequest, ncl_client_id = ct_client_id connect_token,
       ncl_connect_start_time = current_time, ncl_last_packet_send_time = None,
       ncl_last_packet_received_time = current_time, ncl_current_time = current_time, ncl_sequence = 0,
       ncl_server_addr = server_addr, ncl_server_addr_index = 0, ncl_connect_token = connect_token,
       ncl_challenge_token_sequence = 0,
       ncl_challenge_token_data = replicate NETCODE_CHALLENGE_TOKEN_BYTES 0, ncl_max_clients = 0,
       ncl_client_index = 0, ncl_send_rate = NETCODE_SEND_RATE, ncl_replay_protection = rp_new\<rparr>)
   })"

definition ncl_is_connecting :: "netcode_client \<Rightarrow> bool" where
  "ncl_is_connecting c \<longleftrightarrow> ncl_state c = SendingConnectionRequest \<or> ncl_state c = SendingConnectionResponse"

definition ncl_is_connected :: "netcode_client \<Rightarrow> bool" where
  "ncl_is_connected c \<longleftrightarrow> ncl_state c = ClientIsConnected"

definition ncl_is_disconnected :: "netcode_client \<Rightarrow> bool" where
  "ncl_is_disconnected c \<longleftrightarrow> (case ncl_state c of ClientDisconnectedFor _ \<Rightarrow> True | _ \<Rightarrow> False)"

definition ncl_time_since_last_received_packet :: "netcode_client \<Rightarrow> duration option" where
  "ncl_time_since_last_received_packet c = dsub (ncl_current_time c) (ncl_last_packet_received_time c)"

definition ncl_disconnect_reason :: "netcode_client \<Rightarrow> netcode_disconnect_reason option" where
  "ncl_disconnect_reason c = (case ncl_state c of ClientDisconnectedFor reason \<Rightarrow> Some reason | _ \<Rightarrow> None)"

text \<open>\<open>packet.encode(&mut self.out, protocol_id, Some((self.sequence, client_to_server_key)))\<close>\<close>

definition ncl_encode :: "aead_api \<Rightarrow> netcode_client \<Rightarrow> nc_packet \<Rightarrow> (netcode_error + bytes) option" where
  "ncl_encode ae c packet =
     packet_encode ae packet NETCODE_MAX_PACKET_BYTES (ct_protocol_id (ncl_connect_token c))
       (Some (ncl_sequence c, ct_client_to_server_key (ncl_connect_token c)))"

definition ncl_disconnect ::
    "aead_api \<Rightarrow> netcode_client \<Rightarrow> ((netcode_error + socket_addr \<times> bytes) \<times> netcode_client) option" where
  "ncl_disconnect ae c = do {
     let c = c\<lparr>ncl_state := ClientDisconnectedFor ClosedByClient\<rparr>;
     r \<leftarrow> ncl_encode ae c DisconnectPacket;
     Some (rtry r (\<lambda>out. Inr (ncl_server_addr c, out)), c)
   }"

definition ncl_process_packet ::
    "aead_api \<Rightarrow> netcode_client \<Rightarrow> bytes \<Rightarrow> (bytes option \<times> netcode_client) option" where
  "ncl_process_packet ae c buffer = do {
     (r, rp) \<leftarrow> packet_decode ae buffer (ct_protocol_id (ncl_connect_token c))
       (Some (ct_server_to_client_key (ncl_connect_token c))) (Some (ncl_replay_protection c));
     rp \<leftarrow> rp;
     let c = c\<lparr>ncl_replay_protection := rp\<rparr>;
     Some (case r of
         Inl e \<Rightarrow> (None, c)
       | Inr (_, packet) \<Rightarrow>
           (case packet of
             ConnectionDenied \<Rightarrow>
               if ncl_state c = SendingConnectionRequest \<or> ncl_state c = SendingConnectionResponse then
                 (None, c\<lparr>ncl_state := ClientDisconnectedFor DeniedByServer,
                   ncl_last_packet_received_time := ncl_current_time c\<rparr>)
               else (None, c)
           | Challenge token_sequence token_data \<Rightarrow>
               if ncl_state c = SendingConnectionRequest then
                 (None, c\<lparr>ncl_challenge_token_sequence := token_sequence,
                   ncl_last_packet_received_time := ncl_current_time c,
                   ncl_last_packet_send_time := None, ncl_challenge_token_data := token_data,
                   ncl_state := SendingConnectionResponse\<rparr>)
               else (None, c)
           | KeepAlive client_index max_clients \<Rightarrow>
               if ncl_state c = ClientIsConnected then
                 (None, c\<lparr>ncl_last_packet_received_time := ncl_current_time c\<rparr>)
               else if ncl_state c = SendingConnectionResponse then
                 (None, c\<lparr>ncl_last_packet_received_time := ncl_current_time c,
                   ncl_max_clients := max_clients, ncl_client_index := client_index,
                   ncl_state := ClientIsConnected\<rparr>)
               else (None, c)
           | Payload p \<Rightarrow>
               if ncl_state c = ClientIsConnected then
                 (Some p, c\<lparr>ncl_last_packet_received_time := ncl_current_time c\<rparr>)
               else (None, c)
           | DisconnectPacket \<Rightarrow>
               if ncl_state c = ClientIsConnected then
                 (None, c\<lparr>ncl_state := ClientDisconnectedFor ClosedByServer,
                   ncl_last_packet_received_time := ncl_current_time c\<rparr>)
               else (None, c)
           | _ \<Rightarrow> (None, c)))
   }"

definition ncl_generate_payload_packet ::
    "aead_api \<Rightarrow> netcode_client \<Rightarrow> bytes
     \<Rightarrow> ((netcode_error + socket_addr \<times> bytes) \<times> netcode_client) option" where
  "ncl_generate_payload_packet ae c payload =
     (if length payload > NETCODE_MAX_PAYLOAD_BYTES then Some (Inl PayloadAboveLimit, c)
      else if ncl_state c \<noteq> ClientIsConnected then Some (Inl ClientNotConnected, c)
      else do {
        r \<leftarrow> ncl_encode ae c (Payload payload);
        (case r of
          Inl e \<Rightarrow> Some (Inl e, c)
        | Inr out \<Rightarrow> do {
            sequence \<leftarrow> uadd (ncl_sequence c) 1;
            Some (Inr (ncl_server_addr c, out),
              c\<lparr>ncl_sequence := sequence, ncl_last_packet_send_time := Some (ncl_current_time c)\<rparr>)
          })
      })"

text \<open>The switch to the next address of the token after a timeout.\<close>

definition ncl_next_server :: "netcode_client \<Rightarrow> ((netcode_error + unit) \<times> netcode_client) option" where
  "ncl_next_server c = do {
     let reason = (if ncl_state c = SendingConnectionResponse then ConnectionResponseTimedOut
       else ConnectionRequestTimedOut);
     index \<leftarrow> uadd (ncl_server_addr_index c) 1;
     let c = c\<lparr>ncl_state := ClientDisconnectedFor reason, ncl_server_addr_index := index\<rparr>;
     if index \<ge> 32 then Some (Inl NoMoreServers, c)
     else do {
       address \<leftarrow> vec_get (ct_server_addresses (ncl_connect_token c)) index;
       (case address of
         None \<Rightarrow> Some (Inl NoMoreServers, c)
       | Some server_address \<Rightarrow>
           Some (Inr (), c\<lparr>ncl_state := SendingConnectionRequest, ncl_server_addr := server_address,
             ncl_connect_start_time := ncl_current_time c, ncl_last_packet_send_time := None,
             ncl_last_packet_received_time := ncl_current_time c, ncl_challenge_token_sequence := 0\<rparr>))
     }
   }"

definition ncl_update_internal_state ::
    "netcode_client \<Rightarrow> duration \<Rightarrow> ((netcode_error + unit) \<times> netcode_client) option" where
  "ncl_update_internal_state c elapsed = do {
     now \<leftarrow> dadd (ncl_current_time c) elapsed;
     let c = c\<lparr>ncl_current_time := now\<rparr>;
     connection_timed_out \<leftarrow>
       (if ct_timeout_seconds (ncl_connect_token c) > 0 then do {
          limit \<leftarrow> dadd (ncl_last_packet_received_time c) (from_secs (nat (ct_timeout_seconds (ncl_connect_token c))));
          Some (limit < ncl_current_time c)
        } else Some False);
     (case ncl_state c of
       ClientDisconnectedFor reason \<Rightarrow> Some (Inl (NotConnected reason), c)
     | ClientIsConnected \<Rightarrow>
         if connection_timed_out then
           Some (Inl (NotConnected ConnectionTimedOut), c\<lparr>ncl_state := ClientDisconnectedFor ConnectionTimedOut\<rparr>)
         else Some (Inr (), c)
     | _ \<Rightarrow> do {
         expire_seconds \<leftarrow> usub (ct_expire_timestamp (ncl_connect_token c)) (ct_create_timestamp (ncl_connect_token c));
         since_start \<leftarrow> dsub (ncl_current_time c) (ncl_connect_start_time c);
         if as_secs since_start \<ge> expire_seconds then
           Some (Inl Expired, c\<lparr>ncl_state := ClientDisconnectedFor ConnectTokenExpired\<rparr>)
         else if connection_timed_out then ncl_next_server c
         else Some (Inr (), c)
       })
   }"

text \<open>The packet for the current state.\<close>

definition ncl_packet :: "netcode_client \<Rightarrow> nc_packet option" where
  "ncl_packet c =
     (case ncl_state c of
        SendingConnectionRequest \<Rightarrow> Some (connection_request_from_token (ncl_connect_token c))
      | SendingConnectionResponse \<Rightarrow> Some (Response (ncl_challenge_token_sequence c) (ncl_challenge_token_data c))
      | ClientIsConnected \<Rightarrow> Some (KeepAlive 0 0)
      | ClientDisconnectedFor _ \<Rightarrow> None)"

definition ncl_generate_packet ::
    "aead_api \<Rightarrow> netcode_client \<Rightarrow> ((bytes \<times> socket_addr) option \<times> netcode_client) option" where
  "ncl_generate_packet ae c = do {
     wait \<leftarrow> (case ncl_last_packet_send_time c of
         Some last_packet_send_time \<Rightarrow> do {
           since \<leftarrow> dsub (ncl_current_time c) last_packet_send_time;
           Some (since < ncl_send_rate c)
         }
       | None \<Rightarrow> Some False);
     if wait then Some (None, c)
     else do {
       let c = (if ncl_state c = ClientIsConnected \<or> ncl_state c = SendingConnectionRequest
           \<or> ncl_state c = SendingConnectionResponse
         then c\<lparr>ncl_last_packet_send_time := Some (ncl_current_time c)\<rparr> else c);
       (case ncl_packet c of
         None \<Rightarrow> Some (None, c)
       | Some packet \<Rightarrow> do {
           r \<leftarrow> ncl_encode ae c packet;
           (case r of
             Inl _ \<Rightarrow> Some (None, c)
           | Inr encoded \<Rightarrow> do {
               sequence \<leftarrow> uadd (ncl_sequence c) 1;
               let c = c\<lparr>ncl_sequence := sequence\<rparr>;
               Some (Some (encoded, ncl_server_addr c), c)
             })
         })
     }
   }"

definition ncl_update ::
    "aead_api \<Rightarrow> netcode_client \<Rightarrow> duration \<Rightarrow> ((bytes \<times> socket_addr) option \<times> netcode_client) option" where
  "ncl_update ae c elapsed = do {
     (r, c) \<leftarrow> ncl_update_internal_state c elapsed;
     (case r of
       Inl _ \<Rightarrow> Some (None, c)
     | Inr _ \<Rightarrow> ncl_generate_packet ae c)
   }"

section \<open>Runs\<close>

datatype ncl_op =
    NclUpdate duration
  | NclPayload bytes
  | NclProcess bytes
  | NclDisconnect

text \<open>The datagrams that an operation hands out.\<close>

fun ncl_exec :: "aead_api \<Rightarrow> netcode_client \<Rightarrow> ncl_op \<Rightarrow> (bytes list \<times> netcode_client) option" where
  "ncl_exec ae c (NclUpdate d) = do {
     (r, c) \<leftarrow> ncl_update ae c d;
     Some (case r of None \<Rightarrow> [] | Some (b, _) \<Rightarrow> [b], c)
   }"
| "ncl_exec ae c (NclPayload p) = do {
     (r, c) \<leftarrow> ncl_generate_payload_packet ae c p;
     Some (case r of Inl _ \<Rightarrow> [] | Inr (_, b) \<Rightarrow> [b], c)
   }"
| "ncl_exec ae c (NclProcess b) = do {
     (_, c) \<leftarrow> ncl_process_packet ae c b;
     Some ([], c)
   }"
| "ncl_exec ae c NclDisconnect = do {
     (r, c) \<leftarrow> ncl_disconnect ae c;
     Some (case r of Inl _ \<Rightarrow> [] | Inr (_, b) \<Rightarrow> [b], c)
   }"

fun ncl_run :: "aead_api \<Rightarrow> netcode_client \<Rightarrow> ncl_op list \<Rightarrow> (bytes list \<times> netcode_client) option" where
  "ncl_run ae c [] = Some ([], c)"
| "ncl_run ae c (op # ops) = do {
     (bs, c) \<leftarrow> ncl_exec ae c op;
     (cs, c) \<leftarrow> ncl_run ae c ops;
     Some (bs @ cs, c)
   }"

section \<open>Sequence numbers\<close>

definition encrypted :: "bytes \<Rightarrow> bool" where
  "encrypted b \<longleftrightarrow> frame_type b \<noteq> Inr ConnectionRequestType"

lemma packet_encode_seq:
  assumes "packet_encode ae p 1400 protocol_id (Some (s, k)) = Some (Inr b)" and "s < 2 ^ 64"
    and "packet_type_of p \<noteq> ConnectionRequestType"
  shows "frame_seq b = s"
proof -
  have n: "sequence_bytes_required s \<le> 8" "s < 256 ^ sequence_bytes_required s"
    using sequence_bytes_bound[OF assms(2)] by auto
  from assms(1,3) obtain body where "b = packet_frame p s body"
    using n(1)
    by (auto simp: packet_encode_def packet_write_wire write_all_def cursor_new_def write_sequence_def write_some_def
        take_le_bytes Let_def packet_frame_def ptry_def bind_eq_Some_conv rtry_Inr_iff split: if_split_asm)
  then show ?thesis
    using n by (simp add: packet_frame_def frame_seq_def frame_seq_len_def decode_encode_prefix[OF assms(2)] le_value_le_bytes)
qed

lemma connection_request_plain:
  assumes "packet_encode ae p room protocol_id info = Some (Inr b)" and "packet_type_of p = ConnectionRequestType"
  shows "\<not> encrypted b"
proof -
  from assms obtain w where "b = encode_prefix (packet_id p) 0 # w"
    by (auto simp: packet_encode_def packet_write_wire write_all_def cursor_new_def Let_def split: if_split_asm)
  then show ?thesis using assms(2) decode_encode_prefix[of 0 p] by (simp add: encrypted_def frame_type_def)
qed

lemma ncl_encode_seq:
  assumes "ncl_encode ae c p = Some (Inr b)" and "ncl_sequence c < 2 ^ 64"
  shows "encrypted b \<longrightarrow> frame_seq b = ncl_sequence c"
  using assms packet_encode_seq[of ae p] connection_request_plain[of ae p]
  by (cases "packet_type_of p = ConnectionRequestType") (auto simp: ncl_encode_def NETCODE_MAX_PACKET_BYTES_def)

lemma ncl_encode_cong:
  "ncl_connect_token c' = ncl_connect_token c \<Longrightarrow> ncl_sequence c' = ncl_sequence c \<Longrightarrow> ncl_encode ae c' p = ncl_encode ae c p"
  by (simp add: ncl_encode_def)

text \<open>What an operation does to the token, the sequence number and the state, with the datagrams it
  hands out.\<close>

definition ncl_step :: "aead_api \<Rightarrow> netcode_client \<Rightarrow> bytes list \<Rightarrow> netcode_client \<Rightarrow> bool" where
  "ncl_step ae c bs c' \<longleftrightarrow> ncl_connect_token c' = ncl_connect_token c
     \<and> (ncl_is_disconnected c \<longrightarrow> ncl_is_disconnected c')
     \<and> (bs = [] \<and> ncl_sequence c' = ncl_sequence c
        \<or> (\<exists>b p. bs = [b] \<and> ncl_encode ae c p = Some (Inr b) \<and> \<not> ncl_is_disconnected c
             \<and> ncl_sequence c' = ncl_sequence c + 1 \<and> ncl_sequence c' < 2 ^ 64)
        \<or> (\<exists>b. bs = [b] \<and> ncl_encode ae c DisconnectPacket = Some (Inr b) \<and> ncl_is_disconnected c'
             \<and> ncl_sequence c' = ncl_sequence c))"

lemma next_server_keeps:
  "ncl_next_server c = Some (r, c') \<Longrightarrow> ncl_connect_token c' = ncl_connect_token c \<and> ncl_sequence c' = ncl_sequence c"
  by (auto simp: ncl_next_server_def bind_eq_Some_conv Let_def split: option.splits if_splits)

lemma update_internal_keeps:
  assumes "ncl_update_internal_state c d = Some (r, c')"
  shows "ncl_connect_token c' = ncl_connect_token c \<and> ncl_sequence c' = ncl_sequence c
    \<and> (ncl_is_disconnected c \<longrightarrow> ncl_is_disconnected c' \<and> r \<noteq> Inr ())"
proof (cases "ncl_state c")
  case (ClientDisconnectedFor reason)
  then show ?thesis using assms
    by (auto simp: ncl_update_internal_state_def bind_eq_Some_conv Let_def ncl_is_disconnected_def split: if_splits)
qed (use assms in \<open>auto simp: ncl_update_internal_state_def bind_eq_Some_conv Let_def ncl_is_disconnected_def
  dest!: next_server_keeps split: if_splits\<close>)

lemma generate_packet_step:
  assumes "ncl_generate_packet ae c = Some (r, c')"
  shows "ncl_step ae c (case r of None \<Rightarrow> [] | Some (b, _) \<Rightarrow> [b]) c'"
proof -
  define c1 where "c1 = (if ncl_state c = ClientIsConnected \<or> ncl_state c = SendingConnectionRequest
           \<or> ncl_state c = SendingConnectionResponse
         then c\<lparr>ncl_last_packet_send_time := Some (ncl_current_time c)\<rparr> else c)"
  have same: "ncl_connect_token c1 = ncl_connect_token c" "ncl_sequence c1 = ncl_sequence c" "ncl_state c1 = ncl_state c"
    by (simp_all add: c1_def)
  from assms[unfolded ncl_generate_packet_def Let_def, folded c1_def]
  consider "r = None" "c' = c" | "(case ncl_packet c1 of
         None \<Rightarrow> Some (None, c1)
       | Some packet \<Rightarrow> do {
           r \<leftarrow> ncl_encode ae c1 packet;
           (case r of
             Inl _ \<Rightarrow> Some (None, c1)
           | Inr encoded \<Rightarrow> do {
               sequence \<leftarrow> uadd (ncl_sequence c1) 1;
               Some (Some (encoded, ncl_server_addr (c1\<lparr>ncl_sequence := sequence\<rparr>)), c1\<lparr>ncl_sequence := sequence\<rparr>)
             })
         }) = Some (r, c')"
    by (auto simp: bind_eq_Some_conv split: if_split_asm)
  then show ?thesis
  proof cases
    case 1
    then show ?thesis by (simp add: ncl_step_def)
  next
    case run: 2
    show ?thesis
    proof (cases "ncl_packet c1")
      case None
      then show ?thesis using run same by (auto simp: ncl_step_def ncl_is_disconnected_def)
    next
      case (Some p)
      then obtain e where e: "ncl_encode ae c1 p = Some e" using run by (auto simp: bind_eq_Some_conv)
      have "\<not> ncl_is_disconnected c" using Some same by (auto simp: ncl_packet_def ncl_is_disconnected_def split: client_state.splits)
      moreover have "ncl_encode ae c p = Some e" using e ncl_encode_cong[OF same(1,2)] by simp
      ultimately show ?thesis using run Some e same
        by (cases e) (auto simp: ncl_step_def uadd_def split: if_split_asm)
    qed
  qed
qed

lemma payload_step:
  assumes "ncl_exec ae c (NclPayload p) = Some (bs, c')"
  shows "ncl_step ae c bs c'"
proof (cases "length p > NETCODE_MAX_PAYLOAD_BYTES \<or> ncl_state c \<noteq> ClientIsConnected")
  case True
  then show ?thesis using assms by (auto simp: ncl_generate_payload_packet_def ncl_step_def split: if_splits)
next
  case False
  then obtain r where r: "ncl_encode ae c (Payload p) = Some r"
    using assms by (auto simp: ncl_generate_payload_packet_def bind_eq_Some_conv)
  show ?thesis
  proof (cases r)
    case (Inl e)
    then show ?thesis using assms r False by (auto simp: ncl_generate_payload_packet_def ncl_step_def)
  next
    case (Inr b)
    then show ?thesis using assms r False
      by (auto simp: ncl_generate_payload_packet_def ncl_step_def uadd_def bind_eq_Some_conv ncl_is_disconnected_def
          split: if_splits)
  qed
qed

lemma disconnect_step:
  assumes "ncl_exec ae c NclDisconnect = Some (bs, c')"
  shows "ncl_step ae c bs c'"
proof -
  from assms obtain r where r: "ncl_encode ae c DisconnectPacket = Some r"
    "c' = c\<lparr>ncl_state := ClientDisconnectedFor ClosedByClient\<rparr>" "bs = (case r of Inl _ \<Rightarrow> [] | Inr b \<Rightarrow> [b])"
    by (auto simp: ncl_disconnect_def bind_eq_Some_conv Let_def ncl_encode_def rtry_def split: sum.split)
  then show ?thesis by (cases r) (auto simp: ncl_step_def ncl_is_disconnected_def)
qed

lemma process_packet_keeps:
  assumes "ncl_process_packet ae c b = Some (q, c')"
  shows "ncl_connect_token c' = ncl_connect_token c \<and> ncl_sequence c' = ncl_sequence c
    \<and> (ncl_is_disconnected c \<longrightarrow> ncl_is_disconnected c')"
proof -
  from assms obtain r rp where d: "packet_decode ae b (ct_protocol_id (ncl_connect_token c))
       (Some (ct_server_to_client_key (ncl_connect_token c))) (Some (ncl_replay_protection c)) = Some (r, Some rp)"
    by (auto simp: ncl_process_packet_def bind_eq_Some_conv)
  show ?thesis
  proof (cases r)
    case (Inl e)
    then show ?thesis using assms d by (auto simp: ncl_process_packet_def Let_def ncl_is_disconnected_def)
  next
    case (Inr sp)
    obtain s p where sp: "sp = (s, p)" by (cases sp)
    show ?thesis using assms d Inr sp
      by (cases p) (auto simp: ncl_process_packet_def Let_def ncl_is_disconnected_def split: if_splits)
  qed
qed

lemma exec_step:
  assumes "ncl_exec ae c op = Some (bs, c')"
  shows "ncl_step ae c bs c'"
proof (cases op)
  case (NclUpdate d)
  with assms obtain r c1 q where u: "ncl_update_internal_state c d = Some (r, c1)"
    "(case r of Inl _ \<Rightarrow> Some (None, c1) | Inr _ \<Rightarrow> ncl_generate_packet ae c1) = Some (q, c')"
    "bs = (case q of None \<Rightarrow> [] | Some (b, _) \<Rightarrow> [b])"
    by (auto simp: ncl_update_def bind_eq_Some_conv)
  note k = update_internal_keeps[OF u(1)]
  show ?thesis
  proof (cases r)
    case (Inl e)
    then show ?thesis using u k by (auto simp: ncl_step_def)
  next
    case (Inr x)
    then have "ncl_step ae c1 bs c'" using generate_packet_step[of ae c1 q c'] u by simp
    moreover have "\<not> ncl_is_disconnected c" using k Inr by simp
    ultimately show ?thesis using k ncl_encode_cong[of c1 c ae] by (auto simp: ncl_step_def)
  qed
next
  case (NclPayload p)
  then show ?thesis by (auto intro: payload_step assms[unfolded NclPayload])
next
  case (NclProcess b)
  with assms obtain q where "bs = []" "ncl_process_packet ae c b = Some (q, c')" by (auto simp: bind_eq_Some_conv)
  then show ?thesis using process_packet_keeps[of ae c b q c'] by (auto simp: ncl_step_def)
next
  case NclDisconnect
  then show ?thesis by (auto intro: disconnect_step assms[unfolded NclDisconnect])
qed

lemma run_sequence:
  assumes "ncl_run ae c ops = Some (bs, c')" and "ncl_sequence c < 2 ^ 64"
  shows "(\<forall>b \<in> set bs. encrypted b \<longrightarrow> ncl_sequence c \<le> frame_seq b)
    \<and> (ncl_is_disconnected c \<longrightarrow> (\<forall>b \<in> set bs. ncl_encode ae c DisconnectPacket = Some (Inr b)))
    \<and> (\<forall>b \<in> set bs. \<forall>b' \<in> set bs. encrypted b \<and> encrypted b' \<and> frame_seq b = frame_seq b' \<longrightarrow> b = b')"
  using assms
proof (induction ops arbitrary: c bs)
  case (Cons op ops)
  from Cons.prems(1) obtain b1 c1 b2 where r: "ncl_exec ae c op = Some (b1, c1)" "ncl_run ae c1 ops = Some (b2, c')"
    "bs = b1 @ b2" by (auto simp: bind_eq_Some_conv)
  note st = exec_step[OF r(1), unfolded ncl_step_def]
  have tok: "ncl_connect_token c1 = ncl_connect_token c" using st by blast
  consider "b1 = []" "ncl_sequence c1 = ncl_sequence c"
    | b p where "b1 = [b]" "ncl_encode ae c p = Some (Inr b)" "\<not> ncl_is_disconnected c"
        "ncl_sequence c1 = ncl_sequence c + 1" "ncl_sequence c1 < 2 ^ 64"
    | b where "b1 = [b]" "ncl_encode ae c DisconnectPacket = Some (Inr b)" "ncl_is_disconnected c1"
        "ncl_sequence c1 = ncl_sequence c"
    using st by blast
  then show ?case
  proof cases
    case 1
    then show ?thesis using Cons.IH[OF r(2)] Cons.prems(2) r(3) st ncl_encode_cong[OF tok, of ae] by simp
  next
    case 2
    have s: "encrypted b \<longrightarrow> frame_seq b = ncl_sequence c" by (rule ncl_encode_seq[OF 2(2) Cons.prems(2)])
    have "\<forall>b' \<in> set b2. encrypted b' \<longrightarrow> ncl_sequence c + 1 \<le> frame_seq b'"
      using Cons.IH[OF r(2) 2(5)] 2(4) by simp
    then show ?thesis using Cons.IH[OF r(2) 2(5)] s 2(1,3) r(3) by force
  next
    case 3
    have s: "encrypted b \<longrightarrow> frame_seq b = ncl_sequence c" by (rule ncl_encode_seq[OF 3(2) Cons.prems(2)])
    have "\<forall>b' \<in> set b2. b' = b"
      using Cons.IH[OF r(2)] 3(2,3,4) Cons.prems(2) ncl_encode_cong[OF tok 3(4), of ae DisconnectPacket] by simp
    then have "set bs = {b}" using 3(1) r(3) by auto
    then show ?thesis using s 3(2) by simp
  qed
qed simp

section \<open>Operations return\<close>

definition ncl_ok :: "netcode_client \<Rightarrow> bool" where
  "ncl_ok c \<longleftrightarrow> ct_ok (ncl_connect_token c)
     \<and> ct_create_timestamp (ncl_connect_token c) \<le> ct_expire_timestamp (ncl_connect_token c)
     \<and> ncl_connect_start_time c \<le> ncl_current_time c \<and> ncl_last_packet_received_time c \<le> ncl_current_time c
     \<and> (\<forall>t. ncl_last_packet_send_time c = Some t \<longrightarrow> t \<le> ncl_current_time c)
     \<and> ncl_sequence c < 2 ^ 64 \<and> (ncl_server_addr_index c < 32 \<or> ncl_is_disconnected c)
     \<and> ncl_challenge_token_sequence c < 2 ^ 64 \<and> length (ncl_challenge_token_data c) = 300
     \<and> length (rp_received_packet (ncl_replay_protection c)) = 256"

text \<open>The bounds on time, and the operations whose buffers decode without a panic.\<close>

fun ncl_elapsed :: "ncl_op \<Rightarrow> duration" where
  "ncl_elapsed (NclUpdate d) = d"
| "ncl_elapsed _ = 0"

definition NCL_TIME_LIMIT :: duration where
  "NCL_TIME_LIMIT = from_secs (2 ^ 64 - 2 ^ 31)"

fun ncl_op_ok :: "ncl_op \<Rightarrow> bool" where
  "ncl_op_ok (NclProcess b) = buffer_ok b"
| "ncl_op_ok _ = True"

context aead_contract
begin

lemma ncl_encode_returns:
  assumes "ncl_ok c" and "packet_ok p"
  shows "\<exists>b. ncl_encode ae c p = Some (Inr b) \<and> length b \<le> 1325"
  unfolding ncl_encode_def
  by (rule packet_encode_returns) (use assms in \<open>auto simp: ncl_ok_def ct_ok_def NETCODE_MAX_PACKET_BYTES_def\<close>)

lemma generate_packet_returns:
  assumes "ncl_ok c" and "ncl_sequence c + 1 < 2 ^ 64"
  shows "\<exists>r c'. ncl_generate_packet ae c = Some (r, c') \<and> ncl_ok c' \<and> ncl_sequence c' \<le> ncl_sequence c + 1
    \<and> ncl_current_time c' = ncl_current_time c \<and> (\<forall>b a. r = Some (b, a) \<longrightarrow> length b \<le> 1325)"
proof -
  define c1 where "c1 = (if ncl_state c = ClientIsConnected \<or> ncl_state c = SendingConnectionRequest
           \<or> ncl_state c = SendingConnectionResponse
         then c\<lparr>ncl_last_packet_send_time := Some (ncl_current_time c)\<rparr> else c)"
  have same: "ncl_sequence c1 = ncl_sequence c" "ncl_current_time c1 = ncl_current_time c" by (simp_all add: c1_def)
  have ok1: "ncl_ok c1" using assms(1) by (auto simp: c1_def ncl_ok_def ncl_is_disconnected_def)
  have pok: "packet_ok p" if "ncl_packet c1 = Some p" for p
    using that ok1 by (auto simp: ncl_packet_def ncl_ok_def ct_ok_def connection_request_from_token_def NETCODE_VERSION_INFO_def
        split: client_state.splits)
  obtain wait where w: "(case ncl_last_packet_send_time c of
         Some last_packet_send_time \<Rightarrow> do {
           since \<leftarrow> dsub (ncl_current_time c) last_packet_send_time;
           Some (since < ncl_send_rate c)
         }
       | None \<Rightarrow> Some False) = Some wait"
    using assms(1) by (cases "ncl_last_packet_send_time c") (auto simp: ncl_ok_def dsub_def)
  show ?thesis
  proof (cases "wait \<or> ncl_packet c1 = None")
    case True
    then show ?thesis unfolding ncl_generate_packet_def w Let_def
      using assms(1) ok1 same by (cases wait) (auto simp flip: c1_def)
  next
    case False
    then obtain p where p: "ncl_packet c1 = Some p" by auto
    from ncl_encode_returns[OF ok1 pok[OF p]] obtain b where b: "ncl_encode ae c1 p = Some (Inr b)" "length b \<le> 1325"
      by blast
    have "ncl_ok (c1\<lparr>ncl_sequence := Suc (ncl_sequence c)\<rparr>)"
      using ok1 assms(2) by (auto simp: ncl_ok_def ncl_is_disconnected_def)
    then show ?thesis unfolding ncl_generate_packet_def w Let_def
      using False p b same assms(2) by (auto simp: uadd_def simp flip: c1_def)
  qed
qed

end

lemma next_server_returns:
  assumes "ncl_ok c" and "\<not> ncl_is_disconnected c"
  shows "\<exists>r c'. ncl_next_server c = Some (r, c') \<and> ncl_ok c' \<and> ncl_sequence c' = ncl_sequence c
    \<and> ncl_current_time c' = ncl_current_time c"
proof -
  have i: "ncl_server_addr_index c < 32" "length (ct_server_addresses (ncl_connect_token c)) = 32"
    using assms by (auto simp: ncl_ok_def ct_ok_def addresses_ok_def)
  show ?thesis
  proof (cases "ncl_server_addr_index c = 31")
    case True
    then show ?thesis using assms by (simp add: ncl_next_server_def uadd_def ncl_ok_def ncl_is_disconnected_def Let_def)
  next
    case False
    then have j: "ncl_server_addr_index c + 1 < 32" using i by simp
    then show ?thesis using assms i
      by (cases "ct_server_addresses (ncl_connect_token c) ! (ncl_server_addr_index c + 1)")
        (auto simp: ncl_next_server_def uadd_def vec_get_def ncl_ok_def ncl_is_disconnected_def Let_def)
  qed
qed

lemma update_internal_returns:
  assumes "ncl_ok c" and "ncl_current_time c + d < NCL_TIME_LIMIT"
  shows "\<exists>r c'. ncl_update_internal_state c d = Some (r, c') \<and> ncl_ok c' \<and> ncl_sequence c' = ncl_sequence c
    \<and> ncl_current_time c' = ncl_current_time c + d"
proof -
  let ?c = "c\<lparr>ncl_current_time := ncl_current_time c + d\<rparr>"
  have ok1: "ncl_ok ?c" using assms(1) by (auto simp: ncl_ok_def ncl_is_disconnected_def)
  have now: "dadd (ncl_current_time c) d = Some (ncl_current_time c + d)"
    using assms(2) by (simp add: dadd_def NCL_TIME_LIMIT_def from_secs_def)
  have "ct_timeout_seconds (ncl_connect_token c) < 2 ^ 31" using assms(1) by (simp add: ncl_ok_def ct_ok_def i32_ok_def)
  moreover have "ncl_last_packet_received_time c \<le> ncl_current_time c" using assms(1) by (simp add: ncl_ok_def)
  ultimately have "ncl_last_packet_received_time c + from_secs (nat (ct_timeout_seconds (ncl_connect_token c))) < 2 ^ 64 * 1000000000"
    using assms(2) by (auto simp: NCL_TIME_LIMIT_def from_secs_def)
  then obtain out where out: "(if ct_timeout_seconds (ncl_connect_token ?c) > 0 then do {
          limit \<leftarrow> dadd (ncl_last_packet_received_time ?c) (from_secs (nat (ct_timeout_seconds (ncl_connect_token ?c))));
          Some (limit < ncl_current_time ?c)
        } else Some False) = Some out"
    by (cases "ct_timeout_seconds (ncl_connect_token c) > 0") (simp_all add: dadd_def)
  have ok2: "ncl_ok (?c\<lparr>ncl_state := ClientDisconnectedFor reason\<rparr>)" for reason
    using ok1 by (simp add: ncl_ok_def ncl_is_disconnected_def)
  note start = ok1[unfolded ncl_ok_def]
  show ?thesis
  proof (cases "ncl_state c")
    case (ClientDisconnectedFor reason)
    then show ?thesis unfolding ncl_update_internal_state_def now using out ok1 by simp
  next
    case ClientIsConnected
    then show ?thesis unfolding ncl_update_internal_state_def now using out ok1 ok2
      by (cases out) (simp_all add: Let_def)
  next
    case SendingConnectionRequest
    with start next_server_returns[OF ok1] show ?thesis unfolding ncl_update_internal_state_def now using out ok1 ok2
      by (cases out) (auto simp: usub_def dsub_def ncl_is_disconnected_def Let_def)
  next
    case SendingConnectionResponse
    with start next_server_returns[OF ok1] show ?thesis unfolding ncl_update_internal_state_def now using out ok1 ok2
      by (cases out) (auto simp: usub_def dsub_def ncl_is_disconnected_def Let_def)
  qed
qed

lemma process_packet_returns:
  assumes "ncl_ok c" and "buffer_ok b"
  shows "\<exists>q c'. ncl_process_packet ae c b = Some (q, c') \<and> ncl_ok c' \<and> ncl_sequence c' = ncl_sequence c
    \<and> ncl_current_time c' = ncl_current_time c"
proof -
  have "length (rp_received_packet (ncl_replay_protection c)) = 256" using assms(1) by (simp add: ncl_ok_def)
  from packet_decode_returns[OF assms(2) this, of ae "ct_protocol_id (ncl_connect_token c)"
      "Some (ct_server_to_client_key (ncl_connect_token c))"]
  obtain r rp' where d: "packet_decode ae b (ct_protocol_id (ncl_connect_token c))
       (Some (ct_server_to_client_key (ncl_connect_token c))) (Some (ncl_replay_protection c)) = Some (r, Some rp')"
    "length (rp_received_packet rp') = 256"
    "\<forall>n p. r = Inr (n, p) \<longrightarrow> packet_read_ok p" by blast
  have ok1: "ncl_ok (c\<lparr>ncl_replay_protection := rp'\<rparr>)"
    using assms(1) d(2) by (auto simp: ncl_ok_def ncl_is_disconnected_def)
  show ?thesis
  proof (cases r)
    case (Inl e)
    then show ?thesis using d(1) ok1 by (simp add: ncl_process_packet_def Let_def)
  next
    case (Inr np)
    obtain n p where np: "np = (n, p)" by (cases np)
    then have "packet_read_ok p" using d(3) Inr by blast
    then show ?thesis using d(1) Inr np ok1
      by (cases p) (auto simp: ncl_process_packet_def Let_def ncl_ok_def ncl_is_disconnected_def packet_read_ok_def)
  qed
qed

context aead_contract
begin

lemma exec_returns:
  assumes "ncl_ok c" and "ncl_op_ok op" and "ncl_sequence c + 1 < 2 ^ 64"
    and "ncl_current_time c + ncl_elapsed op < NCL_TIME_LIMIT"
  shows "\<exists>bs c'. ncl_exec ae c op = Some (bs, c') \<and> ncl_ok c' \<and> ncl_sequence c' \<le> ncl_sequence c + 1
    \<and> ncl_current_time c' = ncl_current_time c + ncl_elapsed op \<and> (\<forall>b \<in> set bs. length b \<le> 1325)"
proof (cases op)
  case (NclUpdate d)
  from update_internal_returns[OF assms(1)] assms(4) NclUpdate obtain r c1 where
    u: "ncl_update_internal_state c d = Some (r, c1)" "ncl_ok c1" "ncl_sequence c1 = ncl_sequence c"
    "ncl_current_time c1 = ncl_current_time c + d" by fastforce
  from generate_packet_returns[OF u(2)] u(3) assms(3) obtain q c2 where
    g: "ncl_generate_packet ae c1 = Some (q, c2)" "ncl_ok c2" "ncl_sequence c2 \<le> ncl_sequence c + 1"
    "ncl_current_time c2 = ncl_current_time c + d" "\<forall>b a. q = Some (b, a) \<longrightarrow> length b \<le> 1325"
    using u(4) by auto
  show ?thesis using NclUpdate u g by (cases r; cases q) (auto simp: ncl_update_def)
next
  case (NclPayload p)
  show ?thesis
  proof (cases "length p > NETCODE_MAX_PAYLOAD_BYTES \<or> ncl_state c \<noteq> ClientIsConnected")
    case True
    then show ?thesis using assms(1) NclPayload by (auto simp: ncl_generate_payload_packet_def)
  next
    case False
    then have "packet_ok (Payload p)" by simp
    from ncl_encode_returns[OF assms(1) this] obtain b where b: "ncl_encode ae c (Payload p) = Some (Inr b)" "length b \<le> 1325"
      by blast
    show ?thesis using assms(1,3) NclPayload False b
      by (simp add: ncl_generate_payload_packet_def uadd_def ncl_ok_def ncl_is_disconnected_def)
  qed
next
  case (NclProcess b)
  then show ?thesis using process_packet_returns[OF assms(1), of b ae] assms(2) by auto
next
  case NclDisconnect
  let ?c = "c\<lparr>ncl_state := ClientDisconnectedFor ClosedByClient\<rparr>"
  have ok: "ncl_ok ?c" using assms(1) by (simp add: ncl_ok_def ncl_is_disconnected_def)
  from ncl_encode_returns[OF this, of DisconnectPacket] obtain b where "ncl_encode ae ?c DisconnectPacket = Some (Inr b)" "length b \<le> 1325" by auto
  then show ?thesis using NclDisconnect ok by (simp add: ncl_disconnect_def)
qed

lemma run_returns:
  assumes "ncl_ok c" and "\<forall>op \<in> set ops. ncl_op_ok op" and "ncl_sequence c + length ops < 2 ^ 64"
    and "ncl_current_time c + sum_list (map ncl_elapsed ops) < NCL_TIME_LIMIT"
  shows "\<exists>bs c'. ncl_run ae c ops = Some (bs, c') \<and> ncl_ok c' \<and> (\<forall>b \<in> set bs. length b \<le> 1325)"
  using assms
proof (induction ops arbitrary: c)
  case (Cons op ops)
  from exec_returns[of c op] Cons.prems obtain bs c1 where e: "ncl_exec ae c op = Some (bs, c1)" "ncl_ok c1"
    "ncl_sequence c1 \<le> ncl_sequence c + 1" "ncl_current_time c1 = ncl_current_time c + ncl_elapsed op"
    "\<forall>b \<in> set bs. length b \<le> 1325" by auto
  from Cons.IH[OF e(2)] Cons.prems e(3,4) obtain cs c2 where "ncl_run ae c1 ops = Some (cs, c2)" "ncl_ok c2"
    "\<forall>b \<in> set cs. length b \<le> 1325" by auto
  then show ?case using e by auto
qed simp

end

section \<open>Timeouts\<close>

lemma generate_packet_keeps:
  assumes "ncl_generate_packet ae c = Some (r, c')"
  shows "ncl_state c' = ncl_state c \<and> ncl_server_addr_index c' = ncl_server_addr_index c
    \<and> ncl_connect_token c' = ncl_connect_token c"
  using assms
  by (auto simp: ncl_generate_packet_def bind_eq_Some_conv bind_sum_conv Let_def split: if_split_asm option.split_asm;
      auto simp: bind_eq_Some_conv split: sum.split_asm)

lemma next_server_moves:
  assumes "ncl_next_server c = Some (r, c')"
  shows "ncl_is_disconnected c' \<or> r = Inr () \<and> ncl_server_addr_index c' = ncl_server_addr_index c + 1 \<and> ncl_server_addr_index c' < 32"
  using assms by (auto simp: ncl_next_server_def uadd_def vec_get_def ncl_is_disconnected_def Let_def
      split: if_split_asm option.split_asm)

lemma update_internal_timeout:
  assumes "ncl_update_internal_state c d = Some (r, c')" and "ncl_ok c"
    and "0 < ct_timeout_seconds (ncl_connect_token c)"
    and "from_secs (nat (ct_timeout_seconds (ncl_connect_token c))) < d"
  shows "ncl_is_disconnected c' \<or> ncl_server_addr_index c' = ncl_server_addr_index c + 1 \<and> ncl_server_addr_index c' < 32"
proof -
  let ?limit = "ncl_last_packet_received_time c + from_secs (nat (ct_timeout_seconds (ncl_connect_token c)))"
  let ?now = "ncl_current_time c + d"
  have late: "?limit < ?now" using assms(2,4) by (simp add: ncl_ok_def)
  have "dadd (ncl_current_time c) d = Some ?now" using assms(1)
    by (auto simp: ncl_update_internal_state_def bind_eq_Some_conv dadd_def split: if_split_asm)
  moreover from this late have "dadd (ncl_last_packet_received_time c)
      (from_secs (nat (ct_timeout_seconds (ncl_connect_token c)))) = Some ?limit"
    by (simp add: dadd_def split: if_split_asm)
  ultimately show ?thesis using assms(1,3) late
    by (cases "ncl_state c")
      (auto simp: ncl_update_internal_state_def bind_eq_Some_conv Let_def ncl_is_disconnected_def
        dest!: next_server_moves split: if_split_asm)
qed

lemma update_timeout:
  assumes "ncl_exec ae c (NclUpdate d) = Some (bs, c')" and "ncl_ok c"
    and "0 < ct_timeout_seconds (ncl_connect_token c)"
    and "from_secs (nat (ct_timeout_seconds (ncl_connect_token c))) < d"
  shows "ncl_is_disconnected c' \<or> ncl_server_addr_index c' = ncl_server_addr_index c + 1 \<and> ncl_server_addr_index c' < 32"
proof -
  from assms(1) obtain r c1 q where u: "ncl_update_internal_state c d = Some (r, c1)"
    "(case r of Inl _ \<Rightarrow> Some (None, c1) | Inr _ \<Rightarrow> ncl_generate_packet ae c1) = Some (q, c')"
    by (auto simp: ncl_update_def bind_eq_Some_conv)
  note t = update_internal_timeout[OF u(1) assms(2,3,4)]
  show ?thesis using t u(2) generate_packet_keeps[of ae c1 q c'] by (cases r) (auto simp: ncl_is_disconnected_def)
qed

lemma exec_disconnected: "ncl_exec ae c op = Some (bs, c') \<Longrightarrow> ncl_is_disconnected c \<Longrightarrow> ncl_is_disconnected c'"
  and exec_token: "ncl_exec ae c op = Some (bs, c') \<Longrightarrow> ncl_connect_token c' = ncl_connect_token c"
  using exec_step[of ae c op bs c'] by (auto simp: ncl_step_def)

lemma run_disconnected: "ncl_run ae c ops = Some (bs, c') \<Longrightarrow> ncl_is_disconnected c \<Longrightarrow> ncl_is_disconnected c'"
  by (induction ops arbitrary: c bs) (auto simp: bind_eq_Some_conv dest: exec_disconnected)

context aead_contract
begin

lemma timeouts_disconnect:
  assumes "ncl_run ae c (map NclUpdate ds) = Some (bs, c')" and "ncl_ok c"
    and "ncl_sequence c + length ds < 2 ^ 64" and "ncl_current_time c + sum_list ds < NCL_TIME_LIMIT"
    and "0 < ct_timeout_seconds (ncl_connect_token c)"
    and "\<forall>d \<in> set ds. from_secs (nat (ct_timeout_seconds (ncl_connect_token c))) < d"
    and "32 \<le> ncl_server_addr_index c + length ds"
  shows "ncl_is_disconnected c'"
  using assms
proof (induction ds arbitrary: c bs)
  case Nil
  then show ?case by (auto simp: ncl_ok_def)
next
  case (Cons d ds)
  from Cons.prems(1) obtain b1 c1 b2 where r: "ncl_exec ae c (NclUpdate d) = Some (b1, c1)"
    "ncl_run ae c1 (map NclUpdate ds) = Some (b2, c')" by (auto simp: bind_eq_Some_conv)
  from exec_returns[of c "NclUpdate d"] Cons.prems(2,3,4) r(1) have c1: "ncl_ok c1" "ncl_sequence c1 \<le> ncl_sequence c + 1"
    "ncl_current_time c1 = ncl_current_time c + d" by auto
  from update_timeout[OF r(1) Cons.prems(2,5)] Cons.prems(6)
  consider "ncl_is_disconnected c1" | "ncl_server_addr_index c1 = ncl_server_addr_index c + 1" by auto
  then show ?case
  proof cases
    case 1
    then show ?thesis by (rule run_disconnected[OF r(2)])
  next
    case 2
    show ?thesis
      by (rule Cons.IH[OF r(2) c1(1)]) (use Cons.prems c1 2 exec_token[OF r(1)] in auto)
  qed
qed

end

section \<open>Properties\<close>

text \<open>A token for the examples.\<close>

definition sample_token :: connect_token where
  "sample_token = \<lparr>ct_client_id = 5, ct_version_info = NETCODE_VERSION_INFO, ct_protocol_id = 7,
     ct_create_timestamp = 10, ct_expire_timestamp = 310, ct_xnonce = replicate 24 4,
     ct_server_addresses = Some (V4 [127, 0, 0, 1] 5000) # replicate 31 None,
     ct_client_to_server_key = replicate 32 1, ct_server_to_client_key = replicate 32 2,
     ct_private_data = replicate 1024 6, ct_timeout_seconds = 15\<rparr>"

definition sample_client :: netcode_client where
  "sample_client = (case ncl_new chacha20poly1305 [] [] [] [] (from_secs 10) (ClientSecure sample_token) of
     Some (Inr c) \<Rightarrow> c)"

lemma sample_client_ok: "ncl_ok sample_client" "ncl_sequence sample_client = 0" "ncl_current_time sample_client = from_secs 10"
  "ncl_connect_token sample_client = sample_token"
  by (simp_all add: sample_client_def ncl_new_def sample_token_def vec_get_def ncl_ok_def ct_ok_def addresses_ok_def i32_ok_def
      somes_def filter_replicate rp_new_def NETCODE_REPLAY_BUFFER_SIZE_def NETCODE_CHALLENGE_TOKEN_BYTES_def from_secs_def)

text \<open>C19. The client never uses a nonce for two different packets: of all the datagrams of a run, those
  that are encrypted and have the same sequence number are the same datagram.\<close>

theorem client_nonce_unique:
  assumes "ncl_run ae c ops = Some (bs, c')" and "ncl_sequence c < 2 ^ 64"
  shows "\<forall>b \<in> set bs. \<forall>b' \<in> set bs. encrypted b \<and> encrypted b' \<and> frame_seq b = frame_seq b' \<longrightarrow> b = b'"
  using run_sequence[OF assms] by blast

theorem client_nonce_unique_witness:
  "\<exists>bs c'. ncl_run chacha20poly1305 sample_client [NclUpdate 0, NclDisconnect, NclDisconnect] = Some (bs, c')
    \<and> (\<forall>b \<in> set bs. \<forall>b' \<in> set bs. encrypted b \<and> encrypted b' \<and> frame_seq b = frame_seq b' \<longrightarrow> b = b')"
proof -
  have "\<exists>bs c'. ncl_run chacha20poly1305 sample_client [NclUpdate 0, NclDisconnect, NclDisconnect] = Some (bs, c')
      \<and> ncl_ok c' \<and> (\<forall>b \<in> set bs. length b \<le> 1325)"
    by (rule chacha.run_returns) (simp_all add: sample_client_ok NCL_TIME_LIMIT_def from_secs_def)
  then obtain bs c' where r: "ncl_run chacha20poly1305 sample_client [NclUpdate 0, NclDisconnect, NclDisconnect] = Some (bs, c')"
    by blast
  then show ?thesis using client_nonce_unique[OF r] by (simp add: sample_client_ok)
qed

text \<open>C20. A client in a well-formed state, run through any operations whose buffers are within the bounds of
  the decoder, never panics, stays well-formed, and hands out datagrams of at most 1325 bytes,
  as long as its clock and its sequence number do not run out.\<close>

theorem client_returns:
  assumes "aead_contract ae" and "ncl_ok c" and "\<forall>op \<in> set ops. ncl_op_ok op"
    and "ncl_sequence c + length ops < 2 ^ 64"
    and "ncl_current_time c + sum_list (map ncl_elapsed ops) < NCL_TIME_LIMIT"
  shows "\<exists>bs c'. ncl_run ae c ops = Some (bs, c') \<and> ncl_ok c' \<and> (\<forall>b \<in> set bs. length b \<le> 1325)"
  by (rule aead_contract.run_returns[OF assms])

theorem client_returns_witness:
  "\<exists>bs c'. ncl_run chacha20poly1305 sample_client
      [NclUpdate 0, NclProcess (0x15 # replicate 17 0), NclPayload [1, 2, 3], NclUpdate (from_secs 20)] = Some (bs, c')
    \<and> ncl_ok c' \<and> (\<forall>b \<in> set bs. length b \<le> 1325)"
  using client_returns[OF chacha.aead_contract_axioms sample_client_ok(1),
      of "[NclUpdate 0, NclProcess (0x15 # replicate 17 0), NclPayload [1, 2, 3], NclUpdate (from_secs 20)]"]
  by (simp add: sample_client_ok NCL_TIME_LIMIT_def from_secs_def buffer_ok_def frame_seq_len_def frame_seq_def decode_prefix_def)

text \<open>C21. A client that hears nothing gives up: after 32 updates, each longer than the timeout of its
  token, with no packet processed in between, it is disconnected, whatever addresses the token has.\<close>

theorem client_gives_up:
  assumes "aead_contract ae" and "ncl_ok c" and "length ds = 32"
    and "0 < ct_timeout_seconds (ncl_connect_token c)"
    and "\<forall>d \<in> set ds. from_secs (nat (ct_timeout_seconds (ncl_connect_token c))) < d"
    and "ncl_sequence c + 32 < 2 ^ 64" and "ncl_current_time c + sum_list ds < NCL_TIME_LIMIT"
  shows "\<exists>bs c'. ncl_run ae c (map NclUpdate ds) = Some (bs, c') \<and> ncl_is_disconnected c'"
proof -
  have "map ncl_elapsed (map NclUpdate ds) = ds" by (simp add: comp_def)
  then obtain bs c' where r: "ncl_run ae c (map NclUpdate ds) = Some (bs, c')"
    using aead_contract.run_returns[OF assms(1,2), of "map NclUpdate ds"] assms(3,6,7) by (auto simp: comp_def)
  have "ncl_is_disconnected c'"
    by (rule aead_contract.timeouts_disconnect[OF assms(1) r assms(2)]) (use assms in auto)
  with r show ?thesis by blast
qed

theorem client_gives_up_witness:
  "\<exists>bs c'. ncl_run chacha20poly1305 sample_client (map NclUpdate (replicate 32 (from_secs 16))) = Some (bs, c')
    \<and> ncl_is_disconnected c'"
  using client_gives_up[OF chacha.aead_contract_axioms sample_client_ok(1), of "replicate 32 (from_secs 16)"]
  by (simp add: sample_client_ok sample_token_def NCL_TIME_LIMIT_def from_secs_def sum_list_replicate)

end
