(* ===== verification/NetcodeServer.thy ===== *)
theory NetcodeServer
  imports NetcodePacket
begin

text \<open>
  The server of the netcode protocol, \<open>src/renetcode/src/server.rs\<close>. As for the client, the scratch
  buffer \<open>out\<close> is not part of the state, and the random challenge key is an argument of \<open>ns_new\<close>.
\<close>

section \<open>State\<close>

datatype connection_state = ConnDisconnected | ConnPendingResponse | ConnConnected

record connection =
  cn_confirmed :: bool
  cn_client_id :: u64
  cn_state :: connection_state
  cn_send_key :: bytes
  cn_receive_key :: bytes
  cn_user_data :: bytes
  cn_addr :: socket_addr
  cn_last_packet_received_time :: duration
  cn_last_packet_send_time :: duration
  cn_timeout_seconds :: int
  cn_sequence :: u64
  cn_expire_timestamp :: u64
  cn_replay_protection :: replay_protection

record connect_token_entry =
  te_time :: duration
  te_address :: socket_addr
  te_mac :: bytes

record netcode_server =
  ns_clients :: "connection option list"
  ns_pending_clients :: "(socket_addr \<times> connection) list"
  ns_connect_token_entries :: "connect_token_entry option list"
  ns_protocol_id :: u64
  ns_connect_key :: bytes
  ns_max_clients :: usize
  ns_challenge_sequence :: u64
  ns_challenge_key :: bytes
  ns_public_addresses :: "socket_addr list"
  ns_current_time :: duration
  ns_global_sequence :: u64
  ns_secure :: bool

text \<open>\<open>ServerResult\<close>\<close>

datatype server_result =
    ResultNone
  | PacketToSend socket_addr bytes
  | PayloadReceived u64 bytes
  | ConnectionOpened u64 socket_addr bytes bytes
  | ConnectionClosed u64 socket_addr "bytes option"

datatype server_authentication = ServerSecure bytes | ServerUnsecure

record server_config =
  sc_current_time :: duration
  sc_max_clients :: usize
  sc_protocol_id :: u64
  sc_public_addresses :: "socket_addr list"
  sc_authentication :: server_authentication

definition ns_new :: "bytes \<Rightarrow> server_config \<Rightarrow> netcode_server option" where
  "ns_new challenge_key config = do {
     rust_assert (\<not> sc_max_clients config > NETCODE_MAX_CLIENTS);
     Some \<lparr>ns_clients = replicate (sc_max_clients config) None, ns_pending_clients = [],
       ns_connect_token_entries = replicate (NETCODE_MAX_CLIENTS * 2) None,
       ns_protocol_id = sc_protocol_id config,
       ns_connect_key = (case sc_authentication config of
           ServerUnsecure \<Rightarrow> replicate NETCODE_KEY_BYTES 0
         | ServerSecure private_key \<Rightarrow> private_key),
       ns_max_clients = sc_max_clients config, ns_challenge_sequence = 0, ns_challenge_key = challenge_key,
       ns_public_addresses = sc_public_addresses config, ns_current_time = sc_current_time config,
       ns_global_sequence = 0,
       ns_secure = (case sc_authentication config of ServerUnsecure \<Rightarrow> False | ServerSecure _ \<Rightarrow> True)\<rparr>
   }"

section \<open>Finding clients\<close>

text \<open>The first slot with a client that satisfies the test, and the client.\<close>

fun find_slot :: "(connection \<Rightarrow> bool) \<Rightarrow> usize \<Rightarrow> connection option list \<Rightarrow> (usize \<times> connection) option" where
  "find_slot f i [] = None"
| "find_slot f i (None # clients) = find_slot f (i + 1) clients"
| "find_slot f i (Some c # clients) = (if f c then Some (i, c) else find_slot f (i + 1) clients)"

definition find_client_mut_by_id :: "connection option list \<Rightarrow> u64 \<Rightarrow> (usize \<times> connection) option" where
  "find_client_mut_by_id clients client_id = find_slot (\<lambda>c. cn_client_id c = client_id) 0 clients"

definition find_client_by_id :: "connection option list \<Rightarrow> u64 \<Rightarrow> connection option" where
  "find_client_by_id clients client_id = map_option snd (find_slot (\<lambda>c. cn_client_id c = client_id) 0 clients)"

definition find_client_slot_by_id :: "connection option list \<Rightarrow> u64 \<Rightarrow> usize option" where
  "find_client_slot_by_id clients client_id = map_option fst (find_slot (\<lambda>c. cn_client_id c = client_id) 0 clients)"

definition find_client_mut_by_addr :: "connection option list \<Rightarrow> socket_addr \<Rightarrow> (usize \<times> connection) option" where
  "find_client_mut_by_addr clients addr = find_slot (\<lambda>c. cn_addr c = addr) 0 clients"

definition ns_user_data :: "netcode_server \<Rightarrow> u64 \<Rightarrow> bytes option" where
  "ns_user_data s client_id = map_option cn_user_data (find_client_by_id (ns_clients s) client_id)"

definition ns_time_since_last_received_packet :: "netcode_server \<Rightarrow> u64 \<Rightarrow> duration option option" where
  "ns_time_since_last_received_packet s client_id =
     (case find_client_by_id (ns_clients s) client_id of
        Some client \<Rightarrow> do {
          time \<leftarrow> dsub (ns_current_time s) (cn_last_packet_received_time client);
          Some (Some time)
        }
      | None \<Rightarrow> Some None)"

definition ns_client_addr :: "netcode_server \<Rightarrow> u64 \<Rightarrow> socket_addr option" where
  "ns_client_addr s client_id = map_option cn_addr (find_client_by_id (ns_clients s) client_id)"

section \<open>Connect token entries\<close>

text \<open>The variables of the loop, \<open>min\<close>, \<open>oldest_entry\<close>, \<open>empty_entry\<close> and \<open>matching_entry\<close>, and its body.
  \<open>Duration::MAX\<close> is one nanosecond below the limit of \<open>dadd\<close>.\<close>

record entry_scan =
  es_min :: duration
  es_oldest_entry :: usize
  es_empty_entry :: bool
  es_matching_entry :: "connect_token_entry option"

definition scan_entry :: "connect_token_entry \<Rightarrow> usize \<times> connect_token_entry option \<Rightarrow> entry_scan \<Rightarrow> entry_scan" where
  "scan_entry new_entry = (\<lambda>(i, entry) a.
     case entry of
       Some e \<Rightarrow>
         (let a = (if te_mac e = te_mac new_entry then a\<lparr>es_matching_entry := Some e\<rparr> else a) in
          if \<not> es_empty_entry a \<and> te_time e < es_min a then a\<lparr>es_oldest_entry := i, es_min := te_time e\<rparr> else a)
     | None \<Rightarrow> if \<not> es_empty_entry a then a\<lparr>es_empty_entry := True, es_oldest_entry := i\<rparr> else a)"

definition find_or_add_connect_token_entry ::
    "netcode_server \<Rightarrow> connect_token_entry \<Rightarrow> (bool \<times> netcode_server) option" where
  "find_or_add_connect_token_entry s new_entry =
     (let a = fold (scan_entry new_entry) (enumerate 0 (ns_connect_token_entries s))
        \<lparr>es_min = 2 ^ 64 * 1000000000 - 1, es_oldest_entry = 0, es_empty_entry = False, es_matching_entry = None\<rparr> in
      case es_matching_entry a of
        Some entry \<Rightarrow> Some (te_address entry = te_address new_entry, s)
      | None \<Rightarrow> do {
          entries \<leftarrow> vec_set (ns_connect_token_entries s) (es_oldest_entry a) (Some new_entry);
          Some (True, s\<lparr>ns_connect_token_entries := entries\<rparr>)
        })"

section \<open>Connection requests\<close>

text \<open>The entry of a new pending client.\<close>

definition pending_connection ::
    "netcode_server \<Rightarrow> private_connect_token \<Rightarrow> socket_addr \<Rightarrow> u64 \<Rightarrow> connection" where
  "pending_connection s connect_token addr expire_timestamp =
     \<lparr>cn_confirmed = False, cn_client_id = pt_client_id connect_token, cn_state = ConnPendingResponse,
      cn_send_key = pt_server_to_client_key connect_token, cn_receive_key = pt_client_to_server_key connect_token,
      cn_user_data = pt_user_data connect_token, cn_addr = addr,
      cn_last_packet_received_time = ns_current_time s, cn_last_packet_send_time = ns_current_time s,
      cn_timeout_seconds = pt_timeout_seconds connect_token, cn_sequence = 0,
      cn_expire_timestamp = expire_timestamp, cn_replay_protection = rp_new\<rparr>"

text \<open>The part of \<open>handle_connection_request\<close> for a decoded token that passed the checks: the denial when
  the server is full, and the challenge.\<close>

definition ns_answer_request ::
    "aead_api \<Rightarrow> netcode_server \<Rightarrow> socket_addr \<Rightarrow> u64 \<Rightarrow> private_connect_token
     \<Rightarrow> ((netcode_error + server_result) \<times> netcode_server) option" where
  "ns_answer_request ae s addr expire_timestamp connect_token =
     (if length (somes (ns_clients s)) \<ge> ns_max_clients s then do {
        let s = s\<lparr>ns_pending_clients := hm_remove addr (ns_pending_clients s)\<rparr>;
        r \<leftarrow> packet_encode ae ConnectionDenied NETCODE_MAX_PACKET_BYTES (ns_protocol_id s)
          (Some (ns_global_sequence s, pt_server_to_client_key connect_token));
        (case r of
          Inl e \<Rightarrow> Some (Inl e, s)
        | Inr out \<Rightarrow> do {
            global_sequence \<leftarrow> uadd (ns_global_sequence s) 1;
            Some (Inr (PacketToSend addr out), s\<lparr>ns_global_sequence := global_sequence\<rparr>)
          })
      }
      else do {
        challenge_sequence \<leftarrow> uadd (ns_challenge_sequence s) 1;
        let s = s\<lparr>ns_challenge_sequence := challenge_sequence\<rparr>;
        r \<leftarrow> generate_challenge ae (pt_client_id connect_token) (pt_user_data connect_token)
          (ns_challenge_sequence s) (ns_challenge_key s);
        (case r of
          Inl e \<Rightarrow> Some (Inl e, s)
        | Inr packet \<Rightarrow> do {
            r \<leftarrow> packet_encode ae packet NETCODE_MAX_PACKET_BYTES (ns_protocol_id s)
              (Some (ns_global_sequence s, pt_server_to_client_key connect_token));
            (case r of
              Inl e \<Rightarrow> Some (Inl e, s)
            | Inr out \<Rightarrow> do {
                global_sequence \<leftarrow> uadd (ns_global_sequence s) 1;
                let s = s\<lparr>ns_global_sequence := global_sequence\<rparr>;
                let pending = (case hm_get (ns_pending_clients s) addr of
                    Some pending \<Rightarrow> pending
                  | None \<Rightarrow> pending_connection s connect_token addr expire_timestamp);
                let pending = pending\<lparr>cn_last_packet_received_time := ns_current_time s,
                  cn_last_packet_send_time := ns_current_time s\<rparr>;
                Some (Inr (PacketToSend addr out),
                  s\<lparr>ns_pending_clients := hm_insert addr pending (ns_pending_clients s)\<rparr>)
              })
          })
      })"

definition ns_handle_connection_request ::
    "aead_api \<Rightarrow> netcode_server \<Rightarrow> socket_addr \<Rightarrow> bytes \<Rightarrow> u64 \<Rightarrow> u64 \<Rightarrow> bytes \<Rightarrow> bytes
     \<Rightarrow> ((netcode_error + server_result) \<times> netcode_server) option" where
  "ns_handle_connection_request ae s addr version_info protocol_id expire_timestamp xnonce data =
     (if version_info \<noteq> NETCODE_VERSION_INFO then Some (Inl InvalidVersion, s)
      else if protocol_id \<noteq> ns_protocol_id s then Some (Inl InvalidProtocolID, s)
      else if as_secs (ns_current_time s) \<ge> expire_timestamp then Some (Inl Expired, s)
      else do {
        r \<leftarrow> pt_decode ae data (ns_protocol_id s) expire_timestamp xnonce (ns_connect_key s);
        (case r of
          Inl e \<Rightarrow> Some (Inl (TokenError e), s)
        | Inr connect_token \<Rightarrow>
            if ns_secure s \<and> \<not> list_ex (\<lambda>a. a \<in> set (ns_public_addresses s)) (somes (pt_server_addresses connect_token))
            then Some (Inl NotInHostList, s)
            else if find_client_mut_by_id (ns_clients s) (pt_client_id connect_token) \<noteq> None
              \<or> find_client_mut_by_addr (ns_clients s) addr \<noteq> None
            then Some (Inr ResultNone, s)
            else if hm_get (ns_pending_clients s) addr = None
              \<and> length (ns_pending_clients s) \<ge> NETCODE_MAX_PENDING_CLIENTS
            then Some (Inr ResultNone, s)
            else do {
              let mac = drop (NETCODE_CONNECT_TOKEN_PRIVATE_BYTES - NETCODE_MAC_BYTES) data;
              (added, s) \<leftarrow> find_or_add_connect_token_entry s
                \<lparr>te_time = ns_current_time s, te_address = addr, te_mac = mac\<rparr>;
              if \<not> added then Some (Inr ResultNone, s)
              else ns_answer_request ae s addr expire_timestamp connect_token
            })
      })"

section \<open>Packets\<close>

definition ns_generate_payload_packet ::
    "aead_api \<Rightarrow> netcode_server \<Rightarrow> u64 \<Rightarrow> bytes
     \<Rightarrow> ((netcode_error + socket_addr \<times> bytes) \<times> netcode_server) option" where
  "ns_generate_payload_packet ae s client_id payload =
     (if length payload > NETCODE_MAX_PAYLOAD_BYTES then Some (Inl PayloadAboveLimit, s)
      else case find_client_mut_by_id (ns_clients s) client_id of
        Some (slot, client) \<Rightarrow> do {
          r \<leftarrow> packet_encode ae (Payload payload) NETCODE_MAX_PACKET_BYTES (ns_protocol_id s)
            (Some (cn_sequence client, cn_send_key client));
          (case r of
            Inl e \<Rightarrow> Some (Inl e, s)
          | Inr out \<Rightarrow> do {
              sequence \<leftarrow> uadd (cn_sequence client) 1;
              let client = client\<lparr>cn_sequence := sequence, cn_last_packet_send_time := ns_current_time s\<rparr>;
              Some (Inr (cn_addr client, out), s\<lparr>ns_clients := (ns_clients s)[slot := Some client]\<rparr>)
            })
        }
      | None \<Rightarrow> Some (Inl NoSuchClient, s))"

text \<open>\<open>process_packet_internal\<close> by its parts: a packet of a connected client, of a pending client (with
  the response whose challenge token decoded apart), and of an unknown address.\<close>

definition ns_from_connected ::
    "aead_api \<Rightarrow> netcode_server \<Rightarrow> socket_addr \<Rightarrow> bytes \<Rightarrow> usize \<Rightarrow> connection
     \<Rightarrow> ((netcode_error + server_result) \<times> netcode_server) option" where
  "ns_from_connected ae s addr buffer slot client = do {
     (r, rp) \<leftarrow> packet_decode ae buffer (ns_protocol_id s) (Some (cn_receive_key client))
       (Some (cn_replay_protection client));
     rp \<leftarrow> rp;
     let client = client\<lparr>cn_replay_protection := rp\<rparr>;
     (case r of
       Inl e \<Rightarrow> Some (Inl e, s\<lparr>ns_clients := (ns_clients s)[slot := Some client]\<rparr>)
     | Inr (_, packet) \<Rightarrow> do {
         let client = client\<lparr>cn_last_packet_received_time := ns_current_time s\<rparr>;
         let confirmed = client\<lparr>cn_confirmed := True\<rparr>;
         Some (if cn_state client = ConnConnected then
             (case packet of
               DisconnectPacket \<Rightarrow>
                 (Inr (ConnectionClosed (cn_client_id client) addr None),
                  s\<lparr>ns_clients := (ns_clients s)[slot := None]\<rparr>)
             | Payload payload \<Rightarrow>
                 (Inr (PayloadReceived (cn_client_id client) payload),
                  s\<lparr>ns_clients := (ns_clients s)[slot := Some confirmed]\<rparr>)
             | KeepAlive _ _ \<Rightarrow>
                 (Inr ResultNone, s\<lparr>ns_clients := (ns_clients s)[slot := Some confirmed]\<rparr>)
             | _ \<Rightarrow> (Inr ResultNone, s\<lparr>ns_clients := (ns_clients s)[slot := Some client]\<rparr>))
           else (Inr ResultNone, s\<lparr>ns_clients := (ns_clients s)[slot := Some client]\<rparr>))
       })
   }"

text \<open>\<open>position(|c| c.is_none())\<close>\<close>

fun first_free :: "usize \<Rightarrow> connection option list \<Rightarrow> usize option" where
  "first_free i [] = None"
| "first_free i (None # clients) = Some i"
| "first_free i (Some _ # clients) = first_free (i + 1) clients"

definition ns_challenge_answered ::
    "aead_api \<Rightarrow> netcode_server \<Rightarrow> socket_addr \<Rightarrow> challenge_token
     \<Rightarrow> ((netcode_error + server_result) \<times> netcode_server) option" where
  "ns_challenge_answered ae s addr challenge_token = do {
     pending \<leftarrow> hm_get (ns_pending_clients s) addr;
     let s = s\<lparr>ns_pending_clients := hm_remove addr (ns_pending_clients s)\<rparr>;
     if find_client_slot_by_id (ns_clients s) (cht_client_id challenge_token) \<noteq> None then Some (Inr ResultNone, s)
     else (case first_free 0 (ns_clients s) of
       None \<Rightarrow> do {
         r \<leftarrow> packet_encode ae ConnectionDenied NETCODE_MAX_PACKET_BYTES (ns_protocol_id s)
           (Some (ns_global_sequence s, cn_send_key pending));
         (case r of
           Inl e \<Rightarrow> Some (Inl e, s)
         | Inr out \<Rightarrow> do {
             global_sequence \<leftarrow> uadd (ns_global_sequence s) 1;
             Some (Inr (PacketToSend addr out), s\<lparr>ns_global_sequence := global_sequence\<rparr>)
           })
       }
     | Some client_index \<Rightarrow> do {
         let pending = pending\<lparr>cn_state := ConnConnected, cn_user_data := cht_user_data challenge_token,
           cn_last_packet_send_time := ns_current_time s\<rparr>;
         r \<leftarrow> packet_encode ae (KeepAlive (client_index mod 2 ^ 32) (ns_max_clients s mod 2 ^ 32))
           NETCODE_MAX_PACKET_BYTES (ns_protocol_id s) (Some (cn_sequence pending, cn_send_key pending));
         (case r of
           Inl e \<Rightarrow> Some (Inl e, s)
         | Inr out \<Rightarrow> do {
             sequence \<leftarrow> uadd (cn_sequence pending) 1;
             let pending = pending\<lparr>cn_sequence := sequence\<rparr>;
             Some (Inr (ConnectionOpened (cn_client_id pending) addr (cn_user_data pending) out),
               s\<lparr>ns_clients := (ns_clients s)[client_index := Some pending]\<rparr>)
           })
       })
   }"

definition ns_pending_packet ::
    "aead_api \<Rightarrow> netcode_server \<Rightarrow> socket_addr \<Rightarrow> nc_packet
     \<Rightarrow> ((netcode_error + server_result) \<times> netcode_server) option" where
  "ns_pending_packet ae s addr packet =
     (case packet of
       ConnectionRequest version_info protocol_id expire_timestamp xnonce data \<Rightarrow>
         ns_handle_connection_request ae s addr version_info protocol_id expire_timestamp xnonce data
     | Response token_sequence token_data \<Rightarrow> do {
         r \<leftarrow> challenge_token_decode ae token_data token_sequence (ns_challenge_key s);
         (case r of
           Inl e \<Rightarrow> Some (Inl e, s)
         | Inr challenge_token \<Rightarrow> ns_challenge_answered ae s addr challenge_token)
       }
     | _ \<Rightarrow> Some (Inr ResultNone, s))"

definition ns_from_pending ::
    "aead_api \<Rightarrow> netcode_server \<Rightarrow> socket_addr \<Rightarrow> bytes \<Rightarrow> connection
     \<Rightarrow> ((netcode_error + server_result) \<times> netcode_server) option" where
  "ns_from_pending ae s addr buffer pending = do {
     (r, rp) \<leftarrow> packet_decode ae buffer (ns_protocol_id s) (Some (cn_receive_key pending))
       (Some (cn_replay_protection pending));
     rp \<leftarrow> rp;
     let pending = pending\<lparr>cn_replay_protection := rp\<rparr>;
     (case r of
       Inl e \<Rightarrow> Some (Inl e, s\<lparr>ns_pending_clients := hm_insert addr pending (ns_pending_clients s)\<rparr>)
     | Inr (_, packet) \<Rightarrow> do {
         let pending = pending\<lparr>cn_last_packet_received_time := ns_current_time s\<rparr>;
         let s = s\<lparr>ns_pending_clients := hm_insert addr pending (ns_pending_clients s)\<rparr>;
         ns_pending_packet ae s addr packet
       })
   }"

definition ns_from_unknown ::
    "aead_api \<Rightarrow> netcode_server \<Rightarrow> socket_addr \<Rightarrow> bytes
     \<Rightarrow> ((netcode_error + server_result) \<times> netcode_server) option" where
  "ns_from_unknown ae s addr buffer = do {
     (r, _) \<leftarrow> packet_decode ae buffer (ns_protocol_id s) None None;
     (case r of
       Inl e \<Rightarrow> Some (Inl e, s)
     | Inr (_, packet) \<Rightarrow>
         (case packet of
           ConnectionRequest version_info protocol_id expire_timestamp xnonce data \<Rightarrow>
             ns_handle_connection_request ae s addr version_info protocol_id expire_timestamp xnonce data
         | _ \<Rightarrow> None))
   }"

definition ns_process_packet_internal ::
    "aead_api \<Rightarrow> netcode_server \<Rightarrow> socket_addr \<Rightarrow> bytes
     \<Rightarrow> ((netcode_error + server_result) \<times> netcode_server) option" where
  "ns_process_packet_internal ae s addr buffer =
     (if length buffer < 2 + NETCODE_MAC_BYTES then Some (Inl PacketTooSmall, s)
      else case find_client_mut_by_addr (ns_clients s) addr of
        Some (slot, client) \<Rightarrow> ns_from_connected ae s addr buffer slot client
      | None \<Rightarrow>
         (case hm_get (ns_pending_clients s) addr of
           Some pending \<Rightarrow> ns_from_pending ae s addr buffer pending
         | None \<Rightarrow> ns_from_unknown ae s addr buffer))"

definition ns_process_packet ::
    "aead_api \<Rightarrow> netcode_server \<Rightarrow> socket_addr \<Rightarrow> bytes \<Rightarrow> (server_result \<times> netcode_server) option" where
  "ns_process_packet ae s addr buffer = do {
     (r, s) \<leftarrow> ns_process_packet_internal ae s addr buffer;
     Some (case r of Inl e \<Rightarrow> ResultNone | Inr r \<Rightarrow> r, s)
   }"

section \<open>The other operations\<close>

definition ns_clients_slot :: "netcode_server \<Rightarrow> usize list" where
  "ns_clients_slot s = map fst (filter (\<lambda>(index, slot). slot \<noteq> None) (enumerate 0 (ns_clients s)))"

definition ns_clients_id :: "netcode_server \<Rightarrow> u64 list" where
  "ns_clients_id s = map cn_client_id (somes (ns_clients s))"

definition ns_set_max_clients :: "netcode_server \<Rightarrow> usize \<Rightarrow> netcode_server" where
  "ns_set_max_clients s max_clients = s\<lparr>ns_max_clients := min max_clients NETCODE_MAX_CLIENTS\<rparr>"

definition ns_connected_clients :: "netcode_server \<Rightarrow> usize" where
  "ns_connected_clients s = length (filter (\<lambda>slot. slot \<noteq> None) (ns_clients s))"

definition ns_update :: "netcode_server \<Rightarrow> duration \<Rightarrow> netcode_server option" where
  "ns_update s elapsed = do {
     now \<leftarrow> dadd (ns_current_time s) elapsed;
     let pending = map (\<lambda>(a, c). (a, if as_secs now > cn_expire_timestamp c then c\<lparr>cn_state := ConnDisconnected\<rparr> else c))
       (ns_pending_clients s);
     Some (s\<lparr>ns_current_time := now,
       ns_pending_clients := filter (\<lambda>(a, c). cn_state c \<noteq> ConnDisconnected) pending\<rparr>)
   }"

definition ns_update_client :: "aead_api \<Rightarrow> netcode_server \<Rightarrow> u64 \<Rightarrow> (server_result \<times> netcode_server) option" where
  "ns_update_client ae s client_id =
     (case find_client_slot_by_id (ns_clients s) client_id of
        None \<Rightarrow> Some (ResultNone, s)
      | Some slot \<Rightarrow> do {
          client \<leftarrow> vec_get (ns_clients s) slot;
          (case client of
            None \<Rightarrow> Some (ResultNone, s)
          | Some client \<Rightarrow> do {
              connection_timed_out \<leftarrow>
                (if cn_timeout_seconds client > 0 then do {
                   limit \<leftarrow> dadd (cn_last_packet_received_time client) (from_secs (nat (cn_timeout_seconds client)));
                   Some (limit < ns_current_time s)
                 } else Some False);
              let client = (if connection_timed_out then client\<lparr>cn_state := ConnDisconnected\<rparr> else client);
              if cn_state client = ConnDisconnected then do {
                let s = s\<lparr>ns_clients := (ns_clients s)[slot := None]\<rparr>;
                r \<leftarrow> packet_encode ae DisconnectPacket NETCODE_MAX_PACKET_BYTES (ns_protocol_id s)
                  (Some (cn_sequence client, cn_send_key client));
                Some (case r of
                    Inl e \<Rightarrow> ConnectionClosed client_id (cn_addr client) None
                  | Inr out \<Rightarrow> ConnectionClosed client_id (cn_addr client) (Some out), s)
              }
              else do {
                due \<leftarrow> dadd (cn_last_packet_send_time client) NETCODE_SEND_RATE;
                if due \<le> ns_current_time s then do {
                  r \<leftarrow> packet_encode ae (KeepAlive (slot mod 2 ^ 32) (ns_max_clients s mod 2 ^ 32))
                    NETCODE_MAX_PACKET_BYTES (ns_protocol_id s) (Some (cn_sequence client, cn_send_key client));
                  (case r of
                    Inl e \<Rightarrow> Some (ResultNone, s)
                  | Inr out \<Rightarrow> do {
                      sequence \<leftarrow> uadd (cn_sequence client) 1;
                      let client = client\<lparr>cn_sequence := sequence, cn_last_packet_send_time := ns_current_time s\<rparr>;
                      Some (PacketToSend (cn_addr client) out, s\<lparr>ns_clients := (ns_clients s)[slot := Some client]\<rparr>)
                    })
                }
                else Some (ResultNone, s)
              }
            })
        })"

definition ns_is_client_connected :: "netcode_server \<Rightarrow> u64 \<Rightarrow> bool" where
  "ns_is_client_connected s client_id \<longleftrightarrow> find_client_slot_by_id (ns_clients s) client_id \<noteq> None"

definition ns_disconnect :: "aead_api \<Rightarrow> netcode_server \<Rightarrow> u64 \<Rightarrow> (server_result \<times> netcode_server) option" where
  "ns_disconnect ae s client_id =
     (case find_client_slot_by_id (ns_clients s) client_id of
        Some slot \<Rightarrow> do {
          taken \<leftarrow> vec_get (ns_clients s) slot;
          client \<leftarrow> taken;
          let s = s\<lparr>ns_clients := (ns_clients s)[slot := None]\<rparr>;
          r \<leftarrow> packet_encode ae DisconnectPacket NETCODE_MAX_PACKET_BYTES (ns_protocol_id s)
            (Some (cn_sequence client, cn_send_key client));
          Some (case r of
              Inl e \<Rightarrow> ConnectionClosed client_id (cn_addr client) None
            | Inr out \<Rightarrow> ConnectionClosed client_id (cn_addr client) (Some out), s)
        }
      | None \<Rightarrow> Some (ResultNone, s))"

section \<open>The table of connect tokens\<close>

definition scan_start :: entry_scan where
  "scan_start = \<lparr>es_min = 2 ^ 64 * 1000000000 - 1, es_oldest_entry = 0, es_empty_entry = False, es_matching_entry = None\<rparr>"

definition scan_all :: "connect_token_entry \<Rightarrow> connect_token_entry option list \<Rightarrow> entry_scan" where
  "scan_all new xs = fold (scan_entry new) (enumerate 0 xs) scan_start"

lemma scan_all_Nil [simp]: "scan_all new [] = scan_start"
  by (simp add: scan_all_def)

lemma scan_all_snoc: "scan_all new (xs @ [x]) = scan_entry new (length xs, x) (scan_all new xs)"
  by (simp add: scan_all_def enumerate_append_eq)

lemma scan_match:
  "case es_matching_entry (scan_all new xs) of
     None \<Rightarrow> \<forall>e. Some e \<in> set xs \<longrightarrow> te_mac e \<noteq> te_mac new
   | Some e \<Rightarrow> Some e \<in> set xs \<and> te_mac e = te_mac new"
proof (induction xs rule: rev_induct)
  case (snoc x xs)
  then show ?case
    by (cases x) (auto simp: scan_all_snoc scan_entry_def Let_def split: option.splits if_splits)
qed (simp add: scan_start_def)

lemma scan_empty: "es_empty_entry (scan_all new xs) \<longleftrightarrow> None \<in> set xs"
proof (induction xs rule: rev_induct)
  case (snoc x xs)
  then show ?case by (cases x) (auto simp: scan_all_snoc scan_entry_def Let_def)
qed (simp add: scan_start_def)

lemma scan_free:
  "None \<in> set xs \<Longrightarrow> es_oldest_entry (scan_all new xs) < length xs \<and> xs ! es_oldest_entry (scan_all new xs) = None"
proof (induction xs rule: rev_induct)
  case (snoc x xs)
  show ?case
  proof (cases "None \<in> set xs")
    case True
    with snoc.IH show ?thesis using scan_empty[of new xs]
      by (cases x) (auto simp: scan_all_snoc scan_entry_def Let_def nth_append)
  next
    case False
    with snoc.prems show ?thesis using scan_empty[of new xs] by (auto simp: scan_all_snoc scan_entry_def)
  qed
qed simp

lemma scan_oldest:
  assumes "None \<notin> set xs" and "\<forall>e. Some e \<in> set xs \<longrightarrow> te_time e < 2 ^ 64 * 1000000000 - 1"
  shows "let a = scan_all new xs in
    (xs = [] \<and> es_min a = 2 ^ 64 * 1000000000 - 1
     \<or> (\<exists>old. es_oldest_entry a < length xs \<and> xs ! es_oldest_entry a = Some old \<and> te_time old = es_min a))
    \<and> (\<forall>e. Some e \<in> set xs \<longrightarrow> es_min a \<le> te_time e)"
  using assms
proof (induction xs rule: rev_induct)
  case (snoc x xs)
  then obtain e where x: "x = Some e" by (cases x) auto
  let ?a = "scan_all new xs"
  have ne: "\<not> es_empty_entry ?a" using snoc.prems(1) by (simp add: scan_empty)
  have e: "te_time e < 2 ^ 64 * 1000000000 - 1" using snoc.prems(2) x by simp
  note IH = snoc.IH[unfolded Let_def]
  show ?case
  proof (cases "te_time e < es_min ?a")
    case True
    then have "es_oldest_entry (scan_all new (xs @ [x])) = length xs" "es_min (scan_all new (xs @ [x])) = te_time e"
      using ne x by (simp_all add: scan_all_snoc scan_entry_def Let_def)
    then show ?thesis using IH snoc.prems x True unfolding Let_def by fastforce
  next
    case False
    then have "es_oldest_entry (scan_all new (xs @ [x])) = es_oldest_entry ?a" "es_min (scan_all new (xs @ [x])) = es_min ?a"
      using x by (simp_all add: scan_all_snoc scan_entry_def Let_def)
    moreover have "xs \<noteq> []" using False e by (auto simp: scan_start_def)
    ultimately show ?thesis using IH snoc.prems x False unfolding Let_def by (auto simp: nth_append)
  qed
qed (simp add: scan_start_def)

text \<open>The invariant of the table: no two entries have the same tag.\<close>

definition entries_ok :: "duration \<Rightarrow> connect_token_entry option list \<Rightarrow> bool" where
  "entries_ok now es \<longleftrightarrow> length es = 2048 \<and> (\<forall>e. Some e \<in> set es \<longrightarrow> te_time e \<le> now)
     \<and> (\<forall>i < length es. \<forall>j < length es. \<forall>e f. es ! i = Some e \<and> es ! j = Some f \<and> te_mac e = te_mac f \<longrightarrow> i = j)"

lemma entries_ok_mono: "entries_ok now es \<Longrightarrow> now \<le> later \<Longrightarrow> entries_ok later es"
  by (auto simp: entries_ok_def intro: order.trans)

lemma entry_set:
  assumes "entries_ok now es" and "i < 2048" and "te_time new \<le> now" and "\<forall>e. Some e \<in> set es \<longrightarrow> te_mac e \<noteq> te_mac new"
  shows "entries_ok now (es[i := Some new])"
proof -
  have "\<forall>j < length es. \<forall>f. es ! j = Some f \<longrightarrow> te_mac f \<noteq> te_mac new" using assms(4) by (metis nth_mem)
  moreover have "Some e \<in> set (es[i := Some new]) \<Longrightarrow> Some e \<in> set es \<or> e = new" for e
    using set_update_subset_insert[of es i "Some new"] by auto
  ultimately show ?thesis using assms(1,2,3) unfolding entries_ok_def by (auto simp: nth_list_update)
qed

lemma find_or_add_run:
  assumes "entries_ok now (ns_connect_token_entries s)" and "now < 2 ^ 64 * 1000000000 - 1" and "te_time new \<le> now"
  shows "(\<exists>e. Some e \<in> set (ns_connect_token_entries s) \<and> te_mac e = te_mac new
      \<and> find_or_add_connect_token_entry s new = Some (te_address e = te_address new, s))
    \<or> (\<forall>e. Some e \<in> set (ns_connect_token_entries s) \<longrightarrow> te_mac e \<noteq> te_mac new)
      \<and> (\<exists>i < 2048. find_or_add_connect_token_entry s new
            = Some (True, s\<lparr>ns_connect_token_entries := (ns_connect_token_entries s)[i := Some new]\<rparr>)
          \<and> (ns_connect_token_entries s ! i = None
             \<or> None \<notin> set (ns_connect_token_entries s) \<and> (\<exists>old. ns_connect_token_entries s ! i = Some old
                 \<and> (\<forall>e. Some e \<in> set (ns_connect_token_entries s) \<longrightarrow> te_time old \<le> te_time e))))"
proof -
  let ?es = "ns_connect_token_entries s"
  let ?a = "scan_all new ?es"
  have len: "length ?es = 2048" and t: "\<forall>e. Some e \<in> set ?es \<longrightarrow> te_time e < 2 ^ 64 * 1000000000 - 1"
    using assms(1,2) by (auto simp: entries_ok_def intro: order.strict_trans1)
  note run = find_or_add_connect_token_entry_def[of s new, folded scan_start_def, folded scan_all_def]
  show ?thesis
  proof (cases "es_matching_entry ?a")
    case (Some e)
    then show ?thesis using scan_match[of ?es new] by (auto simp: run Let_def)
  next
    case None
    have i: "es_oldest_entry ?a < 2048 \<and> (?es ! es_oldest_entry ?a = None
        \<or> None \<notin> set ?es \<and> (\<exists>old. ?es ! es_oldest_entry ?a = Some old \<and> (\<forall>e. Some e \<in> set ?es \<longrightarrow> te_time old \<le> te_time e)))"
    proof (cases "None \<in> set ?es")
      case True
      then show ?thesis using scan_free[of ?es new] len by simp
    next
      case False
      have "?es \<noteq> []" using len by auto
      then show ?thesis using scan_oldest[OF False t, of new] False len by (auto simp: Let_def)
    qed
    have "find_or_add_connect_token_entry s new
        = Some (True, s\<lparr>ns_connect_token_entries := ?es[es_oldest_entry ?a := Some new]\<rparr>)"
      using None i len by (simp add: run Let_def vec_set_def)
    moreover have "\<forall>e. Some e \<in> set ?es \<longrightarrow> te_mac e \<noteq> te_mac new" using None scan_match[of ?es new] by simp
    ultimately show ?thesis using i by blast
  qed
qed

end
