(* ===== verification/NetcodeServerInv.thy ===== *)
theory NetcodeServerInv
  imports NetcodeServer
begin

text \<open>
  The server of \<open>NetcodeServer\<close> through any sequence of operations: its invariant, that no operation
  panics on a buffer within the bounds of the decoder, and how the results tell of the
  connections.
\<close>

section \<open>Well-formed servers\<close>

text \<open>A connection whose sequence number is at most \<open>n\<close>.\<close>

definition cn_ok :: "nat \<Rightarrow> duration \<Rightarrow> connection \<Rightarrow> bool" where
  "cn_ok n now c \<longleftrightarrow> cn_client_id c < 2 ^ 64 \<and> length (cn_send_key c) = 32 \<and> length (cn_receive_key c) = 32
     \<and> length (cn_user_data c) = 256 \<and> cn_last_packet_received_time c \<le> now \<and> cn_last_packet_send_time c \<le> now
     \<and> i32_ok (cn_timeout_seconds c) \<and> cn_sequence c \<le> n
     \<and> length (rp_received_packet (cn_replay_protection c)) = 256"

text \<open>The slots: connected clients, no two with the same address.\<close>

definition clients_ok :: "nat \<Rightarrow> duration \<Rightarrow> connection option list \<Rightarrow> bool" where
  "clients_ok n now cs \<longleftrightarrow> length cs \<le> NETCODE_MAX_CLIENTS
     \<and> (\<forall>i < length cs. \<forall>c. cs ! i = Some c \<longrightarrow> cn_state c = ConnConnected \<and> cn_ok n now c)
     \<and> (\<forall>i < length cs. \<forall>j < length cs. \<forall>c d. cs ! i = Some c \<and> cs ! j = Some d \<and> cn_addr c = cn_addr d \<longrightarrow> i = j)"

definition pending_ok :: "nat \<Rightarrow> duration \<Rightarrow> (socket_addr \<times> connection) list \<Rightarrow> bool" where
  "pending_ok n now ps \<longleftrightarrow> hm_ok ps \<and> length ps \<le> NETCODE_MAX_PENDING_CLIENTS
     \<and> (\<forall>a c. hm_get ps a = Some c \<longrightarrow> cn_addr c = a \<and> cn_state c = ConnPendingResponse \<and> cn_ok n now c)"

text \<open>No address is both connected and pending.\<close>

definition apart :: "connection option list \<Rightarrow> (socket_addr \<times> connection) list \<Rightarrow> bool" where
  "apart cs ps \<longleftrightarrow> (\<forall>i < length cs. \<forall>c. cs ! i = Some c \<longrightarrow> hm_get ps (cn_addr c) = None)"

definition NS_TIME_LIMIT :: duration where
  "NS_TIME_LIMIT = from_secs (2 ^ 64 - 2 ^ 31)"

definition ns_ok :: "nat \<Rightarrow> netcode_server \<Rightarrow> bool" where
  "ns_ok n s \<longleftrightarrow> clients_ok n (ns_current_time s) (ns_clients s) \<and> pending_ok n (ns_current_time s) (ns_pending_clients s)
     \<and> apart (ns_clients s) (ns_pending_clients s) \<and> entries_ok (ns_current_time s) (ns_connect_token_entries s)
     \<and> length (ns_connect_key s) = 32 \<and> length (ns_challenge_key s) = 32 \<and> ns_protocol_id s < 2 ^ 64
     \<and> ns_max_clients s \<le> NETCODE_MAX_CLIENTS \<and> ns_global_sequence s \<le> n \<and> ns_challenge_sequence s \<le> n
     \<and> ns_current_time s < NS_TIME_LIMIT"

lemma cn_ok_mono: "cn_ok n now c \<Longrightarrow> n \<le> m \<Longrightarrow> now \<le> later \<Longrightarrow> cn_ok m later c"
  by (auto simp: cn_ok_def)

lemma clients_ok_mono: "clients_ok n now cs \<Longrightarrow> n \<le> m \<Longrightarrow> now \<le> later \<Longrightarrow> clients_ok m later cs"
  unfolding clients_ok_def by (meson cn_ok_mono)

lemma pending_ok_mono: "pending_ok n now ps \<Longrightarrow> n \<le> m \<Longrightarrow> now \<le> later \<Longrightarrow> pending_ok m later ps"
  unfolding pending_ok_def by (meson cn_ok_mono)

lemma ns_ok_mono: "ns_ok n s \<Longrightarrow> n \<le> m \<Longrightarrow> ns_ok m s"
  unfolding ns_ok_def by (meson clients_ok_mono pending_ok_mono order.refl order.trans)

lemma ns_ok_new: "ns_new key config = Some s \<Longrightarrow> length key = 32 \<Longrightarrow> sc_protocol_id config < 2 ^ 64 \<Longrightarrow>
    sc_current_time config < NS_TIME_LIMIT \<Longrightarrow>
    (\<forall>k. sc_authentication config = ServerSecure k \<longrightarrow> length k = 32) \<Longrightarrow> ns_ok 0 s"
  by (auto simp: ns_new_def rust_assert_def ns_ok_def entries_ok_def clients_ok_def pending_ok_def apart_def netcode_consts
      split: server_authentication.splits if_splits)

section \<open>Slots\<close>

lemma find_slot_Some:
  "find_slot f k cs = Some (j, c) \<Longrightarrow> \<exists>i. j = k + i \<and> i < length cs \<and> cs ! i = Some c \<and> f c"
proof (induction f k cs rule: find_slot.induct)
  case (2 f i clients)
  then obtain m where "j = i + 1 + m" "m < length clients" "clients ! m = Some c" "f c" by auto
  then show ?case by (intro exI[of _ "Suc m"]) simp
next
  case (3 f i d clients)
  show ?case
  proof (cases "f d")
    case False
    with 3 obtain m where "j = i + 1 + m" "m < length clients" "clients ! m = Some c" "f c" by auto
    then show ?thesis by (intro exI[of _ "Suc m"]) simp
  qed (use 3 in auto)
qed simp

lemma find_slot_None: "find_slot f k cs = None \<longleftrightarrow> (\<forall>i < length cs. \<forall>c. cs ! i = Some c \<longrightarrow> \<not> f c)"
proof (induction f k cs rule: find_slot.induct)
  case (2 f i clients)
  then show ?case by (auto simp: nth_Cons split: nat.splits)
next
  case (3 f i d clients)
  then show ?case by (auto simp: nth_Cons split: nat.splits)
qed simp

lemma find_slot_at: "find_slot f 0 cs = Some (i, c) \<Longrightarrow> i < length cs \<and> cs ! i = Some c \<and> f c"
  using find_slot_Some[of f 0 cs i c] by auto

lemma first_free_Some: "first_free k cs = Some j \<Longrightarrow> \<exists>i. j = k + i \<and> i < length cs \<and> cs ! i = None"
proof (induction k cs rule: first_free.induct)
  case (3 i d clients)
  then obtain m where "j = i + 1 + m" "m < length clients" "clients ! m = None" by auto
  then show ?case by (intro exI[of _ "Suc m"]) simp
qed auto

lemma length_hm_insert: "length (hm_insert k v m) = (if hm_get m k = None then Suc (length m) else length m)"
  unfolding hm_insert_def hm_get_def by (induction m) auto

lemma length_hm_remove: "length (hm_remove k m) \<le> length m"
  unfolding hm_remove_def by (rule length_delete_le)

text \<open>Updating and clearing the slot of a client, and putting a new one in a free slot.\<close>

lemma clients_ok_update:
  assumes "clients_ok n now cs" and "i < length cs" and "cs ! i = Some c" and "cn_addr c' = cn_addr c"
    and "cn_state c' = ConnConnected" and "cn_ok n now c'"
  shows "clients_ok n now (cs[i := Some c'])"
  using assms unfolding clients_ok_def by (auto simp: nth_list_update)

lemma nth_clear: "cs[i := None] ! j = Some c \<Longrightarrow> j < length cs \<Longrightarrow> cs ! j = Some c"
  by (cases "i < length cs") (auto simp: nth_list_update split: if_splits)

lemma clients_ok_clear: "clients_ok n now cs \<Longrightarrow> clients_ok n now (cs[i := None])"
  unfolding clients_ok_def by (auto dest!: nth_clear)

lemma clients_ok_add:
  assumes "clients_ok n now cs" and "i < length cs" and "cn_state c = ConnConnected" and "cn_ok n now c"
    and "\<forall>j < length cs. \<forall>d. cs ! j = Some d \<longrightarrow> cn_addr d \<noteq> cn_addr c"
  shows "clients_ok n now (cs[i := Some c])"
  using assms unfolding clients_ok_def by (auto simp: nth_list_update)

lemma apart_update: "apart cs ps \<Longrightarrow> i < length cs \<Longrightarrow> cs ! i = Some c \<Longrightarrow> cn_addr c' = cn_addr c \<Longrightarrow> apart (cs[i := Some c']) ps"
  by (auto simp: apart_def nth_list_update)

lemma apart_clear: "apart cs ps \<Longrightarrow> apart (cs[i := None]) ps"
  by (auto simp: apart_def dest!: nth_clear)

lemma ns_put_client:
  assumes "ns_ok n s" and "i < length (ns_clients s)" and "ns_clients s ! i = Some c" and "cn_addr c' = cn_addr c"
    and "cn_state c' = ConnConnected" and "cn_ok m (ns_current_time s) c'" and "n \<le> m"
  shows "ns_ok m (s\<lparr>ns_clients := (ns_clients s)[i := Some c']\<rparr>)"
  using ns_ok_mono[OF assms(1,7)] assms clients_ok_update[of m "ns_current_time s" "ns_clients s" i c c'] apart_update
  by (auto simp: ns_ok_def)

lemma ns_clear_slot: "ns_ok n s \<Longrightarrow> ns_ok n (s\<lparr>ns_clients := (ns_clients s)[i := None]\<rparr>)"
  by (auto simp: ns_ok_def clients_ok_clear apart_clear)

lemma pending_ok_insert:
  assumes "pending_ok n now ps" and "cn_addr c = a" and "cn_state c = ConnPendingResponse" and "cn_ok n now c"
    and "hm_get ps a \<noteq> None \<or> length ps < NETCODE_MAX_PENDING_CLIENTS"
  shows "pending_ok n now (hm_insert a c ps)"
  using assms by (auto simp: pending_ok_def map_simps length_hm_insert split: if_splits)

lemma pending_ok_remove: "pending_ok n now ps \<Longrightarrow> pending_ok n now (hm_remove a ps)"
  using length_hm_remove[of a ps] by (auto simp: pending_ok_def map_simps split: if_splits)

lemma apart_insert: "hm_ok ps \<Longrightarrow> apart cs ps \<Longrightarrow> (\<forall>i < length cs. \<forall>c. cs ! i = Some c \<longrightarrow> cn_addr c \<noteq> a) \<Longrightarrow> apart cs (hm_insert a c ps)"
  by (auto simp: apart_def map_simps)

lemma apart_remove: "hm_ok ps \<Longrightarrow> apart cs ps \<Longrightarrow> apart cs (hm_remove a ps)"
  by (auto simp: apart_def map_simps)

lemma ns_put_pending:
  assumes "ns_ok n s" and "find_client_mut_by_addr (ns_clients s) a = None"
    and "cn_addr c = a" and "cn_state c = ConnPendingResponse" and "cn_ok n (ns_current_time s) c"
    and "hm_get (ns_pending_clients s) a \<noteq> None \<or> length (ns_pending_clients s) < NETCODE_MAX_PENDING_CLIENTS"
  shows "ns_ok n (s\<lparr>ns_pending_clients := hm_insert a c (ns_pending_clients s)\<rparr>)"
  using assms pending_ok_insert[of n "ns_current_time s" "ns_pending_clients s" c a]
    apart_insert[of "ns_pending_clients s" "ns_clients s" a c]
  by (auto simp: ns_ok_def find_client_mut_by_addr_def find_slot_None pending_ok_def)

lemma ns_remove_pending: "ns_ok n s \<Longrightarrow> ns_ok n (s\<lparr>ns_pending_clients := hm_remove a (ns_pending_clients s)\<rparr>)"
  by (auto simp: ns_ok_def pending_ok_remove apart_remove) (auto simp: pending_ok_def apart_remove)

section \<open>Operations return\<close>

text \<open>What a private token and a challenge token decode to.\<close>

definition pt_read_ok :: "private_connect_token \<Rightarrow> bool" where
  "pt_read_ok t \<longleftrightarrow> pt_client_id t < 2 ^ 64 \<and> i32_ok (pt_timeout_seconds t) \<and> length (pt_client_to_server_key t) = 32
     \<and> length (pt_server_to_client_key t) = 32 \<and> length (pt_user_data t) = 256"

lemma read_i32_ok: "read_i32 src = Inr (v, src') \<Longrightarrow> i32_ok v"
  using le_value_less[of "take 4 src"]
  by (auto simp: read_i32_def read_exact_def i32_le_value_def i32_ok_def Let_def split: if_splits)

lemma read_exact_length: "read_exact n src = Inr (b, src') \<Longrightarrow> length b = n"
  by (auto simp: read_exact_def split: if_splits)

lemma pt_read_wf: "pt_read src = Inr t \<Longrightarrow> pt_read_ok t"
  by (auto simp: pt_read_def rtry_Inr_iff pt_read_ok_def dest!: read_u64_less read_i32_ok read_exact_length)

lemma pt_decode_returns:
  assumes "16 \<le> length data"
  shows "\<exists>r. pt_decode ae data p e n k = Some r \<and> (\<forall>t. r = Inr t \<longrightarrow> pt_read_ok t)"
  using assms
  by (auto simp: pt_decode_def dencrypted_in_place_xnonce_def split_mac_def usub_def NETCODE_MAC_BYTES_def rtry_Inr_iff
      Let_def dest: pt_read_wf)

lemma challenge_token_decode_returns:
  assumes "16 \<le> length data"
  shows "\<exists>r. challenge_token_decode ae data n k = Some r \<and> (\<forall>t. r = Inr t \<longrightarrow> length (cht_user_data t) = 256)"
  using assms dencrypted_None_iff[of ae data n k "[]"]
  by (auto simp: challenge_token_decode_def challenge_token_read_def rtry_Inr_iff NETCODE_USER_DATA_BYTES_def
      dest!: read_bytes_length)

text \<open>The datagrams of a result.\<close>

fun result_packets :: "server_result \<Rightarrow> bytes list" where
  "result_packets (PacketToSend _ b) = [b]"
| "result_packets (ConnectionOpened _ _ _ b) = [b]"
| "result_packets (ConnectionClosed _ _ (Some b)) = [b]"
| "result_packets _ = []"

definition small_packets :: "netcode_error + server_result \<Rightarrow> bool" where
  "small_packets r \<longleftrightarrow> (\<forall>x. r = Inr x \<longrightarrow> (\<forall>b \<in> set (result_packets x). length b \<le> 1325))"

lemma small_packets_simps [simp]:
  "small_packets (Inl e)" "small_packets (Inr ResultNone)" "small_packets (Inr (PayloadReceived i p))"
  "small_packets (Inr (PacketToSend a b)) \<longleftrightarrow> length b \<le> 1325"
  "small_packets (Inr (ConnectionOpened i a d b)) \<longleftrightarrow> length b \<le> 1325"
  "small_packets (Inr (ConnectionClosed i a None))"
  "small_packets (Inr (ConnectionClosed i a (Some b))) \<longleftrightarrow> length b \<le> 1325"
  by (simp_all add: small_packets_def)

text \<open>The addresses that are connected, and how a result tells of their change.\<close>

definition addrs :: "connection option list \<Rightarrow> socket_addr set" where
  "addrs cs = {cn_addr c |c. Some c \<in> set cs}"

fun session_step :: "connection option list \<Rightarrow> netcode_error + server_result \<Rightarrow> connection option list \<Rightarrow> bool" where
  "session_step cs (Inr (ConnectionOpened i a d b)) cs' \<longleftrightarrow> a \<notin> addrs cs \<and> addrs cs' = insert a (addrs cs)"
| "session_step cs (Inr (ConnectionClosed i a b)) cs' \<longleftrightarrow> a \<in> addrs cs \<and> addrs cs' = addrs cs - {a}"
| "session_step cs r cs' \<longleftrightarrow> addrs cs' = addrs cs"

lemma addrs_nth: "addrs cs = {a. \<exists>i < length cs. \<exists>c. cs ! i = Some c \<and> cn_addr c = a}"
  by (auto simp: addrs_def in_set_conv_nth)

lemma addrs_update:
  assumes "i < length cs" and "cs ! i = Some c" and "cn_addr c' = cn_addr c"
  shows "addrs (cs[i := Some c']) = addrs cs"
proof -
  have "(\<exists>j < length cs. \<exists>d. cs[i := Some c'] ! j = Some d \<and> cn_addr d = a)
      \<longleftrightarrow> (\<exists>j < length cs. \<exists>d. cs ! j = Some d \<and> cn_addr d = a)" for a
    using assms by (auto simp: nth_list_update) (metis option.inject option.distinct(1))
  then show ?thesis by (simp add: addrs_nth)
qed

lemma addrs_clear:
  assumes "clients_ok n now cs" and "i < length cs" and "cs ! i = Some c"
  shows "addrs (cs[i := None]) = addrs cs - {cn_addr c}" and "cn_addr c \<in> addrs cs"
proof -
  have "(\<exists>j < length cs. \<exists>d. cs[i := None] ! j = Some d \<and> cn_addr d = a)
      \<longleftrightarrow> (\<exists>j < length cs. \<exists>d. cs ! j = Some d \<and> cn_addr d = a) \<and> a \<noteq> cn_addr c" for a
  proof (cases "a = cn_addr c")
    case True
    then show ?thesis using assms by (fastforce simp: clients_ok_def nth_list_update split: if_splits)
  next
    case False
    then show ?thesis using assms(2,3) by (auto simp: nth_list_update split: if_splits) (metis option.inject option.distinct(1))
  qed
  then show "addrs (cs[i := None]) = addrs cs - {cn_addr c}" by (auto simp: addrs_nth)
  show "cn_addr c \<in> addrs cs" using assms by (auto simp: addrs_nth)
qed

lemma ns_addrs_clear:
  assumes "ns_ok n s" and "i < length (ns_clients s)" and "ns_clients s ! i = Some c"
  shows "addrs ((ns_clients s)[i := None]) = addrs (ns_clients s) - {cn_addr c}" and "cn_addr c \<in> addrs (ns_clients s)"
  using assms addrs_clear[of n "ns_current_time s" "ns_clients s" i c] by (auto simp: ns_ok_def)

lemma addrs_add:
  assumes "i < length cs" and "cs ! i = None"
  shows "addrs (cs[i := Some c]) = insert (cn_addr c) (addrs cs)"
proof -
  have "(\<exists>j < length cs. \<exists>d. cs[i := Some c] ! j = Some d \<and> cn_addr d = a)
      \<longleftrightarrow> a = cn_addr c \<or> (\<exists>j < length cs. \<exists>d. cs ! j = Some d \<and> cn_addr d = a)" for a
    using assms by (auto simp: nth_list_update) (metis option.inject option.distinct(1))
  then show ?thesis by (auto simp: addrs_nth)
qed

lemma find_addr_None: "find_client_mut_by_addr cs a = None \<longleftrightarrow> a \<notin> addrs cs"
  by (auto simp: find_client_mut_by_addr_def find_slot_None addrs_nth)

lemma ns_ok_global: "ns_ok n s \<Longrightarrow> ns_ok (n + 1) (s\<lparr>ns_global_sequence := Suc (ns_global_sequence s)\<rparr>)"
  using ns_ok_mono[of n s "n + 1"] by (auto simp: ns_ok_def)

lemma ns_ok_challenge: "ns_ok n s \<Longrightarrow> ns_ok (n + 1) (s\<lparr>ns_challenge_sequence := Suc (ns_challenge_sequence s)\<rparr>)"
  using ns_ok_mono[of n s "n + 1"] by (auto simp: ns_ok_def)

context aead_contract
begin

lemma ns_encode_returns:
  assumes "packet_ok p" and "seq < 2 ^ 64" and "length k = 32"
  shows "\<exists>b. packet_encode ae p NETCODE_MAX_PACKET_BYTES protocol_id (Some (seq, k)) = Some (Inr b) \<and> length b \<le> 1325"
  by (rule packet_encode_returns) (use assms in \<open>simp_all add: NETCODE_MAX_PACKET_BYTES_def\<close>)

lemma answer_request_returns:
  assumes "ns_ok n s" and "n + 1 < 2 ^ 64" and "find_client_mut_by_addr (ns_clients s) addr = None" and "pt_read_ok t"
    and "hm_get (ns_pending_clients s) addr \<noteq> None \<or> length (ns_pending_clients s) < NETCODE_MAX_PENDING_CLIENTS"
  shows "\<exists>r s'. ns_answer_request ae s addr expire t = Some (r, s') \<and> ns_ok (n + 1) s' \<and> small_packets r \<and> session_step (ns_clients s) r (ns_clients s')
    \<and> ns_current_time s' = ns_current_time s"
proof -
  have g: "ns_global_sequence s < 2 ^ 64" "ns_global_sequence s + 1 < 2 ^ 64" "ns_challenge_sequence s + 1 < 2 ^ 64"
    using assms(1,2) by (auto simp: ns_ok_def)
  have k: "length (pt_server_to_client_key t) = 32" using assms(4) by (simp add: pt_read_ok_def)
  show ?thesis
  proof (cases "length (somes (ns_clients s)) \<ge> ns_max_clients s")
    case True
    from ns_encode_returns[of ConnectionDenied, OF _ g(1) k, of "ns_protocol_id s"] obtain b where
      b: "packet_encode ae ConnectionDenied NETCODE_MAX_PACKET_BYTES (ns_protocol_id s)
        (Some (ns_global_sequence s, pt_server_to_client_key t)) = Some (Inr b)" "length b \<le> 1325" by auto
    show ?thesis using True b g(2) ns_ok_global[OF ns_remove_pending[OF assms(1), of addr]]
      by (simp add: ns_answer_request_def uadd_def)
  next
    case False
    let ?c = "ns_challenge_sequence s + 1"
    have "length (ns_challenge_key s) = 32" using assms(1) by (simp add: ns_ok_def)
    from challenge_run[OF _ _ this, of "pt_client_id t" "pt_user_data t" ?c] assms(4) obtain d where
      d: "generate_challenge ae (pt_client_id t) (pt_user_data t) ?c (ns_challenge_key s) = Some (Inr (Challenge ?c d))"
      "length d = 300" by (auto simp: pt_read_ok_def)
    have "packet_ok (Challenge ?c d)" using d(2) g(3) by simp
    from ns_encode_returns[OF this g(1) k, of "ns_protocol_id s"] obtain b where
      b: "packet_encode ae (Challenge ?c d) NETCODE_MAX_PACKET_BYTES (ns_protocol_id s)
        (Some (ns_global_sequence s, pt_server_to_client_key t)) = Some (Inr b)" "length b \<le> 1325" by auto
    let ?s = "s\<lparr>ns_challenge_sequence := ?c, ns_global_sequence := ns_global_sequence s + 1\<rparr>"
    let ?p = "(case hm_get (ns_pending_clients s) addr of Some p \<Rightarrow> p
        | None \<Rightarrow> pending_connection ?s t addr expire)
      \<lparr>cn_last_packet_received_time := ns_current_time s, cn_last_packet_send_time := ns_current_time s\<rparr>"
    have ok: "ns_ok (n + 1) ?s" using ns_ok_mono[OF assms(1), of "n + 1"] assms(1) by (auto simp: ns_ok_def)
    have "cn_addr ?p = addr \<and> cn_state ?p = ConnPendingResponse \<and> cn_ok (n + 1) (ns_current_time s) ?p"
      using ok assms(4)
      by (auto simp: ns_ok_def pending_ok_def pending_connection_def cn_ok_def pt_read_ok_def rp_new_def
          NETCODE_REPLAY_BUFFER_SIZE_def split: option.splits)
    then have "ns_ok (n + 1) (?s\<lparr>ns_pending_clients := hm_insert addr ?p (ns_pending_clients ?s)\<rparr>)"
      by (intro ns_put_pending[OF ok]) (use assms(3,5) in auto)
    then show ?thesis using False g d(1) b
      by (cases "hm_get (ns_pending_clients s) addr") (simp_all add: ns_answer_request_def uadd_def pending_connection_def)
  qed
qed

end

lemma find_or_add_returns:
  assumes "ns_ok n s" and "te_time new = ns_current_time s"
  shows "\<exists>r es. find_or_add_connect_token_entry s new = Some (r, s\<lparr>ns_connect_token_entries := es\<rparr>)
    \<and> ns_ok n (s\<lparr>ns_connect_token_entries := es\<rparr>)"
proof -
  have e: "entries_ok (ns_current_time s) (ns_connect_token_entries s)" "ns_current_time s < 2 ^ 64 * 1000000000 - 1"
    using assms(1) by (auto simp: ns_ok_def NS_TIME_LIMIT_def from_secs_def)
  have put: "ns_ok n (s\<lparr>ns_connect_token_entries := es\<rparr>)" if "entries_ok (ns_current_time s) es" for es
    using assms(1) that by (simp add: ns_ok_def)
  from find_or_add_run[OF e eq_refl[OF assms(2)]] consider
    x :: connect_token_entry where "find_or_add_connect_token_entry s new = Some (te_address x = te_address new, s)"
    | i where "\<forall>e. Some e \<in> set (ns_connect_token_entries s) \<longrightarrow> te_mac e \<noteq> te_mac new" "i < 2048"
      "find_or_add_connect_token_entry s new
        = Some (True, s\<lparr>ns_connect_token_entries := (ns_connect_token_entries s)[i := Some new]\<rparr>)" by blast
  then show ?thesis
  proof cases
    case 1
    then show ?thesis using assms(1)
      by (intro exI[of _ "te_address x = te_address new"] exI[of _ "ns_connect_token_entries s"]) simp
  next
    case 2
    then show ?thesis using entry_set[OF e(1), of i new] assms(2) put by auto
  qed
qed

context aead_contract
begin

lemma handle_request_returns:
  assumes "ns_ok n s" and "n + 1 < 2 ^ 64" and "length data = 1024"
  shows "\<exists>r s'. ns_handle_connection_request ae s addr version_info protocol_id expire xnonce data = Some (r, s')
    \<and> ns_ok (n + 1) s' \<and> small_packets r \<and> session_step (ns_clients s) r (ns_clients s')
    \<and> ns_current_time s' = ns_current_time s"
proof -
  let ?same = "\<exists>r s'. Some (Inr ResultNone, s) = Some (r, s') \<and> ns_ok (n + 1) s' \<and> small_packets r \<and> session_step (ns_clients s) r (ns_clients s')
    \<and> ns_current_time s' = ns_current_time s"
  have ok1: "ns_ok (n + 1) s" using ns_ok_mono[OF assms(1)] by simp
  from pt_decode_returns[of data ae "ns_protocol_id s" expire xnonce "ns_connect_key s"] assms(3) obtain r where
    r: "pt_decode ae data (ns_protocol_id s) expire xnonce (ns_connect_key s) = Some r" "\<forall>t. r = Inr t \<longrightarrow> pt_read_ok t" by auto
  let ?new = "\<lparr>te_time = ns_current_time s, te_address = addr,
    te_mac = drop (NETCODE_CONNECT_TOKEN_PRIVATE_BYTES - NETCODE_MAC_BYTES) data\<rparr>"
  from find_or_add_returns[OF assms(1), of ?new] obtain added es where
    e: "find_or_add_connect_token_entry s ?new = Some (added, s\<lparr>ns_connect_token_entries := es\<rparr>)"
    "ns_ok n (s\<lparr>ns_connect_token_entries := es\<rparr>)" by auto
  have ok2: "ns_ok (n + 1) (s\<lparr>ns_connect_token_entries := es\<rparr>)" using ns_ok_mono[OF e(2)] by simp
  have last: "\<exists>r s'. ns_answer_request ae (s\<lparr>ns_connect_token_entries := es\<rparr>) addr expire t = Some (r, s')
      \<and> ns_ok (n + 1) s' \<and> small_packets r \<and> session_step (ns_clients s) r (ns_clients s')
    \<and> ns_current_time s' = ns_current_time s"
    if "pt_read_ok t" "find_client_mut_by_addr (ns_clients s) addr = None"
      "\<not> (hm_get (ns_pending_clients s) addr = None \<and> length (ns_pending_clients s) \<ge> NETCODE_MAX_PENDING_CLIENTS)" for t
    using answer_request_returns[OF e(2) assms(2), of addr t expire] that by auto
  show ?thesis
  proof (cases r)
    case (Inl x)
    then show ?thesis using ok1 r(1) by (auto simp: ns_handle_connection_request_def)
  next
    case (Inr t)
    show ?thesis using last[of t] r Inr e(1) ok1 ok2
      by (cases "find_client_mut_by_addr (ns_clients s) addr"; cases added)
        (auto simp: ns_handle_connection_request_def Let_def)
  qed
qed

end

context aead_contract
begin

lemma from_connected_returns:
  assumes "ns_ok n s" and "buffer_ok buffer" and "cn_addr client = addr" and "slot < length (ns_clients s)" and "ns_clients s ! slot = Some client"
  shows "\<exists>r s'. ns_from_connected ae s addr buffer slot client = Some (r, s') \<and> ns_ok n s' \<and> small_packets r \<and> session_step (ns_clients s) r (ns_clients s')
    \<and> ns_current_time s' = ns_current_time s"
proof -
  have c: "cn_ok n (ns_current_time s) client" "cn_state client = ConnConnected"
    using assms(1,4,5) by (auto simp: ns_ok_def clients_ok_def)
  then have "length (rp_received_packet (cn_replay_protection client)) = 256" by (simp add: cn_ok_def)
  from packet_decode_returns[OF assms(2) this, of ae "ns_protocol_id s" "Some (cn_receive_key client)"] obtain r rp where
    d: "packet_decode ae buffer (ns_protocol_id s) (Some (cn_receive_key client)) (Some (cn_replay_protection client))
      = Some (r, Some rp)" "length (rp_received_packet rp) = 256" by blast
  have put: "ns_ok n (s\<lparr>ns_clients := (ns_clients s)[slot := Some c']\<rparr>)"
    if "cn_addr c' = cn_addr client" "cn_state c' = ConnConnected" "cn_ok n (ns_current_time s) c'" for c'
    by (rule ns_put_client[OF assms(1,4,5) that order.refl])
  show ?thesis
  proof (cases r)
    case (Inl e)
    have "ns_ok n (s\<lparr>ns_clients := (ns_clients s)[slot := Some (client\<lparr>cn_replay_protection := rp\<rparr>)]\<rparr>)"
      by (rule put) (use c d(2) in \<open>auto simp: cn_ok_def\<close>)
    then show ?thesis using d(1) Inl by (simp add: ns_from_connected_def Let_def addrs_update[OF assms(4,5)])
  next
    case (Inr np)
    obtain m p where np: "np = (m, p)" by (cases np)
    let ?c = "client\<lparr>cn_replay_protection := rp, cn_last_packet_received_time := ns_current_time s\<rparr>"
    have 1: "ns_ok n (s\<lparr>ns_clients := (ns_clients s)[slot := Some ?c]\<rparr>)"
      by (rule put) (use c d(2) in \<open>auto simp: cn_ok_def\<close>)
    have 2: "ns_ok n (s\<lparr>ns_clients := (ns_clients s)[slot := Some (?c\<lparr>cn_confirmed := True\<rparr>)]\<rparr>)"
      by (rule put) (use c d(2) in \<open>auto simp: cn_ok_def\<close>)
    show ?thesis using d(1) Inr np c(2) 1 2 ns_clear_slot[OF assms(1)] ns_addrs_clear[OF assms(1,4,5)] assms(3)
      by (cases p) (simp_all add: ns_from_connected_def Let_def addrs_update[OF assms(4,5)])
  qed
qed

lemma challenge_answered_returns:
  assumes "ns_ok n s" and "n + 1 < 2 ^ 64" and "hm_get (ns_pending_clients s) addr = Some pending"
    and "find_client_mut_by_addr (ns_clients s) addr = None" and "length (cht_user_data t) = 256"
  shows "\<exists>r s'. ns_challenge_answered ae s addr t = Some (r, s') \<and> ns_ok (n + 1) s' \<and> small_packets r \<and> session_step (ns_clients s) r (ns_clients s')
    \<and> ns_current_time s' = ns_current_time s"
proof -
  let ?s = "s\<lparr>ns_pending_clients := hm_remove addr (ns_pending_clients s)\<rparr>"
  have ok: "ns_ok n ?s" by (rule ns_remove_pending[OF assms(1)])
  then have ok1: "ns_ok (n + 1) ?s" by (rule ns_ok_mono) simp
  have p: "cn_ok n (ns_current_time s) pending" "cn_addr pending = addr" using assms(1,3) by (auto simp: ns_ok_def pending_ok_def)
  have g: "ns_global_sequence s < 2 ^ 64" "ns_global_sequence s + 1 < 2 ^ 64" "cn_sequence pending < 2 ^ 64"
    "cn_sequence pending + 1 < 2 ^ 64" "length (cn_send_key pending) = 32"
    using assms(1,2) p by (auto simp: ns_ok_def cn_ok_def)
  show ?thesis
  proof (cases "find_client_slot_by_id (ns_clients s) (cht_client_id t) \<noteq> None")
    case True
    then show ?thesis using assms(3) ok1 by (auto simp: ns_challenge_answered_def)
  next
    case False
    show ?thesis
    proof (cases "first_free 0 (ns_clients s)")
      case None
      from ns_encode_returns[of ConnectionDenied, OF _ g(1,5), of "ns_protocol_id s"] obtain b where
        "packet_encode ae ConnectionDenied NETCODE_MAX_PACKET_BYTES (ns_protocol_id s)
          (Some (ns_global_sequence s, cn_send_key pending)) = Some (Inr b)" "length b \<le> 1325" by auto
      then show ?thesis using assms(3) False None g(2) ns_ok_global[OF ok]
        by (simp add: ns_challenge_answered_def uadd_def)
    next
      case (Some i)
      let ?p = "pending\<lparr>cn_state := ConnConnected, cn_user_data := cht_user_data t,
        cn_last_packet_send_time := ns_current_time s, cn_sequence := cn_sequence pending + 1\<rparr>"
      have "packet_ok (KeepAlive (i mod 2 ^ 32) (ns_max_clients s mod 2 ^ 32))" by simp
      from ns_encode_returns[OF this g(3,5), of "ns_protocol_id s"] obtain b where
        b: "packet_encode ae (KeepAlive (i mod 2 ^ 32) (ns_max_clients s mod 2 ^ 32)) NETCODE_MAX_PACKET_BYTES (ns_protocol_id s)
          (Some (cn_sequence pending, cn_send_key pending)) = Some (Inr b)" "length b \<le> 1325" by auto
      have i: "i < length (ns_clients s)" using first_free_Some[OF Some] by auto
      have free: "\<forall>j < length (ns_clients s). \<forall>d. ns_clients s ! j = Some d \<longrightarrow> cn_addr d \<noteq> addr"
        using assms(4) by (simp add: find_client_mut_by_addr_def find_slot_None)
      have "clients_ok (n + 1) (ns_current_time s) ((ns_clients s)[i := Some ?p])"
        by (rule clients_ok_add) (use ok1 p i free assms(5) in \<open>auto simp: ns_ok_def cn_ok_def\<close>)
      moreover have "hm_ok (ns_pending_clients s)" using assms(1) by (simp add: ns_ok_def pending_ok_def)
      then have "apart ((ns_clients s)[i := Some ?p]) (hm_remove addr (ns_pending_clients s))"
        using ok1 i p(2) by (auto simp: ns_ok_def apart_def nth_list_update map_simps)
      ultimately have "ns_ok (n + 1) (?s\<lparr>ns_clients := (ns_clients s)[i := Some ?p]\<rparr>)"
        using ok1 by (simp add: ns_ok_def)
      moreover have "addrs ((ns_clients s)[i := Some ?p]) = insert addr (addrs (ns_clients s))"
        using addrs_add[of i "ns_clients s" ?p] first_free_Some[OF Some] p(2) by simp
      moreover have "addr \<notin> addrs (ns_clients s)" using assms(4) by (simp add: find_addr_None)
      ultimately show ?thesis using assms(3) False Some b g(4) by (simp add: ns_challenge_answered_def uadd_def)
    qed
  qed
qed

lemma from_unknown_returns:
  assumes "ns_ok n s" and "n + 1 < 2 ^ 64"
  shows "\<exists>r s'. ns_from_unknown ae s addr buffer = Some (r, s') \<and> ns_ok (n + 1) s' \<and> small_packets r \<and> session_step (ns_clients s) r (ns_clients s')
    \<and> ns_current_time s' = ns_current_time s"
proof -
  from packet_decode_no_key[of ae buffer "ns_protocol_id s"] obtain r where
    r: "packet_decode ae buffer (ns_protocol_id s) None None = Some (r, None)"
    "\<And>m p. r = Inr (m, p) \<Longrightarrow> packet_type_of p = ConnectionRequestType \<and> packet_ok p" by blast
  show ?thesis
  proof (cases r)
    case (Inl e)
    then show ?thesis using r(1) ns_ok_mono[OF assms(1), of "n + 1"] by (simp add: ns_from_unknown_def)
  next
    case (Inr mp)
    obtain m p where mp: "mp = (m, p)" by (cases mp)
    with r(2) Inr obtain v pr e x d where p: "p = ConnectionRequest v pr e x d" "length d = 1024" by (cases p) auto
    from handle_request_returns[OF assms p(2), of addr v pr e x] show ?thesis
      using r(1) Inr mp p(1) by (simp add: ns_from_unknown_def)
  qed
qed

lemma pending_packet_returns:
  assumes "ns_ok n s" and "n + 1 < 2 ^ 64" and "hm_get (ns_pending_clients s) addr = Some pending"
    and "find_client_mut_by_addr (ns_clients s) addr = None" and "packet_read_ok packet"
  shows "\<exists>r s'. ns_pending_packet ae s addr packet = Some (r, s') \<and> ns_ok (n + 1) s' \<and> small_packets r \<and> session_step (ns_clients s) r (ns_clients s')
    \<and> ns_current_time s' = ns_current_time s"
proof (cases packet)
  case (ConnectionRequest v pr e x dt)
  then have "length dt = 1024" using assms(5) by (simp add: packet_read_ok_def)
  from handle_request_returns[OF assms(1,2) this, of addr v pr e x] show ?thesis using ConnectionRequest by (simp add: ns_pending_packet_def)
next
  case (Response sq dt)
  then have "length dt = 300" using assms(5) by (simp add: packet_read_ok_def)
  then obtain q where q: "challenge_token_decode ae dt sq (ns_challenge_key s) = Some q"
    "\<forall>t. q = Inr t \<longrightarrow> length (cht_user_data t) = 256"
    using challenge_token_decode_returns[of dt ae sq "ns_challenge_key s"] by auto
  show ?thesis
  proof (cases q)
    case (Inl e)
    then show ?thesis using Response q(1) ns_ok_mono[OF assms(1), of "n + 1"] by (simp add: ns_pending_packet_def)
  next
    case (Inr t)
    with challenge_answered_returns[OF assms(1-4), of t] q show ?thesis using Response by (simp add: ns_pending_packet_def)
  qed
qed (use ns_ok_mono[OF assms(1), of "n + 1"] in \<open>simp_all add: ns_pending_packet_def\<close>)

lemma from_pending_returns:
  assumes "ns_ok n s" and "n + 1 < 2 ^ 64" and "buffer_ok buffer"
    and "hm_get (ns_pending_clients s) addr = Some pending" and "find_client_mut_by_addr (ns_clients s) addr = None"
  shows "\<exists>r s'. ns_from_pending ae s addr buffer pending = Some (r, s') \<and> ns_ok (n + 1) s' \<and> small_packets r \<and> session_step (ns_clients s) r (ns_clients s')
    \<and> ns_current_time s' = ns_current_time s"
proof -
  have p: "cn_ok n (ns_current_time s) pending" "cn_addr pending = addr" "cn_state pending = ConnPendingResponse"
    "hm_ok (ns_pending_clients s)" using assms(1,4) by (auto simp: ns_ok_def pending_ok_def)
  then have "length (rp_received_packet (cn_replay_protection pending)) = 256" by (simp add: cn_ok_def)
  from packet_decode_returns[OF assms(3) this, of ae "ns_protocol_id s" "Some (cn_receive_key pending)"] obtain r rp where
    d: "packet_decode ae buffer (ns_protocol_id s) (Some (cn_receive_key pending)) (Some (cn_replay_protection pending))
      = Some (r, Some rp)" "length (rp_received_packet rp) = 256" "\<And>m p. r = Inr (m, p) \<Longrightarrow> packet_read_ok p" by blast
  have put: "ns_ok n (s\<lparr>ns_pending_clients := hm_insert addr c (ns_pending_clients s)\<rparr>)"
    if "cn_addr c = addr" "cn_state c = ConnPendingResponse" "cn_ok n (ns_current_time s) c" for c
    by (rule ns_put_pending[OF assms(1,5) that]) (use assms(4) in simp)
  show ?thesis
  proof (cases r)
    case (Inl e)
    have "ns_ok n (s\<lparr>ns_pending_clients := hm_insert addr (pending\<lparr>cn_replay_protection := rp\<rparr>) (ns_pending_clients s)\<rparr>)"
      by (rule put) (use p d(2) in \<open>auto simp: cn_ok_def\<close>)
    then show ?thesis using d(1) Inl ns_ok_mono[of n _ "n + 1"] by (simp add: ns_from_pending_def Let_def)
  next
    case (Inr mp)
    obtain m pk where mp: "mp = (m, pk)" by (cases mp)
    let ?p = "pending\<lparr>cn_replay_protection := rp, cn_last_packet_received_time := ns_current_time s\<rparr>"
    let ?s = "s\<lparr>ns_pending_clients := hm_insert addr ?p (ns_pending_clients s)\<rparr>"
    have ok: "ns_ok n ?s" by (rule put) (use p d(2) in \<open>auto simp: cn_ok_def\<close>)
    have get: "hm_get (ns_pending_clients ?s) addr = Some ?p" using p(4) by (simp add: map_simps)
    have new: "find_client_mut_by_addr (ns_clients ?s) addr = None" using assms(5) by simp
    have "packet_read_ok pk" using d(3) Inr mp by blast
    from pending_packet_returns[OF ok assms(2) get new this] show ?thesis
      using d(1) Inr mp by (simp add: ns_from_pending_def Let_def)
  qed
qed

lemma process_internal_returns:
  assumes "ns_ok n s" and "n + 1 < 2 ^ 64" and "buffer_ok buffer"
  shows "\<exists>r s'. ns_process_packet_internal ae s addr buffer = Some (r, s') \<and> ns_ok (n + 1) s' \<and> small_packets r \<and> session_step (ns_clients s) r (ns_clients s')
    \<and> ns_current_time s' = ns_current_time s"
proof (cases "length buffer < 2 + NETCODE_MAC_BYTES")
  case True
  then show ?thesis using ns_ok_mono[OF assms(1), of "n + 1"] by (simp add: ns_process_packet_internal_def)
next
  case long: False
  show ?thesis
  proof (cases "find_client_mut_by_addr (ns_clients s) addr")
    case (Some sc)
    obtain slot client where sc: "sc = (slot, client)" by (cases sc)
    have "cn_addr client = addr" "slot < length (ns_clients s)" "ns_clients s ! slot = Some client"
      using Some find_slot_at[of _ "ns_clients s" slot client] by (auto simp: sc find_client_mut_by_addr_def)
    from from_connected_returns[OF assms(1,3) this] show ?thesis
      using long Some sc ns_ok_mono[of n _ "n + 1"] by (auto simp: ns_process_packet_internal_def)
  next
    case None
    then show ?thesis
      using long from_unknown_returns[OF assms(1,2), of addr buffer] from_pending_returns[OF assms(1-3) _ None]
      by (cases "hm_get (ns_pending_clients s) addr") (simp_all add: ns_process_packet_internal_def)
  qed
qed

text \<open>The operations on one client by its id.\<close>

lemma ns_payload_returns:
  assumes "ns_ok n s" and "n + 1 < 2 ^ 64"
  shows "\<exists>r s'. ns_generate_payload_packet ae s client_id payload = Some (r, s') \<and> ns_ok (n + 1) s'
    \<and> (\<forall>a b. r = Inr (a, b) \<longrightarrow> length b \<le> 1325) \<and> addrs (ns_clients s') = addrs (ns_clients s)
    \<and> ns_current_time s' = ns_current_time s"
proof (cases "length payload > NETCODE_MAX_PAYLOAD_BYTES \<or> find_client_mut_by_id (ns_clients s) client_id = None")
  case True
  then show ?thesis using ns_ok_mono[OF assms(1), of "n + 1"] by (auto simp: ns_generate_payload_packet_def)
next
  case False
  then obtain slot c where sc: "find_client_mut_by_id (ns_clients s) client_id = Some (slot, c)" by auto
  then have c: "slot < length (ns_clients s)" "ns_clients s ! slot = Some c"
    using find_slot_at[of _ "ns_clients s" slot c] by (auto simp: find_client_mut_by_id_def)
  then have ok: "cn_ok n (ns_current_time s) c" "cn_state c = ConnConnected" using assms(1) by (auto simp: ns_ok_def clients_ok_def)
  have "packet_ok (Payload payload)" using False by simp
  from ns_encode_returns[OF this, of "cn_sequence c" "cn_send_key c" "ns_protocol_id s"] ok assms(2) obtain b where
    b: "packet_encode ae (Payload payload) NETCODE_MAX_PACKET_BYTES (ns_protocol_id s) (Some (cn_sequence c, cn_send_key c))
      = Some (Inr b)" "length b \<le> 1325" by (auto simp: cn_ok_def)
  let ?c = "c\<lparr>cn_sequence := cn_sequence c + 1, cn_last_packet_send_time := ns_current_time s\<rparr>"
  have "ns_ok (n + 1) (s\<lparr>ns_clients := (ns_clients s)[slot := Some ?c]\<rparr>)"
    by (rule ns_put_client[OF assms(1) c]) (use ok in \<open>auto simp: cn_ok_def\<close>)
  then show ?thesis using False sc b ok assms(2) by (simp add: ns_generate_payload_packet_def uadd_def cn_ok_def addrs_update[OF c])
qed

lemma slot_by_id:
  assumes "ns_ok n s" and "find_client_slot_by_id (ns_clients s) client_id = Some slot"
  shows "\<exists>c. slot < length (ns_clients s) \<and> ns_clients s ! slot = Some c \<and> cn_client_id c = client_id
    \<and> cn_ok n (ns_current_time s) c \<and> cn_state c = ConnConnected"
proof -
  from assms(2) obtain c where "find_slot (\<lambda>c. cn_client_id c = client_id) 0 (ns_clients s) = Some (slot, c)"
    by (auto simp: find_client_slot_by_id_def)
  from find_slot_at[OF this] assms(1) show ?thesis by (auto simp: ns_ok_def clients_ok_def)
qed

lemma ns_disconnect_returns:
  assumes "ns_ok n s" and "n < 2 ^ 64"
  shows "\<exists>r s'. ns_disconnect ae s client_id = Some (r, s') \<and> ns_ok n s' \<and> small_packets (Inr r) \<and> session_step (ns_clients s) (Inr r) (ns_clients s')
    \<and> ns_current_time s' = ns_current_time s"
proof (cases "find_client_slot_by_id (ns_clients s) client_id")
  case None
  then show ?thesis using assms(1) by (simp add: ns_disconnect_def)
next
  case (Some slot)
  with slot_by_id[OF assms(1)] obtain c where c: "slot < length (ns_clients s)" "ns_clients s ! slot = Some c"
    "cn_ok n (ns_current_time s) c" by blast
  from ns_encode_returns[of DisconnectPacket "cn_sequence c" "cn_send_key c" "ns_protocol_id s"] c(3) assms(2) obtain b where
    "packet_encode ae DisconnectPacket NETCODE_MAX_PACKET_BYTES (ns_protocol_id s) (Some (cn_sequence c, cn_send_key c))
      = Some (Inr b)" "length b \<le> 1325" by (auto simp: cn_ok_def)
  then show ?thesis using Some c ns_clear_slot[OF assms(1)] ns_addrs_clear[OF assms(1) c(1,2)]
    by (simp add: ns_disconnect_def vec_get_def)
qed

lemma timed_out_returns:
  assumes "cn_ok n now c" and "now < NS_TIME_LIMIT"
  shows "\<exists>out. (if cn_timeout_seconds c > 0 then do {
      limit \<leftarrow> dadd (cn_last_packet_received_time c) (from_secs (nat (cn_timeout_seconds c)));
      Some (limit < now)
    } else Some False) = Some out"
proof -
  have "cn_timeout_seconds c < 2 ^ 31" using assms(1) by (simp add: cn_ok_def i32_ok_def)
  moreover have "cn_last_packet_received_time c \<le> now" using assms(1) by (simp add: cn_ok_def)
  ultimately have "cn_last_packet_received_time c + from_secs (nat (cn_timeout_seconds c)) < 2 ^ 64 * 1000000000"
    using assms(2) by (auto simp: NS_TIME_LIMIT_def from_secs_def)
  then show ?thesis by (cases "cn_timeout_seconds c > 0") (auto simp: dadd_def)
qed

lemma ns_update_client_returns:
  assumes "ns_ok n s" and "n + 1 < 2 ^ 64"
  shows "\<exists>r s'. ns_update_client ae s client_id = Some (r, s') \<and> ns_ok (n + 1) s' \<and> small_packets (Inr r) \<and> session_step (ns_clients s) (Inr r) (ns_clients s')
    \<and> ns_current_time s' = ns_current_time s"
proof (cases "find_client_slot_by_id (ns_clients s) client_id")
  case None
  then show ?thesis using ns_ok_mono[OF assms(1), of "n + 1"] by (simp add: ns_update_client_def)
next
  case (Some slot)
  with slot_by_id[OF assms(1)] obtain c where c: "slot < length (ns_clients s)" "ns_clients s ! slot = Some c"
    "cn_ok n (ns_current_time s) c" "cn_state c = ConnConnected" by blast
  have now: "ns_current_time s < NS_TIME_LIMIT" using assms(1) by (simp add: ns_ok_def)
  obtain out where out: "(if cn_timeout_seconds c > 0 then do {
      limit \<leftarrow> dadd (cn_last_packet_received_time c) (from_secs (nat (cn_timeout_seconds c)));
      Some (limit < ns_current_time s)
    } else Some False) = Some out" using timed_out_returns[OF c(3) now] by blast
  have enc: "\<exists>b. packet_encode ae p NETCODE_MAX_PACKET_BYTES (ns_protocol_id s) (Some (cn_sequence c, cn_send_key c)) = Some (Inr b)
    \<and> length b \<le> 1325" if "packet_ok p" for p
    by (rule ns_encode_returns[OF that]) (use c(3) assms(2) in \<open>auto simp: cn_ok_def\<close>)
  have due: "dadd (cn_last_packet_send_time c) NETCODE_SEND_RATE = Some (cn_last_packet_send_time c + NETCODE_SEND_RATE)"
    using c(3) now by (simp add: dadd_def cn_ok_def NS_TIME_LIMIT_def from_secs_def NETCODE_SEND_RATE_def from_millis_def)
  show ?thesis
  proof (cases out)
    case True
    then show ?thesis using Some c out enc[of DisconnectPacket] ns_ok_mono[OF ns_clear_slot[OF assms(1)], of "n + 1"]
        ns_addrs_clear[OF assms(1) c(1,2)]
      by (auto simp: ns_update_client_def vec_get_def Let_def)
  next
    case False
    from enc[of "KeepAlive (slot mod 2 ^ 32) (ns_max_clients s mod 2 ^ 32)"] obtain b where
      b: "packet_encode ae (KeepAlive (slot mod 2 ^ 32) (ns_max_clients s mod 2 ^ 32)) NETCODE_MAX_PACKET_BYTES (ns_protocol_id s)
        (Some (cn_sequence c, cn_send_key c)) = Some (Inr b)" "length b \<le> 1325" by auto
    let ?c = "c\<lparr>cn_sequence := cn_sequence c + 1, cn_last_packet_send_time := ns_current_time s\<rparr>"
    have "ns_ok (n + 1) (s\<lparr>ns_clients := (ns_clients s)[slot := Some ?c]\<rparr>)"
      by (rule ns_put_client[OF assms(1) c(1,2)]) (use c in \<open>auto simp: cn_ok_def\<close>)
    moreover have "cn_sequence c + 1 < 2 ^ 64" using c(3) assms(2) by (simp add: cn_ok_def)
    ultimately show ?thesis using Some c out False due b ns_ok_mono[OF assms(1), of "n + 1"]
      by (cases "cn_last_packet_send_time c + NETCODE_SEND_RATE \<le> ns_current_time s")
        (simp_all add: ns_update_client_def vec_get_def uadd_def addrs_update[OF c(1,2)])
  qed
qed

end

text \<open>The update of the time.\<close>

lemma expired_filter:
  "filter (\<lambda>(a, c). cn_state c \<noteq> ConnDisconnected)
      (map (\<lambda>(a, c). (a, if now > cn_expire_timestamp c then c\<lparr>cn_state := ConnDisconnected\<rparr> else c)) ps)
    = filter (\<lambda>(a, c). \<not> now > cn_expire_timestamp c \<and> cn_state c \<noteq> ConnDisconnected) ps"
  by (induction ps) (auto split: if_splits)

lemma hm_get_filter: "hm_ok m \<Longrightarrow> hm_get (filter P m) k = Some v \<Longrightarrow> hm_get m k = Some v"
  unfolding hm_get_def hm_ok_def by (metis distinct_map_filter filter_is_subset map_of_SomeD map_of_is_SomeI subsetD)

lemma hm_get_filter_None: "hm_get m k = None \<Longrightarrow> hm_get (filter P m) k = None"
  by (auto simp: hm_get_def map_of_eq_None_iff)

lemma hm_ok_filter: "hm_ok m \<Longrightarrow> hm_ok (filter P m)"
  by (simp add: hm_ok_def distinct_map_filter)

lemma pending_ok_filter:
  assumes "pending_ok n now ps"
  shows "pending_ok n now (filter P ps)"
proof -
  have ok: "hm_ok ps" and len: "length ps \<le> NETCODE_MAX_PENDING_CLIENTS"
    and c: "\<And>a c. hm_get ps a = Some c \<Longrightarrow> cn_addr c = a \<and> cn_state c = ConnPendingResponse \<and> cn_ok n now c"
    using assms by (auto simp: pending_ok_def)
  have "length (filter P ps) \<le> NETCODE_MAX_PENDING_CLIENTS" using length_filter_le[of P ps] len by linarith
  then show ?thesis using hm_ok_filter[OF ok] c hm_get_filter[OF ok] unfolding pending_ok_def by blast
qed

lemma ns_update_returns:
  assumes "ns_ok n s" and "ns_current_time s + d < NS_TIME_LIMIT"
  shows "\<exists>s'. ns_update s d = Some s' \<and> ns_ok n s' \<and> ns_clients s' = ns_clients s
    \<and> ns_current_time s' = ns_current_time s + d"
proof -
  let ?now = "ns_current_time s + d"
  let ?ps = "filter (\<lambda>(a, c). \<not> as_secs ?now > cn_expire_timestamp c \<and> cn_state c \<noteq> ConnDisconnected) (ns_pending_clients s)"
  have "dadd (ns_current_time s) d = Some ?now" using assms(2) by (simp add: dadd_def NS_TIME_LIMIT_def from_secs_def)
  then have "ns_update s d = Some (s\<lparr>ns_current_time := ?now, ns_pending_clients := ?ps\<rparr>)"
    by (simp add: ns_update_def expired_filter)
  moreover have p: "pending_ok n ?now (ns_pending_clients s)" and c: "clients_ok n ?now (ns_clients s)"
    using assms(1) by (auto simp: ns_ok_def intro: pending_ok_mono clients_ok_mono)
  have "pending_ok n ?now ?ps" by (rule pending_ok_filter[OF p])
  moreover have "apart (ns_clients s) ?ps" using assms(1) by (auto simp: ns_ok_def apart_def intro: hm_get_filter_None)
  moreover have "entries_ok ?now (ns_connect_token_entries s)"
    using assms(1) entries_ok_mono[of "ns_current_time s" _ ?now] by (simp add: ns_ok_def)
  ultimately show ?thesis using assms c by (simp add: ns_ok_def)
qed

section \<open>Runs\<close>

datatype ns_op =
    NsProcess socket_addr bytes
  | NsPayload u64 bytes
  | NsUpdate duration
  | NsUpdateClient u64
  | NsDisconnect u64
  | NsSetMaxClients usize

fun ns_exec :: "aead_api \<Rightarrow> netcode_server \<Rightarrow> ns_op \<Rightarrow> (server_result \<times> netcode_server) option" where
  "ns_exec ae s (NsProcess a b) = ns_process_packet ae s a b"
| "ns_exec ae s (NsPayload i p) = do {
     (r, s) \<leftarrow> ns_generate_payload_packet ae s i p;
     Some (case r of Inl _ \<Rightarrow> ResultNone | Inr (a, b) \<Rightarrow> PacketToSend a b, s)
   }"
| "ns_exec ae s (NsUpdate d) = do { s \<leftarrow> ns_update s d; Some (ResultNone, s) }"
| "ns_exec ae s (NsUpdateClient i) = ns_update_client ae s i"
| "ns_exec ae s (NsDisconnect i) = ns_disconnect ae s i"
| "ns_exec ae s (NsSetMaxClients m) = Some (ResultNone, ns_set_max_clients s m)"

fun ns_run :: "aead_api \<Rightarrow> netcode_server \<Rightarrow> ns_op list \<Rightarrow> (server_result list \<times> netcode_server) option" where
  "ns_run ae s [] = Some ([], s)"
| "ns_run ae s (op # ops) = do {
     (r, s) \<leftarrow> ns_exec ae s op;
     (rs, s) \<leftarrow> ns_run ae s ops;
     Some (r # rs, s)
   }"

fun ns_elapsed :: "ns_op \<Rightarrow> duration" where
  "ns_elapsed (NsUpdate d) = d"
| "ns_elapsed _ = 0"

fun ns_op_ok :: "ns_op \<Rightarrow> bool" where
  "ns_op_ok (NsProcess a b) = buffer_ok b"
| "ns_op_ok _ = True"

context aead_contract
begin

lemma ns_exec_returns:
  assumes "ns_ok n s" and "n + 1 < 2 ^ 64" and "ns_op_ok op" and "ns_current_time s + ns_elapsed op < NS_TIME_LIMIT"
  shows "\<exists>r s'. ns_exec ae s op = Some (r, s') \<and> ns_ok (n + 1) s' \<and> small_packets (Inr r)
    \<and> session_step (ns_clients s) (Inr r) (ns_clients s') \<and> ns_current_time s' = ns_current_time s + ns_elapsed op"
proof (cases op)
  case (NsProcess a b)
  with process_internal_returns[OF assms(1,2), of b a] assms(3) obtain r s' where
    "ns_process_packet_internal ae s a b = Some (r, s')" "ns_ok (n + 1) s'" "small_packets r"
    "session_step (ns_clients s) r (ns_clients s')" "ns_current_time s' = ns_current_time s" by auto
  then show ?thesis using NsProcess by (cases r) (simp_all add: ns_process_packet_def)
next
  case (NsPayload i p)
  with ns_payload_returns[OF assms(1,2), of i p] obtain r s' where
    "ns_generate_payload_packet ae s i p = Some (r, s')" "ns_ok (n + 1) s'" "\<forall>a b. r = Inr (a, b) \<longrightarrow> length b \<le> 1325"
    "addrs (ns_clients s') = addrs (ns_clients s)" "ns_current_time s' = ns_current_time s" by auto
  then show ?thesis using NsPayload by (cases r) auto
next
  case (NsUpdate d)
  with ns_update_returns[OF assms(1), of d] assms(4) ns_ok_mono[of n _ "n + 1"] show ?thesis by auto
next
  case (NsUpdateClient i)
  with ns_update_client_returns[OF assms(1,2), of i] show ?thesis by simp
next
  case (NsDisconnect i)
  with ns_disconnect_returns[OF assms(1), of i] assms(2) ns_ok_mono[of n _ "n + 1"] show ?thesis by fastforce
next
  case (NsSetMaxClients m)
  then show ?thesis using ns_ok_mono[OF assms(1), of "n + 1"] by (simp add: ns_set_max_clients_def ns_ok_def)
qed

end

text \<open>The opening and closing of connections with an address, in a list of results.\<close>

fun session_events :: "socket_addr \<Rightarrow> server_result list \<Rightarrow> bool list" where
  "session_events a [] = []"
| "session_events a (ConnectionOpened i b d p # rs) = (if b = a then True # session_events a rs else session_events a rs)"
| "session_events a (ConnectionClosed i b p # rs) = (if b = a then False # session_events a rs else session_events a rs)"
| "session_events a (_ # rs) = session_events a rs"

fun alternating :: "bool \<Rightarrow> bool list \<Rightarrow> bool \<Rightarrow> bool" where
  "alternating before [] after = (after = before)"
| "alternating before (e # es) after = (e = (\<not> before) \<and> alternating e es after)"

lemma session_step_events:
  assumes "session_step cs (Inr r) cs'" and "alternating (a \<in> addrs cs') (session_events a rs) after"
  shows "alternating (a \<in> addrs cs) (session_events a (r # rs)) after"
proof (cases r)
  case (ConnectionOpened i b d p)
  then show ?thesis using assms by (cases "b = a") simp_all
next
  case (ConnectionClosed i b p)
  then show ?thesis using assms by (cases "b = a") simp_all
qed (use assms in simp_all)

context aead_contract
begin

lemma ns_run_returns:
  assumes "ns_ok n s" and "\<forall>op \<in> set ops. ns_op_ok op" and "n + length ops < 2 ^ 64"
    and "ns_current_time s + sum_list (map ns_elapsed ops) < NS_TIME_LIMIT"
  shows "\<exists>rs s'. ns_run ae s ops = Some (rs, s') \<and> ns_ok (n + length ops) s' \<and> (\<forall>r \<in> set rs. small_packets (Inr r))
    \<and> (\<forall>a. alternating (a \<in> addrs (ns_clients s)) (session_events a rs) (a \<in> addrs (ns_clients s')))"
  using assms
proof (induction ops arbitrary: n s)
  case (Cons op ops)
  have "n + 1 < 2 ^ 64" "ns_op_ok op" "ns_current_time s + ns_elapsed op < NS_TIME_LIMIT" using Cons.prems by simp_all
  from ns_exec_returns[OF Cons.prems(1) this] obtain r s1 where e: "ns_exec ae s op = Some (r, s1)" "ns_ok (n + 1) s1"
    "small_packets (Inr r)" "session_step (ns_clients s) (Inr r) (ns_clients s1)"
    "ns_current_time s1 = ns_current_time s + ns_elapsed op" by blast
  from Cons.IH[OF e(2)] Cons.prems e(5) obtain rs s2 where "ns_run ae s1 ops = Some (rs, s2)" "ns_ok (n + length (op # ops)) s2"
    "\<forall>r \<in> set rs. small_packets (Inr r)"
    "\<forall>a. alternating (a \<in> addrs (ns_clients s1)) (session_events a rs) (a \<in> addrs (ns_clients s2))" by auto
  then show ?case using e session_step_events[OF e(4)] by auto
qed simp

end

section \<open>Properties\<close>

text \<open>A server for the examples.\<close>

definition sample_config :: server_config where
  "sample_config = \<lparr>sc_current_time = from_secs 10, sc_max_clients = 4, sc_protocol_id = 7,
     sc_public_addresses = [V4 [127, 0, 0, 1] 5000], sc_authentication = ServerSecure (replicate 32 9)\<rparr>"

definition sample_server :: netcode_server where
  "sample_server = the (ns_new (replicate 32 8) sample_config)"

lemma sample_server_new: "ns_new (replicate 32 8) sample_config = Some sample_server"
  by (simp add: sample_server_def ns_new_def rust_assert_def sample_config_def NETCODE_MAX_CLIENTS_def)

lemma sample_server_ok: "ns_ok 0 sample_server" "ns_current_time sample_server = from_secs 10"
  using ns_ok_new[OF sample_server_new]
  by (simp_all add: sample_config_def NS_TIME_LIMIT_def from_secs_def sample_server_def ns_new_def rust_assert_def
      NETCODE_MAX_CLIENTS_def)

text \<open>C29. A server in a well-formed state, run through any operations whose buffers are within the bounds of
  the decoder, never panics and stays well-formed: at most 1024 slots and 4096 pending
  clients, no two connected clients with one address, no address connected and pending, and no two
  token entries with one tag. Its datagrams have at most 1325 bytes.\<close>

theorem server_returns:
  assumes "aead_contract ae" and "ns_ok n s" and "\<forall>op \<in> set ops. ns_op_ok op" and "n + length ops < 2 ^ 64"
    and "ns_current_time s + sum_list (map ns_elapsed ops) < NS_TIME_LIMIT"
  shows "\<exists>rs s'. ns_run ae s ops = Some (rs, s') \<and> ns_ok (n + length ops) s'
    \<and> (\<forall>r \<in> set rs. \<forall>b \<in> set (result_packets r). length b \<le> 1325)"
  using aead_contract.ns_run_returns[OF assms] by (auto simp: small_packets_def)

theorem server_returns_witness:
  "\<exists>rs s'. ns_run chacha20poly1305 sample_server
      [NsProcess (V4 [10, 0, 0, 1] 99) (replicate 40 0), NsUpdate (from_secs 1), NsUpdateClient 5, NsDisconnect 5]
      = Some (rs, s') \<and> ns_ok 4 s'"
proof -
  let ?ops = "[NsProcess (V4 [10, 0, 0, 1] 99) (replicate 40 0), NsUpdate (from_secs 1), NsUpdateClient 5, NsDisconnect 5]"
  have "\<forall>op \<in> set ?ops. ns_op_ok op" "0 + length ?ops < 2 ^ 64"
    "ns_current_time sample_server + sum_list (map ns_elapsed ?ops) < NS_TIME_LIMIT"
    by (simp_all add: sample_server_ok NS_TIME_LIMIT_def from_secs_def buffer_ok_def frame_seq_len_def frame_seq_def
        decode_prefix_def)
  from server_returns[OF chacha.aead_contract_axioms sample_server_ok(1) this] obtain rs s' where
    r: "ns_run chacha20poly1305 sample_server ?ops = Some (rs, s')" "ns_ok (0 + length ?ops) s'" by blast
  have "0 + length ?ops = 4" by simp
  with r show ?thesis by metis
qed

text \<open>C30. Through any such run the results tell exactly of the connections: for every address openings and
  closings alternate, starting from whether it is connected, and the address is connected at the end
  exactly when the last of them is an opening.\<close>

theorem server_sessions:
  assumes "aead_contract ae" and "ns_ok n s" and "\<forall>op \<in> set ops. ns_op_ok op" and "n + length ops < 2 ^ 64"
    and "ns_current_time s + sum_list (map ns_elapsed ops) < NS_TIME_LIMIT" and "ns_run ae s ops = Some (rs, s')"
  shows "alternating (a \<in> addrs (ns_clients s)) (session_events a rs) (a \<in> addrs (ns_clients s'))"
  using aead_contract.ns_run_returns[OF assms(1-5)] assms(6) by auto

theorem server_sessions_witness:
  "\<exists>rs s'. ns_run chacha20poly1305 sample_server [NsUpdate (from_secs 1), NsDisconnect 5] = Some (rs, s')
    \<and> alternating (V4 [10, 0, 0, 1] 99 \<in> addrs (ns_clients sample_server)) (session_events (V4 [10, 0, 0, 1] 99) rs)
       (V4 [10, 0, 0, 1] 99 \<in> addrs (ns_clients s'))"
proof -
  have h: "\<forall>op \<in> set [NsUpdate (from_secs 1), NsDisconnect 5]. ns_op_ok op"
    "0 + length [NsUpdate (from_secs 1), NsDisconnect 5] < 2 ^ 64"
    "ns_current_time sample_server + sum_list (map ns_elapsed [NsUpdate (from_secs 1), NsDisconnect 5]) < NS_TIME_LIMIT"
    by (simp_all add: sample_server_ok NS_TIME_LIMIT_def from_secs_def)
  from chacha.ns_run_returns[OF sample_server_ok(1) h] obtain rs s' where
    r: "ns_run chacha20poly1305 sample_server [NsUpdate (from_secs 1), NsDisconnect 5] = Some (rs, s')" by blast
  from r server_sessions[OF chacha.aead_contract_axioms sample_server_ok(1) h r] show ?thesis by blast
qed

text \<open>C31. The table of connect tokens binds a token, by its tag, to the first address that used it: a token
  in the table is accepted from its address alone, and the table is not changed. A new token is
  always accepted, and takes a free entry, or the oldest one when there is none; the tags in the
  table stay distinct.\<close>

theorem connect_token_bound:
  assumes "entries_ok now (ns_connect_token_entries s)" and "now < 2 ^ 64 * 1000000000 - 1" and "te_time new \<le> now"
  shows "\<exists>accepted s'. find_or_add_connect_token_entry s new = Some (accepted, s')
    \<and> entries_ok now (ns_connect_token_entries s')
    \<and> (if \<exists>e. Some e \<in> set (ns_connect_token_entries s) \<and> te_mac e = te_mac new
       then s' = s \<and> (accepted \<longleftrightarrow> (\<exists>e. Some e \<in> set (ns_connect_token_entries s) \<and> te_mac e = te_mac new
              \<and> te_address e = te_address new))
       else accepted \<and> (\<exists>i < 2048. s' = s\<lparr>ns_connect_token_entries := (ns_connect_token_entries s)[i := Some new]\<rparr>
              \<and> (None \<in> set (ns_connect_token_entries s) \<longrightarrow> ns_connect_token_entries s ! i = None)
              \<and> (\<forall>old. ns_connect_token_entries s ! i = Some old \<longrightarrow>
                   (\<forall>e. Some e \<in> set (ns_connect_token_entries s) \<longrightarrow> te_time old \<le> te_time e))))"
proof (cases "\<exists>e. Some e \<in> set (ns_connect_token_entries s) \<and> te_mac e = te_mac new")
  case True
  then obtain e where e: "Some e \<in> set (ns_connect_token_entries s)" "te_mac e = te_mac new"
    "find_or_add_connect_token_entry s new = Some (te_address e = te_address new, s)"
    using find_or_add_run[OF assms] by blast
  have "f = e" if "Some f \<in> set (ns_connect_token_entries s)" "te_mac f = te_mac new" for f
    using assms(1) e(1,2) that unfolding entries_ok_def in_set_conv_nth by (metis option.inject)
  then have "te_address e = te_address new \<longleftrightarrow> (\<exists>e. Some e \<in> set (ns_connect_token_entries s) \<and> te_mac e = te_mac new
      \<and> te_address e = te_address new)" using e(1,2) by blast
  then show ?thesis unfolding if_P[OF True] using e(3) assms(1) by blast
next
  case False
  then obtain i where i: "i < 2048" "find_or_add_connect_token_entry s new
      = Some (True, s\<lparr>ns_connect_token_entries := (ns_connect_token_entries s)[i := Some new]\<rparr>)"
    "ns_connect_token_entries s ! i = None \<or> None \<notin> set (ns_connect_token_entries s) \<and> (\<exists>old. ns_connect_token_entries s ! i = Some old
       \<and> (\<forall>e. Some e \<in> set (ns_connect_token_entries s) \<longrightarrow> te_time old \<le> te_time e))"
    using find_or_add_run[OF assms] by blast
  have "entries_ok now ((ns_connect_token_entries s)[i := Some new])"
    by (rule entry_set[OF assms(1) i(1) assms(3)]) (use False in blast)
  moreover have "ns_connect_token_entries s ! i \<in> set (ns_connect_token_entries s)"
    using i(1) assms(1) by (simp add: entries_ok_def)
  ultimately show ?thesis unfolding if_not_P[OF False]
    by (intro exI[of _ True] exI[of _ "s\<lparr>ns_connect_token_entries := (ns_connect_token_entries s)[i := Some new]\<rparr>"])
      (use i in auto)
qed

theorem connect_token_bound_witness:
  "\<exists>accepted s'. find_or_add_connect_token_entry sample_server
      \<lparr>te_time = from_secs 10, te_address = V4 [10, 0, 0, 1] 99, te_mac = replicate 16 5\<rparr> = Some (accepted, s')
    \<and> accepted \<and> entries_ok (from_secs 10) (ns_connect_token_entries s')"
proof -
  let ?new = "\<lparr>te_time = from_secs 10, te_address = V4 [10, 0, 0, 1] 99, te_mac = replicate 16 5\<rparr>"
  have "ns_connect_token_entries sample_server = replicate (1024 * 2) None"
    by (simp add: sample_server_def ns_new_def rust_assert_def sample_config_def NETCODE_MAX_CLIENTS_def)
  then have n: "\<not> (\<exists>e. Some e \<in> set (ns_connect_token_entries sample_server) \<and> te_mac e = te_mac ?new)"
    by (simp only: set_replicate_conv_if) simp
  have "entries_ok (from_secs 10) (ns_connect_token_entries sample_server)"
    using sample_server_ok by (simp add: ns_ok_def)
  moreover have "from_secs 10 < 2 ^ 64 * 1000000000 - 1" "te_time ?new \<le> from_secs 10" by (simp_all add: from_secs_def)
  ultimately show ?thesis
    using connect_token_bound[of "from_secs 10" sample_server ?new, unfolded if_not_P[OF n]] by blast
qed

end
