(* ===== verification/NetcodeSession.thy ===== *)
theory NetcodeSession
  imports NetcodeClient NetcodeServerInv
begin

text \<open>
  The netcode client and server together: the exchange of four datagrams that connects a client,
  from the issue of its token on, and what the server requires to open a connection.
\<close>

section \<open>A packet from one end to the other\<close>

context aead_contract
begin

lemma send_receive:
  assumes "packet_ok p" and "packet_type_of p \<noteq> ConnectionRequestType" and "seq < 2 ^ 64" and "length k = 32"
    and "packet_wire p \<noteq> []"
  shows "\<exists>b. packet_encode ae p NETCODE_MAX_PACKET_BYTES protocol_id (Some (seq, k)) = Some (Inr b) \<and> 18 \<le> length b
    \<and> frame_seq b = seq \<and> frame_type b = Inr (packet_type_of p)
    \<and> (\<forall>rp rp'. replayed rp (packet_type_of p) seq = Some False \<and> replay_advance rp (packet_type_of p) seq = Some rp'
         \<longrightarrow> packet_decode ae b protocol_id (Some k) rp = Some (Inr (seq, p), rp'))"
proof -
  have "1325 \<le> NETCODE_MAX_PACKET_BYTES" by (simp add: NETCODE_MAX_PACKET_BYTES_def)
  from packet_encode_run[OF assms(1-4) this, of protocol_id] obtain c t where
    e: "packet_encode ae p NETCODE_MAX_PACKET_BYTES protocol_id (Some (seq, k)) = Some (Inr (packet_frame p seq (c @ t)))"
    "length c = length (packet_wire p)" "length t = 16"
    "dencrypted_in_place ae (c @ t) seq k (frame_aad p seq protocol_id) = Some (Inr (packet_wire p @ t))" by blast
  let ?b = "packet_frame p seq (c @ t)"
  have "0 < length (packet_wire p)" using assms(5) by simp
  then have n: "1 \<le> sequence_bytes_required seq + length (packet_wire p)" by linarith
  have "packet_decode ae ?b protocol_id (Some k) rp = Some (Inr (seq, p), rp')"
    if "replayed rp (packet_type_of p) seq = Some False" "replay_advance rp (packet_type_of p) seq = Some rp'" for rp rp'
    using packet_decode_frame[OF assms(2,3) that e(4,3)] e(2,3) n packet_read_wire[OF assms(1)] by simp
  moreover have "frame_seq ?b = seq"
    using packet_encode_seq[of ae p protocol_id seq k] e(1) assms(2,3) by (simp add: NETCODE_MAX_PACKET_BYTES_def)
  moreover have "18 \<le> length ?b" using e(2,3) n by (simp add: packet_frame_def)
  moreover have "frame_type ?b = Inr (packet_type_of p)"
    using decode_encode_prefix[OF assms(3), of p] by (simp add: frame_type_def packet_frame_def)
  ultimately show ?thesis using e(1) by blast
qed

end

lemma replay_unprotected:
  "\<not> apply_replay_protection T \<Longrightarrow> replayed rp T s = Some False \<and> replay_advance rp T s = Some rp"
  by (auto simp: replayed_def replay_advance_def split: option.splits)

lemma replay_first:
  "replayed (Some rp_new) T 0 = Some False"
  "\<exists>rp. replay_advance (Some rp_new) T 0 = Some (Some rp)"
  by (auto simp: replayed_def replay_advance_def rp_new_def rp_already_received_def rp_advance_sequence_def uadd_def
      vec_get_def vec_set_def NETCODE_REPLAY_BUFFER_SIZE_def Let_def)

section \<open>The client's side\<close>

text \<open>An update of a connecting client after which it goes on: neither its token nor its wait has run out.\<close>

definition goes_on :: "netcode_client \<Rightarrow> duration \<Rightarrow> bool" where
  "goes_on c d \<longleftrightarrow> ncl_current_time c + d < NCL_TIME_LIMIT
     \<and> as_secs (ncl_current_time c + d - ncl_connect_start_time c)
        < ct_expire_timestamp (ncl_connect_token c) - ct_create_timestamp (ncl_connect_token c)
     \<and> (ct_timeout_seconds (ncl_connect_token c) > 0 \<longrightarrow>
        ncl_current_time c + d \<le> ncl_last_packet_received_time c + from_secs (nat (ct_timeout_seconds (ncl_connect_token c))))"

lemma internal_goes_on:
  assumes "ncl_ok c" and "ncl_is_connecting c" and "goes_on c d"
  shows "ncl_update_internal_state c d = Some (Inr (), c\<lparr>ncl_current_time := ncl_current_time c + d\<rparr>)"
proof -
  let ?t = "ncl_connect_token c" and ?now = "ncl_current_time c + d"
  have now: "dadd (ncl_current_time c) d = Some ?now"
    using assms(3) by (simp add: goes_on_def dadd_def NCL_TIME_LIMIT_def from_secs_def)
  have "ct_timeout_seconds ?t < 2 ^ 31" using assms(1) by (simp add: ncl_ok_def ct_ok_def i32_ok_def)
  moreover have "ncl_last_packet_received_time c \<le> ncl_current_time c" using assms(1) by (simp add: ncl_ok_def)
  ultimately have "ncl_last_packet_received_time c + from_secs (nat (ct_timeout_seconds ?t)) < 2 ^ 64 * 1000000000"
    using assms(3) by (auto simp: goes_on_def NCL_TIME_LIMIT_def from_secs_def)
  then have "dadd (ncl_last_packet_received_time c) (from_secs (nat (ct_timeout_seconds ?t)))
      = Some (ncl_last_packet_received_time c + from_secs (nat (ct_timeout_seconds ?t)))" by (simp add: dadd_def)
  then show ?thesis
    using assms now
    by (auto simp: ncl_update_internal_state_def ncl_is_connecting_def goes_on_def ncl_ok_def usub_def dsub_def Let_def)
qed

context aead_contract
begin

lemma client_requests:
  assumes "ncl_ok c" and "ncl_state c = SendingConnectionRequest" and "ncl_last_packet_send_time c = None"
    and "goes_on c d" and "ncl_sequence c + 1 < 2 ^ 64"
  shows "\<exists>b. ncl_update ae c d = Some (Some (b, ncl_server_addr c), c\<lparr>ncl_current_time := ncl_current_time c + d,
      ncl_last_packet_send_time := Some (ncl_current_time c + d), ncl_sequence := ncl_sequence c + 1\<rparr>)
    \<and> 18 \<le> length b
    \<and> (\<forall>proto key rp. packet_decode ae b proto key rp =
         Some (Inr (0, connection_request_from_token (ncl_connect_token c)), rp))"
proof -
  let ?t = "ncl_connect_token c" and ?now = "ncl_current_time c + d"
  let ?p = "connection_request_from_token ?t"
  let ?b = "encode_prefix (packet_id ?p) 0 # packet_wire ?p"
  have p: "packet_ok ?p" "packet_type_of ?p = ConnectionRequestType"
    using assms(1) by (auto simp: ncl_ok_def ct_ok_def connection_request_from_token_def NETCODE_VERSION_INFO_def)
  have room: "1325 \<le> NETCODE_MAX_PACKET_BYTES" by (simp add: NETCODE_MAX_PACKET_BYTES_def)
  note run = connection_request_run[OF p room]
  have "ncl_is_connecting c" using assms(2) by (simp add: ncl_is_connecting_def)
  note up = internal_goes_on[OF assms(1) this assms(4)]
  have "18 \<le> length ?b" using p(1) by (simp add: connection_request_from_token_def)
  moreover have "ncl_update ae c d = Some (Some (?b, ncl_server_addr c), c\<lparr>ncl_current_time := ?now,
      ncl_last_packet_send_time := Some ?now, ncl_sequence := ncl_sequence c + 1\<rparr>)"
    using assms(2,3,5) run(1)
    by (simp add: ncl_update_def up ncl_generate_packet_def ncl_packet_def ncl_encode_def uadd_def)
  ultimately show ?thesis using run(3) by blast
qed

lemma client_responds:
  assumes "ncl_ok c" and "ncl_state c = SendingConnectionResponse" and "ncl_last_packet_send_time c = None"
    and "goes_on c d" and "ncl_sequence c + 1 < 2 ^ 64"
  shows "\<exists>b. ncl_update ae c d = Some (Some (b, ncl_server_addr c), c\<lparr>ncl_current_time := ncl_current_time c + d,
      ncl_last_packet_send_time := Some (ncl_current_time c + d), ncl_sequence := ncl_sequence c + 1\<rparr>)
    \<and> 18 \<le> length b
    \<and> (\<forall>rp. packet_decode ae b (ct_protocol_id (ncl_connect_token c))
           (Some (ct_client_to_server_key (ncl_connect_token c))) rp =
         Some (Inr (ncl_sequence c, Response (ncl_challenge_token_sequence c) (ncl_challenge_token_data c)), rp))"
proof -
  let ?t = "ncl_connect_token c" and ?now = "ncl_current_time c + d"
  let ?p = "Response (ncl_challenge_token_sequence c) (ncl_challenge_token_data c)"
  have p: "packet_ok ?p" "length (ct_client_to_server_key ?t) = 32" "ncl_sequence c < 2 ^ 64" "packet_wire ?p \<noteq> []"
    using assms(1) by (auto simp: ncl_ok_def ct_ok_def)
  from send_receive[OF p(1) _ p(3,2,4), of "ct_protocol_id ?t"] obtain b where
    b: "packet_encode ae ?p NETCODE_MAX_PACKET_BYTES (ct_protocol_id ?t) (Some (ncl_sequence c, ct_client_to_server_key ?t))
      = Some (Inr b)" "18 \<le> length b"
    "\<forall>rp rp'. replayed rp ResponseType (ncl_sequence c) = Some False \<and> replay_advance rp ResponseType (ncl_sequence c) = Some rp'
      \<longrightarrow> packet_decode ae b (ct_protocol_id ?t) (Some (ct_client_to_server_key ?t)) rp = Some (Inr (ncl_sequence c, ?p), rp')"
    by auto
  have "ncl_is_connecting c" using assms(2) by (simp add: ncl_is_connecting_def)
  note up = internal_goes_on[OF assms(1) this assms(4)]
  have "ncl_update ae c d = Some (Some (b, ncl_server_addr c), c\<lparr>ncl_current_time := ?now,
      ncl_last_packet_send_time := Some ?now, ncl_sequence := ncl_sequence c + 1\<rparr>)"
    using assms(2,3,5) b(1)
    by (simp add: ncl_update_def up ncl_generate_packet_def ncl_packet_def ncl_encode_def uadd_def)
  then show ?thesis using b(2,3) replay_unprotected[of ResponseType] by (auto simp: apply_replay_protection_def)
qed

end

section \<open>The server's side\<close>

text \<open>The server has room for the client of a token at an address, and the token may be used there.\<close>

definition admits :: "netcode_server \<Rightarrow> socket_addr \<Rightarrow> connect_token \<Rightarrow> bool" where
  "admits s addr t \<longleftrightarrow> ct_protocol_id t = ns_protocol_id s \<and> as_secs (ns_current_time s) < ct_expire_timestamp t
     \<and> (ns_secure s \<longrightarrow> (\<exists>a \<in> set (somes (ct_server_addresses t)). a \<in> set (ns_public_addresses s)))
     \<and> find_client_slot_by_id (ns_clients s) (ct_client_id t) = None \<and> addr \<notin> addrs (ns_clients s)
     \<and> hm_get (ns_pending_clients s) addr = None \<and> length (ns_pending_clients s) < NETCODE_MAX_PENDING_CLIENTS
     \<and> length (somes (ns_clients s)) < ns_max_clients s \<and> None \<in> set (ns_clients s)
     \<and> (\<forall>e. Some e \<in> set (ns_connect_token_entries s) \<and> te_mac e = drop 1008 (ct_private_data t) \<longrightarrow> te_address e = addr)"

text \<open>The private part of a token is what the server's key decodes, and agrees with the public part.\<close>

definition token_pair :: "aead_api \<Rightarrow> bytes \<Rightarrow> connect_token \<Rightarrow> private_connect_token \<Rightarrow> bool" where
  "token_pair ae key t p \<longleftrightarrow> ct_ok t \<and> pt_read_ok p
     \<and> pt_decode ae (ct_private_data t) (ct_protocol_id t) (ct_expire_timestamp t) (ct_xnonce t) key = Some (Inr p)
     \<and> pt_client_id p = ct_client_id t \<and> pt_server_addresses p = ct_server_addresses t
     \<and> pt_client_to_server_key p = ct_client_to_server_key t \<and> pt_server_to_client_key p = ct_server_to_client_key t"

lemma admits_accepts:
  assumes "ns_ok n s" and "admits s addr t"
  shows "\<exists>es. find_or_add_connect_token_entry s
      \<lparr>te_time = ns_current_time s, te_address = addr, te_mac = drop 1008 (ct_private_data t)\<rparr>
      = Some (True, s\<lparr>ns_connect_token_entries := es\<rparr>) \<and> ns_ok n (s\<lparr>ns_connect_token_entries := es\<rparr>)"
proof -
  let ?new = "\<lparr>te_time = ns_current_time s, te_address = addr, te_mac = drop 1008 (ct_private_data t)\<rparr>"
  from find_or_add_returns[OF assms(1), of ?new] obtain r es where
    e: "find_or_add_connect_token_entry s ?new = Some (r, s\<lparr>ns_connect_token_entries := es\<rparr>)"
    "ns_ok n (s\<lparr>ns_connect_token_entries := es\<rparr>)" by auto
  have "entries_ok (ns_current_time s) (ns_connect_token_entries s)" "ns_current_time s < 2 ^ 64 * 1000000000 - 1"
    using assms(1) by (auto simp: ns_ok_def NS_TIME_LIMIT_def from_secs_def)
  from find_or_add_run[OF this, of ?new] e(1) assms(2) have r by (auto simp: admits_def)
  with e show ?thesis by auto
qed

text \<open>A connection that is put in a free slot is found by its id.\<close>

lemma find_slot_put:
  "find_slot f k cs = None \<Longrightarrow> i < length cs \<Longrightarrow> f c \<Longrightarrow> find_slot f k (cs[i := Some c]) = Some (k + i, c)"
proof (induction f k cs arbitrary: i rule: find_slot.induct)
  case (2 f k cs)
  then show ?case by (cases i) auto
next
  case (3 f k d cs)
  then show ?case by (cases i) (auto split: if_splits)
qed simp

lemma first_free_exists: "None \<in> set cs \<Longrightarrow> \<exists>i. first_free k cs = Some i"
  by (induction k cs rule: first_free.induct) auto

context aead_contract
begin

lemma server_challenges:
  assumes "ns_ok n s" and "n + 1 < 2 ^ 64" and "admits s addr t" and "token_pair ae (ns_connect_key s) t p"
    and "18 \<le> length b" and "packet_decode ae b (ns_protocol_id s) None None = Some (Inr (0, connection_request_from_token t), None)"
  shows "\<exists>out cs d s' c. ns_process_packet ae s addr b = Some (PacketToSend addr out, s') \<and> ns_ok (n + 1) s'
    \<and> ns_clients s' = ns_clients s \<and> ns_max_clients s' = ns_max_clients s \<and> ns_protocol_id s' = ns_protocol_id s
    \<and> ns_challenge_key s' = ns_challenge_key s
    \<and> hm_get (ns_pending_clients s') addr = Some c \<and> cn_client_id c = ct_client_id t \<and> cn_sequence c = 0
    \<and> cn_receive_key c = ct_client_to_server_key t \<and> cn_send_key c = ct_server_to_client_key t
    \<and> cs < 2 ^ 64 \<and> length d = 300
    \<and> challenge_token_decode ae d cs (ns_challenge_key s) = Some (Inr \<lparr>cht_client_id = ct_client_id t, cht_user_data = pt_user_data p\<rparr>)
    \<and> frame_seq out = ns_global_sequence s \<and> frame_type out = Inr ChallengeType
    \<and> (\<forall>rp. packet_decode ae out (ns_protocol_id s) (Some (ct_server_to_client_key t)) rp
          = Some (Inr (ns_global_sequence s, Challenge cs d), rp))"
proof -
  have tp: "pt_decode ae (ct_private_data t) (ns_protocol_id s) (ct_expire_timestamp t) (ct_xnonce t) (ns_connect_key s) = Some (Inr p)"
    "pt_client_id p = ct_client_id t" "pt_server_addresses p = ct_server_addresses t"
    "pt_client_to_server_key p = ct_client_to_server_key t" "pt_server_to_client_key p = ct_server_to_client_key t" "pt_read_ok p"
    using assms(3,4) by (auto simp: token_pair_def admits_def)
  have ad: "find_client_mut_by_id (ns_clients s) (ct_client_id t) = None" "find_client_mut_by_addr (ns_clients s) addr = None"
    "hm_get (ns_pending_clients s) addr = None" "length (ns_pending_clients s) < NETCODE_MAX_PENDING_CLIENTS"
    "\<not> ns_max_clients s \<le> length (somes (ns_clients s))" "as_secs (ns_current_time s) < ct_expire_timestamp t"
    "ct_protocol_id t = ns_protocol_id s"
    "ns_secure s \<Longrightarrow> list_ex (\<lambda>a. a \<in> set (ns_public_addresses s)) (somes (ct_server_addresses t))"
    using assms(3) by (auto simp: admits_def find_addr_None find_client_slot_by_id_def find_client_mut_by_id_def list_ex_iff)
  from admits_accepts[OF assms(1,3)] obtain es where
    e: "find_or_add_connect_token_entry s \<lparr>te_time = ns_current_time s, te_address = addr, te_mac = drop 1008 (ct_private_data t)\<rparr>
      = Some (True, s\<lparr>ns_connect_token_entries := es\<rparr>)" by blast
  let ?s = "s\<lparr>ns_connect_token_entries := es\<rparr>"
  let ?g = "ns_global_sequence s" and ?cs = "ns_challenge_sequence s + 1"
  have g: "?g < 2 ^ 64" "?g + 1 < 2 ^ 64" "?cs < 2 ^ 64" "length (ns_challenge_key s) = 32" "hm_ok (ns_pending_clients s)"
    using assms(1,2) by (auto simp: ns_ok_def pending_ok_def)
  from challenge_run[OF _ _ g(4), of "ct_client_id t" "pt_user_data p" ?cs] tp(2,6) obtain d where
    d: "generate_challenge ae (ct_client_id t) (pt_user_data p) ?cs (ns_challenge_key s) = Some (Inr (Challenge ?cs d))"
    "length d = 300" "challenge_token_decode ae d ?cs (ns_challenge_key s)
      = Some (Inr \<lparr>cht_client_id = ct_client_id t, cht_user_data = pt_user_data p\<rparr>)" by (auto simp: pt_read_ok_def)
  have ok: "packet_ok (Challenge ?cs d)" "length (ct_server_to_client_key t) = 32" "packet_wire (Challenge ?cs d) \<noteq> []"
    using d(2) g(3) tp(5,6) by (auto simp: pt_read_ok_def)
  from send_receive[OF ok(1) _ g(1) ok(2,3), of "ns_protocol_id s"] obtain out where
    o: "packet_encode ae (Challenge ?cs d) NETCODE_MAX_PACKET_BYTES (ns_protocol_id s) (Some (?g, ct_server_to_client_key t)) = Some (Inr out)"
    "frame_seq out = ?g" "frame_type out = Inr ChallengeType"
    "\<forall>rp rp'. replayed rp ChallengeType ?g = Some False \<and> replay_advance rp ChallengeType ?g = Some rp'
      \<longrightarrow> packet_decode ae out (ns_protocol_id s) (Some (ct_server_to_client_key t)) rp = Some (Inr (?g, Challenge ?cs d), rp')" by auto
  let ?c = "pending_connection s p addr (ct_expire_timestamp t)"
  let ?s' = "?s\<lparr>ns_challenge_sequence := ?cs, ns_global_sequence := ?g + 1,
    ns_pending_clients := hm_insert addr ?c (ns_pending_clients s)\<rparr>"
  have ans: "ns_answer_request ae ?s addr (ct_expire_timestamp t) p = Some (Inr (PacketToSend addr out), ?s')"
    using ad(3,5) g d(1) o(1) tp(2,5) by (simp add: ns_answer_request_def uadd_def pending_connection_def)
  have unk: "ns_from_unknown ae s addr b = Some (Inr (PacketToSend addr out), ?s')"
    using assms(6) tp(1,2,3) ad e ans
    by (auto simp: ns_from_unknown_def connection_request_from_token_def ns_handle_connection_request_def netcode_consts)
  then have "ns_process_packet ae s addr b = Some (PacketToSend addr out, ?s')"
    using assms(5) ad(2,3) by (simp add: ns_process_packet_def ns_process_packet_internal_def NETCODE_MAC_BYTES_def)
  moreover have "ns_ok (n + 1) ?s'" using from_unknown_returns[OF assms(1,2), of addr b] unk by auto
  moreover have "hm_get (ns_pending_clients ?s') addr = Some ?c" using g(5) by (simp add: map_simps)
  moreover have "\<forall>rp. packet_decode ae out (ns_protocol_id s) (Some (ct_server_to_client_key t)) rp = Some (Inr (?g, Challenge ?cs d), rp)"
    using o(4) replay_unprotected[of ChallengeType] by (auto simp: apply_replay_protection_def)
  ultimately show ?thesis using d(2,3) g(3) o(2,3) tp(2,4,5)
    by (intro exI[of _ out] exI[of _ ?cs] exI[of _ d] exI[of _ ?s'] exI[of _ ?c]) (simp add: pending_connection_def)
qed

lemma server_connects:
  assumes "ns_ok n s" and "n + 1 < 2 ^ 64" and "hm_get (ns_pending_clients s) addr = Some c" and "addr \<notin> addrs (ns_clients s)"
    and "18 \<le> length b"
    and "\<And>rp. packet_decode ae b (ns_protocol_id s) (Some (cn_receive_key c)) rp = Some (Inr (sq, Response cs d), rp)"
    and "challenge_token_decode ae d cs (ns_challenge_key s) = Some (Inr ch)"
    and "find_client_slot_by_id (ns_clients s) (cht_client_id ch) = None" and "None \<in> set (ns_clients s)"
  shows "\<exists>i out s' c'. ns_process_packet ae s addr b = Some (ConnectionOpened (cn_client_id c) addr (cht_user_data ch) out, s')
    \<and> i < length (ns_clients s) \<and> ns_clients s ! i = None \<and> ns_clients s' = (ns_clients s)[i := Some c']
    \<and> cn_client_id c' = cn_client_id c \<and> cn_user_data c' = cht_user_data ch \<and> cn_addr c' = addr
    \<and> frame_seq out = cn_sequence c \<and> frame_type out = Inr KeepAliveType
    \<and> (\<forall>rp rp'. replayed rp KeepAliveType (cn_sequence c) = Some False \<and> replay_advance rp KeepAliveType (cn_sequence c) = Some rp'
         \<longrightarrow> packet_decode ae out (ns_protocol_id s) (Some (cn_send_key c)) rp
           = Some (Inr (cn_sequence c, KeepAlive (i mod 2 ^ 32) (ns_max_clients s mod 2 ^ 32)), rp'))"
proof -
  have c: "cn_ok n (ns_current_time s) c" "cn_addr c = addr" "hm_ok (ns_pending_clients s)"
    using assms(1,3) by (auto simp: ns_ok_def pending_ok_def)
  then have q: "cn_sequence c < 2 ^ 64" "cn_sequence c + 1 < 2 ^ 64" "length (cn_send_key c) = 32"
    using assms(2) by (auto simp: cn_ok_def)
  from first_free_exists[OF assms(9)] obtain i where i: "first_free 0 (ns_clients s) = Some i" by blast
  have i2: "i < length (ns_clients s)" "ns_clients s ! i = None" using first_free_Some[OF i] by auto
  let ?k = "KeepAlive (i mod 2 ^ 32) (ns_max_clients s mod 2 ^ 32)"
  have "length (packet_wire ?k) = 8" by simp
  then have k: "packet_ok ?k" "packet_wire ?k \<noteq> []" by (simp, metis list.size(3) zero_neq_numeral)
  from send_receive[OF k(1) _ q(1,3) k(2), of "ns_protocol_id s"] obtain out where
    o: "packet_encode ae ?k NETCODE_MAX_PACKET_BYTES (ns_protocol_id s) (Some (cn_sequence c, cn_send_key c)) = Some (Inr out)"
    "frame_seq out = cn_sequence c" "frame_type out = Inr KeepAliveType"
    "\<forall>rp rp'. replayed rp KeepAliveType (cn_sequence c) = Some False \<and> replay_advance rp KeepAliveType (cn_sequence c) = Some rp'
      \<longrightarrow> packet_decode ae out (ns_protocol_id s) (Some (cn_send_key c)) rp = Some (Inr (cn_sequence c, ?k), rp')" by auto
  let ?p = "c\<lparr>cn_last_packet_received_time := ns_current_time s\<rparr>"
  let ?c = "?p\<lparr>cn_state := ConnConnected, cn_user_data := cht_user_data ch,
    cn_last_packet_send_time := ns_current_time s, cn_sequence := cn_sequence c + 1\<rparr>"
  let ?ps = "hm_insert addr ?p (ns_pending_clients s)"
  let ?s' = "s\<lparr>ns_pending_clients := hm_remove addr ?ps, ns_clients := (ns_clients s)[i := Some ?c]\<rparr>"
  have "hm_get ?ps addr = Some ?p" using c(3) by (simp add: map_simps)
  then have "ns_challenge_answered ae (s\<lparr>ns_pending_clients := ?ps\<rparr>) addr ch
      = Some (Inr (ConnectionOpened (cn_client_id c) addr (cht_user_data ch) out), ?s')"
    using assms(8) i o(1) q(2) by (simp add: ns_challenge_answered_def uadd_def)
  then have "ns_process_packet ae s addr b = Some (ConnectionOpened (cn_client_id c) addr (cht_user_data ch) out, ?s')"
    using assms(3,4,5,7) assms(6)[of "Some (cn_replay_protection c)"]
    by (simp add: ns_process_packet_def ns_process_packet_internal_def NETCODE_MAC_BYTES_def flip: find_addr_None)
      (simp add: ns_from_pending_def ns_pending_packet_def)
  then show ?thesis using i2 o(2-4) c(2)
    by (intro exI[of _ i] exI[of _ out] exI[of _ ?s'] exI[of _ ?c]) simp
qed

end

section \<open>The handshake\<close>

lemma token_pair_generated:
  assumes "aead_contract ae" and "as_secs now + expire < 2 ^ 64" and "protocol < 2 ^ 64" and "length private_key = 32"
    and "length key1 = 32" "length key2 = 32" "length xnonce = 24" "length random_data = 256"
    and "client_id < 2 ^ 64" "i32_ok timeout" "\<forall>a \<in> set addresses. sa_ok a \<and> plain_addr a"
    and "\<forall>d. user_data = Some d \<longrightarrow> length d = 256" and "0 < length addresses" "length addresses \<le> 32"
  shows "\<exists>t p. ct_generate ae key1 key2 random_data xnonce now protocol expire client_id timeout addresses user_data private_key
      = Some (Inr t) \<and> token_pair ae private_key t p
    \<and> ct_client_id t = client_id \<and> ct_protocol_id t = protocol \<and> ct_timeout_seconds t = timeout
    \<and> ct_create_timestamp t = as_secs now \<and> ct_expire_timestamp t = as_secs now + expire
    \<and> ct_server_addresses t = map Some addresses @ replicate (32 - length addresses) None
    \<and> pt_user_data p = (case user_data of Some d \<Rightarrow> d | None \<Rightarrow> random_data)"
proof -
  from aead_contract.ct_generate_run[OF assms(1,2,4-14), of protocol] obtain data where
    d: "length data = 1024"
    "ct_generate ae key1 key2 random_data xnonce now protocol expire client_id timeout addresses user_data private_key
      = Some (Inr \<lparr>ct_client_id = client_id, ct_version_info = NETCODE_VERSION_INFO, ct_protocol_id = protocol,
          ct_create_timestamp = as_secs now, ct_expire_timestamp = as_secs now + expire, ct_xnonce = xnonce,
          ct_server_addresses = map Some addresses @ replicate (32 - length addresses) None,
          ct_client_to_server_key = key1, ct_server_to_client_key = key2, ct_private_data = data,
          ct_timeout_seconds = timeout\<rparr>)"
    "pt_decode ae data protocol (as_secs now + expire) xnonce private_key
      = Some (Inr \<lparr>pt_client_id = client_id, pt_timeout_seconds = timeout,
          pt_server_addresses = map Some addresses @ replicate (32 - length addresses) None,
          pt_client_to_server_key = key1, pt_server_to_client_key = key2,
          pt_user_data = (case user_data of Some d \<Rightarrow> d | None \<Rightarrow> random_data)\<rparr>)" by blast
  have "length (case user_data of Some d \<Rightarrow> d | None \<Rightarrow> random_data) = 256" using assms(8,12) by (cases user_data) auto
  with d assms(2-14) show ?thesis
    by (auto simp: token_pair_def ct_ok_def pt_read_ok_def addresses_ok_def somes_map_Some)
qed

lemma fresh_client:
  assumes "ncl_new ae key1 key2 random_data xnonce now (ClientSecure t) = Some (Inr c)" and "ct_ok t"
    and "ct_create_timestamp t \<le> ct_expire_timestamp t"
  shows "ncl_ok c \<and> ncl_state c = SendingConnectionRequest \<and> ncl_connect_token c = t \<and> ncl_sequence c = 0
    \<and> ncl_current_time c = now \<and> ncl_connect_start_time c = now \<and> ncl_last_packet_received_time c = now
    \<and> ncl_last_packet_send_time c = None \<and> ncl_replay_protection c = rp_new"
  using assms
  by (auto simp: ncl_new_def bind_eq_Some_conv ncl_ok_def rp_new_def NETCODE_REPLAY_BUFFER_SIZE_def NETCODE_CHALLENGE_TOKEN_BYTES_def)

text \<open>A client that may take the times \<open>d1\<close> and \<open>d2\<close> before its two datagrams.\<close>

definition in_time :: "connect_token \<Rightarrow> duration \<Rightarrow> duration \<Rightarrow> duration \<Rightarrow> bool" where
  "in_time t now d1 d2 \<longleftrightarrow> now + d1 + d2 < NCL_TIME_LIMIT
     \<and> as_secs (d1 + d2) < ct_expire_timestamp t - ct_create_timestamp t
     \<and> (ct_timeout_seconds t > 0 \<longrightarrow> d1 \<le> from_secs (nat (ct_timeout_seconds t)) \<and> d2 \<le> from_secs (nat (ct_timeout_seconds t)))"

lemma as_secs_mono: "a \<le> b \<Longrightarrow> as_secs a \<le> as_secs b"
  by (simp add: as_secs_def div_le_mono)

text \<open>The datagrams \<open>b1\<close> to \<open>b4\<close> of a handshake, with the states of the two ends.\<close>

definition handshake ::
    "aead_api \<Rightarrow> netcode_client \<Rightarrow> netcode_server \<Rightarrow> socket_addr \<Rightarrow> duration \<Rightarrow> duration
     \<Rightarrow> (bytes \<times> bytes \<times> bytes \<times> bytes \<times> server_result \<times> netcode_client \<times> netcode_server) option" where
  "handshake ae c s addr d1 d2 = do {
     (r, c) \<leftarrow> ncl_update ae c d1;
     (b1, _) \<leftarrow> r;
     (r, s) \<leftarrow> ns_process_packet ae s addr b1;
     b2 \<leftarrow> (case r of PacketToSend _ b \<Rightarrow> Some b | _ \<Rightarrow> None);
     (_, c) \<leftarrow> ncl_process_packet ae c b2;
     (r, c) \<leftarrow> ncl_update ae c d2;
     (b3, _) \<leftarrow> r;
     (r, s) \<leftarrow> ns_process_packet ae s addr b3;
     b4 \<leftarrow> (case r of ConnectionOpened _ _ _ b \<Rightarrow> Some b | _ \<Rightarrow> None);
     (_, c) \<leftarrow> ncl_process_packet ae c b4;
     Some (b1, b2, b3, b4, r, c, s)
   }"

context aead_contract
begin

lemma handshake_run:
  assumes "ns_ok n s" and "n + 2 < 2 ^ 64" and "admits s addr t" and "token_pair ae (ns_connect_key s) t p"
    and "ncl_new ae key1 key2 random_data xnonce now (ClientSecure t) = Some (Inr c)"
    and "ct_create_timestamp t \<le> ct_expire_timestamp t" and "in_time t now d1 d2"
  shows "\<exists>b1 b2 b3 b4 c' s'. handshake ae c s addr d1 d2
      = Some (b1, b2, b3, b4, ConnectionOpened (ct_client_id t) addr (pt_user_data p) b4, c', s')
    \<and> ncl_is_connected c' \<and> ns_is_client_connected s' (ct_client_id t)
    \<and> ns_user_data s' (ct_client_id t) = Some (pt_user_data p) \<and> ns_client_addr s' (ct_client_id t) = Some addr
    \<and> (\<exists>cs d. packet_decode ae b2 (ct_protocol_id t) (Some (ct_server_to_client_key t)) None
          = Some (Inr (ns_global_sequence s, Challenge cs d), None))
    \<and> (\<exists>i m. packet_decode ae b4 (ct_protocol_id t) (Some (ct_server_to_client_key t)) None
          = Some (Inr (0, KeepAlive i m), None))
    \<and> (\<exists>s1. ns_ok (n + 1) s1
          \<and> ns_process_packet ae s1 addr b3 = Some (ConnectionOpened (ct_client_id t) addr (pt_user_data p) b4, s'))"
proof -
  have tp: "ct_ok t" using assms(4) by (simp add: token_pair_def)
  have proto: "ct_protocol_id t = ns_protocol_id s" and new: "addr \<notin> addrs (ns_clients s)"
    and id: "find_client_slot_by_id (ns_clients s) (ct_client_id t) = None" and free: "None \<in> set (ns_clients s)"
    using assms(3) by (auto simp: admits_def)
  note fc = fresh_client[OF assms(5) tp assms(6)]
  have g1: "goes_on c d1" using fc assms(7) as_secs_mono[of d1 "d1 + d2"] by (auto simp: goes_on_def in_time_def)
  from client_requests[of c d1] fc g1 obtain b1 where b1: "ncl_update ae c d1 = Some (Some (b1, ncl_server_addr c),
      c\<lparr>ncl_current_time := now + d1, ncl_last_packet_send_time := Some (now + d1), ncl_sequence := 1\<rparr>)" "18 \<le> length b1"
    "\<And>proto key rp. packet_decode ae b1 proto key rp = Some (Inr (0, connection_request_from_token t), rp)" by auto
  let ?c1 = "c\<lparr>ncl_current_time := now + d1, ncl_last_packet_send_time := Some (now + d1), ncl_sequence := 1\<rparr>"
  have n1: "n + 1 < 2 ^ 64" "n + 1 + 1 < 2 ^ 64" using assms(2) by simp_all
  from server_challenges[OF assms(1) n1(1) assms(3,4) b1(2,3)] obtain b2 cs d s1 pc where
    s1: "ns_process_packet ae s addr b1 = Some (PacketToSend addr b2, s1)" "ns_ok (n + 1) s1"
    "ns_clients s1 = ns_clients s" "ns_protocol_id s1 = ns_protocol_id s" "ns_challenge_key s1 = ns_challenge_key s"
    "hm_get (ns_pending_clients s1) addr = Some pc" "cn_client_id pc = ct_client_id t" "cn_sequence pc = 0"
    "cn_receive_key pc = ct_client_to_server_key t" "cn_send_key pc = ct_server_to_client_key t" "cs < 2 ^ 64" "length d = 300"
    "challenge_token_decode ae d cs (ns_challenge_key s) = Some (Inr \<lparr>cht_client_id = ct_client_id t, cht_user_data = pt_user_data p\<rparr>)"
    "frame_seq b2 = ns_global_sequence s" "frame_type b2 = Inr ChallengeType"
    "\<And>rp. packet_decode ae b2 (ns_protocol_id s) (Some (ct_server_to_client_key t)) rp
      = Some (Inr (ns_global_sequence s, Challenge cs d), rp)" by blast
  let ?c2 = "?c1\<lparr>ncl_challenge_token_sequence := cs, ncl_last_packet_received_time := now + d1,
    ncl_last_packet_send_time := None, ncl_challenge_token_data := d, ncl_state := SendingConnectionResponse\<rparr>"
  have p2: "ncl_process_packet ae ?c1 b2 = Some (None, ?c2)"
    using fc proto s1(16) by (simp add: ncl_process_packet_def)
  have ok2: "ncl_ok ?c2" using fc s1(11,12) assms(7) by (auto simp: ncl_ok_def ncl_is_disconnected_def)
  have g2: "goes_on ?c2 d2" using fc assms(7) by (auto simp: goes_on_def in_time_def algebra_simps)
  from client_responds[OF ok2 _ _ g2] fc obtain b3 c3 where b3: "ncl_update ae ?c2 d2 = Some (Some (b3, ncl_server_addr c), c3)"
    "18 \<le> length b3" "ncl_state c3 = SendingConnectionResponse" "ncl_connect_token c3 = t" "ncl_replay_protection c3 = rp_new"
    "\<And>rp. packet_decode ae b3 (ct_protocol_id t) (Some (ct_client_to_server_key t)) rp = Some (Inr (1, Response cs d), rp)" by auto
  from server_connects[OF s1(2) n1(2) s1(6), of b3 1 cs d "\<lparr>cht_client_id = ct_client_id t, cht_user_data = pt_user_data p\<rparr>"]
    s1 b3(2,6) new id free proto
  obtain i b4 s2 pc' where s2: "ns_process_packet ae s1 addr b3 = Some (ConnectionOpened (ct_client_id t) addr (pt_user_data p) b4, s2)"
    "i < length (ns_clients s)" "ns_clients s2 = (ns_clients s)[i := Some pc']" "cn_client_id pc' = ct_client_id t"
    "cn_user_data pc' = pt_user_data p" "cn_addr pc' = addr" "frame_seq b4 = 0" "frame_type b4 = Inr KeepAliveType"
    "\<And>rp rp'. replayed rp KeepAliveType 0 = Some False \<and> replay_advance rp KeepAliveType 0 = Some rp'
         \<Longrightarrow> packet_decode ae b4 (ns_protocol_id s) (Some (ct_server_to_client_key t)) rp
           = Some (Inr (0, KeepAlive (i mod 2 ^ 32) (ns_max_clients s1 mod 2 ^ 32)), rp')" by auto
  obtain rp4 where "replay_advance (Some rp_new) KeepAliveType 0 = Some (Some rp4)" using replay_first(2) by blast
  with s2(9) replay_first(1) have d4: "packet_decode ae b4 (ns_protocol_id s) (Some (ct_server_to_client_key t)) (Some rp_new)
      = Some (Inr (0, KeepAlive (i mod 2 ^ 32) (ns_max_clients s1 mod 2 ^ 32)), Some rp4)" by blast
  then obtain c4 where p4: "ncl_process_packet ae c3 b4 = Some (None, c4)" "ncl_is_connected c4"
    using b3(3,4,5) proto by (auto simp: ncl_process_packet_def ncl_is_connected_def)
  have "find_slot (\<lambda>x. cn_client_id x = ct_client_id t) 0 (ns_clients s2) = Some (i, pc')"
    using find_slot_put[of "\<lambda>x. cn_client_id x = ct_client_id t" 0 "ns_clients s" i pc'] id s2(2,3,4)
    by (simp add: find_client_slot_by_id_def)
  then have "ns_is_client_connected s2 (ct_client_id t)" "ns_user_data s2 (ct_client_id t) = Some (pt_user_data p)"
    "ns_client_addr s2 (ct_client_id t) = Some addr" using s2(5,6)
    by (simp_all add: ns_is_client_connected_def find_client_slot_by_id_def ns_user_data_def find_client_by_id_def ns_client_addr_def)
  moreover have "packet_decode ae b4 (ct_protocol_id t) (Some (ct_server_to_client_key t)) None
      = Some (Inr (0, KeepAlive (i mod 2 ^ 32) (ns_max_clients s1 mod 2 ^ 32)), None)"
    using s2(9)[of None None] proto by (simp add: replayed_def replay_advance_def)
  moreover have "packet_decode ae b2 (ct_protocol_id t) (Some (ct_server_to_client_key t)) None
      = Some (Inr (ns_global_sequence s, Challenge cs d), None)" using s1(16) proto by simp
  moreover have "handshake ae c s addr d1 d2
      = Some (b1, b2, b3, b4, ConnectionOpened (ct_client_id t) addr (pt_user_data p) b4, c4, s2)"
    using b1(1) s1(1) p2 b3(1) s2(1) p4(1) by (simp add: handshake_def)
  ultimately show ?thesis using p4(2) s1(2) s2(1) by blast
qed

end

section \<open>Properties\<close>

text \<open>The arguments of \<open>ConnectToken::generate\<close> that its types and its loop over the addresses allow.\<close>

definition token_args :: "bytes \<Rightarrow> bytes \<Rightarrow> bytes \<Rightarrow> bytes \<Rightarrow> u64 \<Rightarrow> u64 \<Rightarrow> u64 \<Rightarrow> int \<Rightarrow> socket_addr list \<Rightarrow> bytes option \<Rightarrow> bool" where
  "token_args key1 key2 random_data xnonce protocol expires client_id timeout addresses user_data \<longleftrightarrow>
     length key1 = 32 \<and> length key2 = 32 \<and> length xnonce = 24 \<and> length random_data = 256 \<and> protocol < 2 ^ 64
     \<and> expires < 2 ^ 64 \<and> client_id < 2 ^ 64 \<and> i32_ok timeout \<and> 0 < length addresses \<and> length addresses \<le> 32
     \<and> (\<forall>a \<in> set addresses. sa_ok a \<and> plain_addr a) \<and> (\<forall>d. user_data = Some d \<longrightarrow> length d = 256)"

lemma token_pair_issued:
  assumes "aead_contract ae" and "length private_key = 32"
    and "token_args key1 key2 random_data xnonce protocol (as_secs issued + expire) client_id timeout addresses user_data"
    and "ct_generate ae key1 key2 random_data xnonce issued protocol expire client_id timeout addresses user_data private_key
      = Some (Inr t)"
  shows "\<exists>p. token_pair ae private_key t p \<and> ct_client_id t = client_id \<and> ct_create_timestamp t \<le> ct_expire_timestamp t
    \<and> pt_user_data p = (case user_data of Some d \<Rightarrow> d | None \<Rightarrow> random_data)"
  using token_pair_generated[OF assms(1), of issued expire protocol private_key key1 key2 xnonce random_data client_id timeout
      addresses user_data] assms(2-4)
  by (auto simp: token_args_def)

text \<open>C32. A client that holds a token issued with the server's key, and that the server admits at its address,
  gets connected by the exchange of four datagrams: its request, the server's challenge, its
  response and the server's keep alive. At the end both ends hold the connection, the server under the
  id, the address and the user data of the token.\<close>

theorem handshake_connects:
  assumes "aead_contract ae" and "ns_ok n s" and "n + 2 < 2 ^ 64"
    and "token_args key1 key2 random_data xnonce protocol (as_secs issued + expire) client_id timeout addresses user_data"
    and "ct_generate ae key1 key2 random_data xnonce issued protocol expire client_id timeout addresses user_data
      (ns_connect_key s) = Some (Inr t)"
    and "ncl_new ae k1 k2 rd xn now (ClientSecure t) = Some (Inr c)"
    and "admits s addr t" and "in_time t now d1 d2"
  shows "\<exists>b1 b2 b3 b4 ud c' s'. handshake ae c s addr d1 d2
      = Some (b1, b2, b3, b4, ConnectionOpened client_id addr ud b4, c', s')
    \<and> ud = (case user_data of Some d \<Rightarrow> d | None \<Rightarrow> random_data)
    \<and> ncl_is_connected c' \<and> ns_is_client_connected s' client_id
    \<and> ns_user_data s' client_id = Some ud \<and> ns_client_addr s' client_id = Some addr"
proof -
  have "length (ns_connect_key s) = 32" using assms(2) by (simp add: ns_ok_def)
  from token_pair_issued[OF assms(1) this assms(4,5)] obtain p where
    p: "token_pair ae (ns_connect_key s) t p" "ct_client_id t = client_id" "ct_create_timestamp t \<le> ct_expire_timestamp t"
    "pt_user_data p = (case user_data of Some d \<Rightarrow> d | None \<Rightarrow> random_data)" by blast
  from aead_contract.handshake_run[OF assms(1,2,3,7) p(1) assms(6) p(3) assms(8)] p(2,4) show ?thesis by auto
qed

lemma sample_token_issued:
  "\<exists>t. ct_generate chacha20poly1305 (replicate 32 1) (replicate 32 2) (replicate 256 3) (replicate 24 4) (from_secs 10)
      7 30 5 15 [V4 [127, 0, 0, 1] 5000] None (replicate 32 9) = Some (Inr t)
    \<and> ct_client_id t = 5 \<and> ct_protocol_id t = 7 \<and> ct_create_timestamp t = 10 \<and> ct_expire_timestamp t = 40
    \<and> ct_timeout_seconds t = 15 \<and> ct_server_addresses t = Some (V4 [127, 0, 0, 1] 5000) # replicate 31 None
    \<and> ct_server_to_client_key t = replicate 32 2"
  using chacha.ct_generate_run[of "from_secs 10" 30 "replicate 32 9" "replicate 32 1" "replicate 32 2" "replicate 24 4"
      "replicate 256 3" 5 15 "[V4 [127, 0, 0, 1] 5000]" None 7]
  by (auto simp: i32_ok_def as_secs_def from_secs_def)

lemma sample_admits:
  assumes "ct_client_id t = 5" "ct_protocol_id t = 7" "ct_expire_timestamp t = 40"
    "ct_server_addresses t = Some (V4 [127, 0, 0, 1] 5000) # replicate 31 None"
  shows "admits sample_server (V4 [10, 0, 0, 1] 4000) t" "ns_connect_key sample_server = replicate 32 9"
    "ns_global_sequence sample_server = 0"
proof -
  have s: "ns_clients sample_server = replicate 4 None" "ns_protocol_id sample_server = 7"
    "ns_current_time sample_server = from_secs 10" "ns_public_addresses sample_server = [V4 [127, 0, 0, 1] 5000]"
    "ns_pending_clients sample_server = []" "ns_max_clients sample_server = 4"
    "set (ns_connect_token_entries sample_server) \<subseteq> {None}"
    by (auto simp: sample_server_def ns_new_def rust_assert_def sample_config_def NETCODE_MAX_CLIENTS_def)
  have c: "find_client_slot_by_id (replicate 4 None) 5 = None" "addrs (replicate 4 None) = {}"
    by (simp_all add: numeral_eq_Suc find_client_slot_by_id_def addrs_def)
  have "V4 [127, 0, 0, 1] 5000 \<in> set (somes (ct_server_addresses t))" using assms(4) by (simp add: somes_def)
  then show "admits sample_server (V4 [10, 0, 0, 1] 4000) t"
    using assms(1-3) s(7) c
    by (auto simp: admits_def s(1-6) somes_def NETCODE_MAX_PENDING_CLIENTS_def NETCODE_MAX_CLIENTS_def as_secs_def from_secs_def)
  show "ns_connect_key sample_server = replicate 32 9" "ns_global_sequence sample_server = 0"
    by (simp_all add: sample_server_def ns_new_def rust_assert_def sample_config_def NETCODE_MAX_CLIENTS_def)
qed

lemma sample_in_time:
  assumes "ct_create_timestamp t = 10" "ct_expire_timestamp t = 40" "ct_timeout_seconds t = 15"
  shows "in_time t (from_secs 10) (from_millis 16) (from_millis 500)"
  using assms by (simp add: in_time_def NCL_TIME_LIMIT_def from_secs_def from_millis_def as_secs_def)

lemma sample_args:
  "token_args (replicate 32 1) (replicate 32 2) (replicate 256 3) (replicate 24 4) 7 (as_secs (from_secs 10) + 30) 5 15
    [V4 [127, 0, 0, 1] 5000] None"
  by (simp add: token_args_def i32_ok_def as_secs_def from_secs_def)

lemma sample_client_new:
  assumes "ct_server_addresses t = Some (V4 [127, 0, 0, 1] 5000) # replicate 31 None"
  shows "\<exists>c. ncl_new ae k1 k2 rd xn now (ClientSecure t) = Some (Inr c)"
  using assms by (simp add: ncl_new_def vec_get_def)

lemmas sample_session = sample_admits sample_in_time sample_args sample_server_ok chacha.aead_contract_axioms

theorem handshake_connects_witness:
  "\<exists>t c b1 b2 b3 b4 c' s'. ncl_new chacha20poly1305 [] [] [] [] (from_secs 10) (ClientSecure t) = Some (Inr c)
    \<and> handshake chacha20poly1305 c sample_server (V4 [10, 0, 0, 1] 4000) (from_millis 16) (from_millis 500)
      = Some (b1, b2, b3, b4, ConnectionOpened 5 (V4 [10, 0, 0, 1] 4000) (replicate 256 3) b4, c', s')
    \<and> ncl_is_connected c' \<and> ns_is_client_connected s' 5"
proof -
  from sample_token_issued obtain t where t: "ct_generate chacha20poly1305 (replicate 32 1) (replicate 32 2) (replicate 256 3)
      (replicate 24 4) (from_secs 10) 7 30 5 15 [V4 [127, 0, 0, 1] 5000] None (replicate 32 9) = Some (Inr t)"
    "ct_client_id t = 5" "ct_protocol_id t = 7" "ct_create_timestamp t = 10" "ct_expire_timestamp t = 40"
    "ct_timeout_seconds t = 15" "ct_server_addresses t = Some (V4 [127, 0, 0, 1] 5000) # replicate 31 None" by blast
  from sample_client_new[OF t(7)] obtain c where c: "ncl_new chacha20poly1305 [] [] [] [] (from_secs 10) (ClientSecure t)
      = Some (Inr c)" by blast
  from handshake_connects[OF _ _ _ _ _ c, of 0 sample_server "replicate 32 1" "replicate 32 2" "replicate 256 3"
      "replicate 24 4" 7 "from_secs 10" 30 5 15 "[V4 [127, 0, 0, 1] 5000]" None "V4 [10, 0, 0, 1] 4000"
      "from_millis 16" "from_millis 500"] t sample_session c
  show ?thesis by (simp, blast)
qed

text \<open>C34. The server encrypts two different packets under one key and one nonce: on a server that has just
  started, the challenge of the first handshake, numbered by the server's global sequence, and its keep
  alive, numbered by the connection's sequence, are both decrypted with the sequence 0 under
  the server-to-client key of the client's token.\<close>

theorem server_nonce_reuse:
  assumes "aead_contract ae" and "ns_ok n s" and "n + 2 < 2 ^ 64" and "ns_global_sequence s = 0"
    and "token_args key1 key2 random_data xnonce protocol (as_secs issued + expire) client_id timeout addresses user_data"
    and "ct_generate ae key1 key2 random_data xnonce issued protocol expire client_id timeout addresses user_data
      (ns_connect_key s) = Some (Inr t)"
    and "ncl_new ae k1 k2 rd xn now (ClientSecure t) = Some (Inr c)"
    and "admits s addr t" and "in_time t now d1 d2"
  shows "\<exists>b1 b2 b3 b4 r c' s' cs d i m. handshake ae c s addr d1 d2 = Some (b1, b2, b3, b4, r, c', s')
    \<and> packet_decode ae b2 (ns_protocol_id s) (Some (ct_server_to_client_key t)) None = Some (Inr (0, Challenge cs d), None)
    \<and> packet_decode ae b4 (ns_protocol_id s) (Some (ct_server_to_client_key t)) None = Some (Inr (0, KeepAlive i m), None)"
proof -
  have "length (ns_connect_key s) = 32" using assms(2) by (simp add: ns_ok_def)
  from token_pair_issued[OF assms(1) this assms(5,6)] obtain p where
    p: "token_pair ae (ns_connect_key s) t p" "ct_create_timestamp t \<le> ct_expire_timestamp t" by blast
  have "ct_protocol_id t = ns_protocol_id s" using assms(8) by (simp add: admits_def)
  with aead_contract.handshake_run[OF assms(1,2,3,8) p(1) assms(7) p(2) assms(9)] assms(4) show ?thesis by auto
qed

theorem server_nonce_reuse_witness:
  "\<exists>t c b1 b2 b3 b4 r c' s' cs d i m. ncl_new chacha20poly1305 [] [] [] [] (from_secs 10) (ClientSecure t) = Some (Inr c)
    \<and> handshake chacha20poly1305 c sample_server (V4 [10, 0, 0, 1] 4000) (from_millis 16) (from_millis 500)
      = Some (b1, b2, b3, b4, r, c', s')
    \<and> packet_decode chacha20poly1305 b2 (ns_protocol_id sample_server) (Some (replicate 32 2)) None
      = Some (Inr (0, Challenge cs d), None)
    \<and> packet_decode chacha20poly1305 b4 (ns_protocol_id sample_server) (Some (replicate 32 2)) None
      = Some (Inr (0, KeepAlive i m), None)"
proof -
  from sample_token_issued obtain t where t: "ct_generate chacha20poly1305 (replicate 32 1) (replicate 32 2) (replicate 256 3)
      (replicate 24 4) (from_secs 10) 7 30 5 15 [V4 [127, 0, 0, 1] 5000] None (replicate 32 9) = Some (Inr t)"
    "ct_client_id t = 5" "ct_protocol_id t = 7" "ct_create_timestamp t = 10" "ct_expire_timestamp t = 40"
    "ct_timeout_seconds t = 15" "ct_server_addresses t = Some (V4 [127, 0, 0, 1] 5000) # replicate 31 None"
    "ct_server_to_client_key t = replicate 32 2" by blast
  from sample_client_new[OF t(7)] obtain c where c: "ncl_new chacha20poly1305 [] [] [] [] (from_secs 10) (ClientSecure t)
      = Some (Inr c)" by blast
  from server_nonce_reuse[OF _ _ _ _ _ _ c, of 0 sample_server "replicate 32 1" "replicate 32 2" "replicate 256 3"
      "replicate 24 4" 7 "from_secs 10" 30 5 15 "[V4 [127, 0, 0, 1] 5000]" None "V4 [10, 0, 0, 1] 4000"
      "from_millis 16" "from_millis 500"] t sample_session c
  show ?thesis by (simp, blast)
qed

lemma answer_request_opens_none:
  "ns_answer_request ae s addr e t = Some (r, s') \<Longrightarrow> r \<noteq> Inr (ConnectionOpened i a d out)"
  by (auto simp: ns_answer_request_def bind_eq_Some_conv split_sum_ex Let_def split: if_split_asm)

lemma request_opens_none:
  "ns_handle_connection_request ae s addr v pr e x dt = Some (r, s') \<Longrightarrow> r \<noteq> Inr (ConnectionOpened i a d out)"
  using answer_request_opens_none
  by (fastforce simp: ns_handle_connection_request_def bind_eq_Some_conv split_sum_ex Let_def split: if_split_asm)

lemma connected_opens_none:
  "ns_from_connected ae s addr b slot c = Some (r, s') \<Longrightarrow> r \<noteq> Inr (ConnectionOpened i a d out)"
  by (auto simp: ns_from_connected_def bind_eq_Some_conv split_sum_ex Let_def split: if_split_asm)
    (auto split: nc_packet.split_asm)

lemma unknown_opens_none:
  assumes "ns_from_unknown ae s addr b = Some (r, s')" shows "r \<noteq> Inr (ConnectionOpened i a d out)"
proof -
  from assms obtain q x where "packet_decode ae b (ns_protocol_id s) None None = Some (q, x)"
    by (auto simp: ns_from_unknown_def bind_eq_Some_conv)
  then show ?thesis using assms
    by (cases q) (auto simp: ns_from_unknown_def dest: request_opens_none split: nc_packet.split_asm)
qed

lemma challenge_opens:
  assumes "ns_challenge_answered ae s addr ch = Some (Inr (ConnectionOpened client_id a user_data out), s')"
    and "hm_get (ns_pending_clients s) addr = Some c"
  shows "find_client_slot_by_id (ns_clients s) (cht_client_id ch) = None \<and> client_id = cn_client_id c \<and> a = addr
    \<and> user_data = cht_user_data ch \<and> ns_pending_clients s' = hm_remove addr (ns_pending_clients s)
    \<and> (\<exists>i c'. first_free 0 (ns_clients s) = Some i \<and> ns_clients s' = (ns_clients s)[i := Some c']
        \<and> cn_client_id c' = client_id \<and> cn_user_data c' = user_data \<and> cn_addr c' = cn_addr c)"
  using assms
  by (auto simp: ns_challenge_answered_def bind_eq_Some_conv split_sum_ex Let_def split: if_split_asm option.split_asm)

lemma pending_opens:
  assumes "ns_pending_packet ae s addr packet = Some (Inr (ConnectionOpened client_id a user_data out), s')"
  shows "\<exists>cs d ch. packet = Response cs d \<and> challenge_token_decode ae d cs (ns_challenge_key s) = Some (Inr ch)
    \<and> ns_challenge_answered ae s addr ch = Some (Inr (ConnectionOpened client_id a user_data out), s')"
  using assms request_opens_none
  by (cases packet) (fastforce simp: ns_pending_packet_def bind_eq_Some_conv split_sum_ex)+

text \<open>C33. The server opens a connection only to a pending client, for a datagram that decodes with the
  receive key of this client to a response, whose challenge token decodes with the server's own key and
  names no connected client. The connection takes the first free slot; its id is the pending client's and
  its user data the challenge token's.\<close>

theorem connection_authentic:
  assumes "ns_ok n s" and "ns_process_packet ae s addr b = Some (ConnectionOpened client_id a user_data out, s')"
  shows "\<exists>c sq cs d rp ch i c'. hm_get (ns_pending_clients s) addr = Some c \<and> a = addr \<and> addr \<notin> addrs (ns_clients s)
    \<and> packet_decode ae b (ns_protocol_id s) (Some (cn_receive_key c)) (Some (cn_replay_protection c))
        = Some (Inr (sq, Response cs d), rp)
    \<and> challenge_token_decode ae d cs (ns_challenge_key s) = Some (Inr ch)
    \<and> find_client_slot_by_id (ns_clients s) (cht_client_id ch) = None
    \<and> client_id = cn_client_id c \<and> user_data = cht_user_data ch
    \<and> first_free 0 (ns_clients s) = Some i \<and> ns_clients s' = (ns_clients s)[i := Some c']
    \<and> cn_client_id c' = client_id \<and> cn_user_data c' = user_data \<and> cn_addr c' = addr
    \<and> hm_get (ns_pending_clients s') addr = None"
proof -
  have op: "ns_process_packet_internal ae s addr b = Some (Inr (ConnectionOpened client_id a user_data out), s')"
    using assms(2) by (auto simp: ns_process_packet_def bind_eq_Some_conv split_sum_ex)
  have new: "find_client_mut_by_addr (ns_clients s) addr = None"
    using op connected_opens_none by (fastforce simp: ns_process_packet_internal_def split: if_split_asm option.split_asm)
  then obtain c where c: "hm_get (ns_pending_clients s) addr = Some c"
    "ns_from_pending ae s addr b c = Some (Inr (ConnectionOpened client_id a user_data out), s')"
    using op unknown_opens_none by (fastforce simp: ns_process_packet_internal_def split: if_split_asm option.split_asm)
  then obtain sq packet rp where p: "packet_decode ae b (ns_protocol_id s) (Some (cn_receive_key c))
      (Some (cn_replay_protection c)) = Some (Inr (sq, packet), Some rp)"
    and pp: "ns_pending_packet ae (s\<lparr>ns_pending_clients := hm_insert addr (c\<lparr>cn_replay_protection := rp,
      cn_last_packet_received_time := ns_current_time s\<rparr>) (ns_pending_clients s)\<rparr>) addr packet
      = Some (Inr (ConnectionOpened client_id a user_data out), s')"
    by (auto simp: ns_from_pending_def bind_eq_Some_conv split_sum_ex Let_def)
  from pending_opens[OF pp] obtain cs d ch where r: "packet = Response cs d"
    "challenge_token_decode ae d cs (ns_challenge_key s) = Some (Inr ch)"
    and an: "ns_challenge_answered ae (s\<lparr>ns_pending_clients := hm_insert addr (c\<lparr>cn_replay_protection := rp,
      cn_last_packet_received_time := ns_current_time s\<rparr>) (ns_pending_clients s)\<rparr>) addr ch
      = Some (Inr (ConnectionOpened client_id a user_data out), s')" by auto
  have ok: "hm_ok (ns_pending_clients s)" "cn_addr c = addr" using assms(1) c(1) by (auto simp: ns_ok_def pending_ok_def)
  from challenge_opens[OF an, of "c\<lparr>cn_replay_protection := rp, cn_last_packet_received_time := ns_current_time s\<rparr>"]
    ok c(1) p r new show ?thesis by (auto simp: map_simps find_addr_None)
qed

theorem connection_authentic_witness:
  "\<exists>s b out s'. ns_process_packet chacha20poly1305 s (V4 [10, 0, 0, 1] 4000) b
      = Some (ConnectionOpened 5 (V4 [10, 0, 0, 1] 4000) (replicate 256 3) out, s')
    \<and> (\<exists>c sq cs d rp ch. hm_get (ns_pending_clients s) (V4 [10, 0, 0, 1] 4000) = Some c
    \<and> packet_decode chacha20poly1305 b (ns_protocol_id s) (Some (cn_receive_key c)) (Some (cn_replay_protection c))
        = Some (Inr (sq, Response cs d), rp)
    \<and> challenge_token_decode chacha20poly1305 d cs (ns_challenge_key s) = Some (Inr ch) \<and> 5 = cn_client_id c)"
proof -
  from sample_token_issued obtain t where t: "ct_generate chacha20poly1305 (replicate 32 1) (replicate 32 2) (replicate 256 3)
      (replicate 24 4) (from_secs 10) 7 30 5 15 [V4 [127, 0, 0, 1] 5000] None (replicate 32 9) = Some (Inr t)"
    "ct_client_id t = 5" "ct_protocol_id t = 7" "ct_create_timestamp t = 10" "ct_expire_timestamp t = 40"
    "ct_timeout_seconds t = 15" "ct_server_addresses t = Some (V4 [127, 0, 0, 1] 5000) # replicate 31 None" by blast
  from sample_client_new[OF t(7)] obtain c where c: "ncl_new chacha20poly1305 [] [] [] [] (from_secs 10) (ClientSecure t)
      = Some (Inr c)" by blast
  from token_pair_issued[OF chacha.aead_contract_axioms _ sample_args t(1)] obtain p where
    p: "token_pair chacha20poly1305 (replicate 32 9) t p" "pt_user_data p = replicate 256 3" by auto
  from chacha.handshake_run[OF sample_server_ok(1) _ _ _ c, of "V4 [10, 0, 0, 1] 4000" p "from_millis 16" "from_millis 500"]
    t p sample_session obtain s1 b out s' where "ns_ok 1 s1" and
    o: "ns_process_packet chacha20poly1305 s1 (V4 [10, 0, 0, 1] 4000) b
      = Some (ConnectionOpened 5 (V4 [10, 0, 0, 1] 4000) (replicate 256 3) out, s')" by auto
  from connection_authentic[OF this] have "\<exists>c sq cs d rp ch. hm_get (ns_pending_clients s1) (V4 [10, 0, 0, 1] 4000) = Some c
    \<and> packet_decode chacha20poly1305 b (ns_protocol_id s1) (Some (cn_receive_key c)) (Some (cn_replay_protection c))
        = Some (Inr (sq, Response cs d), rp)
    \<and> challenge_token_decode chacha20poly1305 d cs (ns_challenge_key s1) = Some (Inr ch) \<and> 5 = cn_client_id c"
    by (elim exE conjE) (intro exI conjI, assumption+)
  with o show ?thesis by - (rule exI[of _ s1], rule exI[of _ b], rule exI[of _ out], rule exI[of _ s'], rule conjI)
qed

end
