(* ===== verification/Spec2Isabelle.thy ===== *)
theory Spec2Isabelle
  imports SendReliable ReceiveReliable SendUnreliable ReceiveUnreliable PendingAcks RenetServer NetcodeSession
begin

text \<open>
  A verification development of \<open>renet\<close>, a Rust library for connections over unreliable
  datagrams.

  \<^bold>\<open>The program.\<close> \<open>src/renet\<close> multiplexes reliable and unreliable message channels over
  packets: \<open>packet.rs\<close> (the codec), \<open>channel/\<close> (slicing, sending and receiving),
  \<open>remote_connection.rs\<close> (one end of a connection), \<open>server.rs\<close> (all the connections of a
  server). \<open>src/renetcode\<close> is the netcode protocol: connect tokens, encrypted packets,
  replay protection, and the client and server state machines. \<open>src/renet_netcode\<close>
  connects the two over a UDP socket.

  \<^bold>\<open>Theories.\<close>
  \<^item> \<open>Prelude\<close>: the panic monad, checked machine arithmetic, durations, loops.
  \<^item> \<open>Collections\<close>: \<open>BTreeMap\<close> and \<open>HashMap\<close>; the locale \<open>rust_map\<close> and its two instances.
  \<^item> \<open>Octets\<close>: the external crate \<open>octets\<close> as a parameter; the locale \<open>octets_contract\<close>,
    met by the encoding of RFC 9000.
  \<^item> \<open>RenetPacket\<close>: \<open>renet/src/packet.rs\<close>.
  \<^item> \<open>SliceConstructor\<close>: \<open>renet/src/channel/slice_constructor.rs\<close> and \<open>renet/src/error.rs\<close>.
  \<^item> \<open>SendReliable\<close>: \<open>SendChannelReliable\<close> of \<open>renet/src/channel/reliable.rs\<close>.
\<close>

end
